(* ===== verification/Prelude.thy ===== *)
theory Prelude
  imports Main "HOL-Library.Word"
begin

text \<open>
  The shared vocabulary of the development: the outcomes of kernel code, the state-passing
  combinators in which every kernel function is written, their weakest-precondition rules,
  the machine integer types of \<^verbatim>\<open>kernel/types.h\<close>, and the generic lemmas on function updates and
  lists that the components share.
\<close>

unbundle bit_operations_syntax

section \<open>Machine integers (kernel/types.h)\<close>

type_synonym uchar = "8 word"
type_synonym ushort = "16 word"
type_synonym uint = "32 word"
type_synonym uint64 = "64 word"

section \<open>Outcomes of kernel code\<close>

text \<open>
  A kernel function started in a state either returns (\<open>Ok\<close>), calls \<^verbatim>\<open>panic\<close>, gives up the CPU
  because it called \<^verbatim>\<open>sleep\<close> (the state is the one in which the scheduler takes over), keeps
  spinning for ever on a loop whose condition nothing it does can change (\<open>Spin\<close>), or executes
  something the C standard leaves undefined, such as an index outside an array (\<open>UB\<close>).
\<close>

datatype ('a, 's) outcome = Ok 'a 's | Panic string | Sleep 's | Spin | UB string

type_synonym ('a, 's) kmonad = "'s \<Rightarrow> ('a, 's) outcome"

definition ret :: "'a \<Rightarrow> ('a, 's) kmonad" where
  "ret x = (\<lambda>s. Ok x s)"

definition bnd :: "('a, 's) kmonad \<Rightarrow> ('a \<Rightarrow> ('b, 's) kmonad) \<Rightarrow> ('b, 's) kmonad" where
  "bnd m f = (\<lambda>s. case m s of
       Ok x t \<Rightarrow> f x t
     | Panic e \<Rightarrow> Panic e
     | Sleep t \<Rightarrow> Sleep t
     | Spin \<Rightarrow> Spin
     | UB e \<Rightarrow> UB e)"

definition thn :: "('a, 's) kmonad \<Rightarrow> ('b, 's) kmonad \<Rightarrow> ('b, 's) kmonad" where
  "thn m n = bnd m (\<lambda>_. n)"

definition panic :: "string \<Rightarrow> ('a, 's) kmonad" where
  "panic msg = (\<lambda>s. Panic msg)"

definition undef :: "string \<Rightarrow> ('a, 's) kmonad" where
  "undef msg = (\<lambda>s. UB msg)"

definition spin :: "('a, 's) kmonad" where
  "spin = (\<lambda>s. Spin)"

definition reads :: "('s \<Rightarrow> 'a) \<Rightarrow> ('a, 's) kmonad" where
  "reads f = (\<lambda>s. Ok (f s) s)"

definition writes :: "('s \<Rightarrow> 's) \<Rightarrow> (unit, 's) kmonad" where
  "writes f = (\<lambda>s. Ok () (f s))"

definition mwhen :: "bool \<Rightarrow> (unit, 's) kmonad \<Rightarrow> (unit, 's) kmonad" where
  "mwhen b m = (if b then m else ret ())"

text \<open>A \<^verbatim>\<open>for\<close> loop over a fixed list of indices, without early exit.\<close>

primrec foreach :: "'b list \<Rightarrow> ('b \<Rightarrow> (unit, 's) kmonad) \<Rightarrow> (unit, 's) kmonad" where
  "foreach [] body = ret ()"
| "foreach (x # xs) body = thn (body x) (foreach xs body)"

text \<open>Calling an operation \<open>n\<close> times, keeping the results.\<close>

primrec mrep :: "nat \<Rightarrow> ('a, 's) kmonad \<Rightarrow> ('a list, 's) kmonad" where
  "mrep 0 m = ret []"
| "mrep (Suc n) m = bnd m (\<lambda>x. bnd (mrep n m) (\<lambda>xs. ret (x # xs)))"

named_theorems kdefs "the combinators, for unfolding"
named_theorems kstep "rules that execute one step of a kernel function"

lemmas kmonad_defs [kdefs] =
  ret_def bnd_def thn_def panic_def undef_def spin_def reads_def writes_def mwhen_def

lemma bnd_cong [fundef_cong]:
  assumes "m s = m' s'" and "\<And>x t. m' s' = Ok x t \<Longrightarrow> f x t = f' x t"
  shows "bnd m f s = bnd m' f' s'"
  using assms by (auto simp: bnd_def split: outcome.splits)

lemma thn_cong [fundef_cong]:
  assumes "m s = m' s'" and "\<And>x t. m' s' = Ok x t \<Longrightarrow> n t = n' t"
  shows "thn m n s = thn m' n' s'"
  using assms by (auto simp: thn_def intro: bnd_cong)

lemma if_state_cong [fundef_cong]:
  assumes "b = b'" and "b' \<Longrightarrow> m s = m' s" and "\<not> b' \<Longrightarrow> n s = n' s"
  shows "(if b then m else n) s = (if b' then m' else n') s"
  using assms by simp

lemma let_state_cong [fundef_cong]:
  assumes "a = a'" and "\<And>x. x = a' \<Longrightarrow> f x s = f' x s"
  shows "(Let a f) s = (Let a' f') s"
  using assms by simp

lemma ret_step [kstep]: "ret x s = Ok x s"
  by (simp add: ret_def)

lemma reads_step [kstep]: "reads f s = Ok (f s) s"
  by (simp add: reads_def)

lemma writes_step [kstep]: "writes f s = Ok () (f s)"
  by (simp add: writes_def)

lemma panic_step [kstep]: "panic e s = Panic e"
  by (simp add: panic_def)

lemma undef_step [kstep]: "undef e s = UB e"
  by (simp add: undef_def)

lemma spin_step [kstep]: "spin s = Spin"
  by (simp add: spin_def)

lemma bnd_Ok [kstep]: "m s = Ok x t \<Longrightarrow> bnd m f s = f x t"
  by (simp add: bnd_def)

lemma bnd_Panic [kstep]: "m s = Panic e \<Longrightarrow> bnd m f s = Panic e"
  by (simp add: bnd_def)

lemma bnd_Sleep [kstep]: "m s = Sleep t \<Longrightarrow> bnd m f s = Sleep t"
  by (simp add: bnd_def)

lemma thn_Ok [kstep]: "m s = Ok x t \<Longrightarrow> thn m n s = n t"
  by (simp add: thn_def bnd_def)

lemma thn_Panic [kstep]: "m s = Panic e \<Longrightarrow> thn m n s = Panic e"
  by (simp add: thn_def bnd_def)

lemma thn_Sleep [kstep]: "m s = Sleep t \<Longrightarrow> thn m n s = Sleep t"
  by (simp add: thn_def bnd_def)

lemma mwhen_pos [kstep]: "b \<Longrightarrow> mwhen b m = m"
  by (simp add: mwhen_def)

lemma mwhen_neg [kstep]: "\<not> b \<Longrightarrow> mwhen b m = ret ()"
  by (simp add: mwhen_def)

lemma bnd_assoc: "bnd (bnd m f) g = bnd m (\<lambda>x. bnd (f x) g)"
  by (rule ext) (simp add: bnd_def split: outcome.splits)

lemma bnd_ret [simp]: "bnd m ret = m"
  by (rule ext) (simp add: bnd_def ret_def split: outcome.splits)

lemma ret_bnd [simp]: "bnd (ret x) f = f x"
  by (rule ext) (simp add: bnd_def ret_def)

lemma bnd_eq_Ok:
  "bnd m f s = Ok y u \<longleftrightarrow> (\<exists>x t. m s = Ok x t \<and> f x t = Ok y u)"
  by (auto simp: bnd_def split: outcome.splits)

lemma thn_eq_Ok:
  "thn m n s = Ok y u \<longleftrightarrow> (\<exists>x t. m s = Ok x t \<and> n t = Ok y u)"
  by (auto simp: thn_def bnd_eq_Ok)

lemma foreach_append:
  "foreach (xs @ ys) body = thn (foreach xs body) (foreach ys body)"
  by (induction xs)
    (auto simp: fun_eq_iff thn_def bnd_def ret_def split: outcome.splits)

section \<open>Total correctness: weakest preconditions\<close>

text \<open>
  \<open>wp m Q s\<close>: started in \<open>s\<close>, \<open>m\<close> returns (no panic, no sleep, no undefined behaviour) and its
  result and final state satisfy \<open>Q\<close>.
\<close>

definition wp :: "('a, 's) kmonad \<Rightarrow> ('a \<Rightarrow> 's \<Rightarrow> bool) \<Rightarrow> 's \<Rightarrow> bool" where
  "wp m Q s = (case m s of Ok x t \<Rightarrow> Q x t | _ \<Rightarrow> False)"

named_theorems wps "weakest preconditions of the combinators"

lemma wp_ret [wps]: "wp (ret x) Q s = Q x s"
  by (simp add: wp_def ret_def)

lemma wp_reads [wps]: "wp (reads f) Q s = Q (f s) s"
  by (simp add: wp_def reads_def)

lemma wp_writes [wps]: "wp (writes f) Q s = Q () (f s)"
  by (simp add: wp_def writes_def)

lemma wp_bnd [wps]: "wp (bnd m f) Q s = wp m (\<lambda>x. wp (f x) Q) s"
  by (simp add: wp_def bnd_def split: outcome.splits)

lemma wp_thn [wps]: "wp (thn m n) Q s = wp m (\<lambda>_. wp n Q) s"
  by (simp add: thn_def wp_bnd)

lemma wp_mwhen [wps]: "wp (mwhen b m) Q s = (if b then wp m Q s else Q () s)"
  by (simp add: mwhen_def wp_ret)

lemma wp_panic [wps]: "wp (panic e) Q s = False"
  by (simp add: wp_def panic_def)

lemma wp_undef [wps]: "wp (undef e) Q s = False"
  by (simp add: wp_def undef_def)

lemma wp_Ok: "m s = Ok x t \<Longrightarrow> wp m Q s = Q x t"
  by (simp add: wp_def)

lemma wp_iff: "wp m Q s \<longleftrightarrow> (\<exists>x t. m s = Ok x t \<and> Q x t)"
  by (simp add: wp_def split: outcome.splits)

lemma wp_mono: "wp m P s \<Longrightarrow> (\<And>x t. P x t \<Longrightarrow> Q x t) \<Longrightarrow> wp m Q s"
  by (auto simp: wp_def split: outcome.splits)

text \<open>A counted loop keeps an invariant indexed by the iterations done so far.\<close>

lemma wp_foreach:
  assumes "\<And>i t. i < length xs \<Longrightarrow> I i t \<Longrightarrow> wp (body (xs ! i)) (\<lambda>_. I (Suc i)) t"
    and "I 0 s"
  shows "wp (foreach xs body) (\<lambda>_. I (length xs)) s"
  using assms
proof (induction xs arbitrary: I s)
  case Nil
  then show ?case by (simp add: wps)
next
  case (Cons x xs)
  have tail: "wp (foreach xs body) (\<lambda>_. I (length (x # xs))) t" if "I (Suc 0) t" for t
  proof -
    have "wp (foreach xs body) (\<lambda>_ u. I (Suc (length xs)) u) t"
    proof (rule Cons.IH [of "\<lambda>i. I (Suc i)"])
      show "wp (body (xs ! i)) (\<lambda>_. I (Suc (Suc i))) u" if "i < length xs" "I (Suc i) u" for i u
        using Cons.prems(1) [of "Suc i" u] that by simp
    qed (rule that)
    then show ?thesis by simp
  qed
  have "wp (body x) (\<lambda>_. I (Suc 0)) s"
    using Cons.prems(1) [of 0 s] Cons.prems(2) by simp
  then have "wp (body x) (\<lambda>_. wp (foreach xs body) (\<lambda>_. I (length (x # xs)))) s"
    by (rule wp_mono) (rule tail)
  then show ?case by (simp add: wps)
qed

section \<open>Words\<close>

lemma unat_of_nat_small: "n < 2 ^ LENGTH('a) \<Longrightarrow> unat (of_nat n :: 'a::len word) = n"
  by (simp add: unat_of_nat take_bit_eq_mod)

lemma unat_lt2p: "unat (w :: 'a::len word) < 2 ^ LENGTH('a)"
  by (rule unsigned_less)

lemma eq_of_nat_iff:
  fixes x :: "'a::len word"
  assumes "n < 2 ^ LENGTH('a)"
  shows "x = of_nat n \<longleftrightarrow> unat x = n"
  using assms by (auto simp: unat_of_nat_small)

section \<open>Function updates\<close>

lemma fun_upd_eqI: "v = w \<Longrightarrow> f(x := v) = f(x := w)"
  by simp

lemma fun_upd_same [simp]: "f x = v \<Longrightarrow> f(x := v) = f"
  by (rule fun_upd_idem)

end
