(* ===== verification/Kernel.thy ===== *)
theory Kernel
  imports Prelude
begin

text \<open>
  The data every kernel component works on: the constants of \<^verbatim>\<open>kernel/param.h\<close>, the lock
  structures, \<^verbatim>\<open>struct context\<close>, \<^verbatim>\<open>struct cpu\<close> and \<^verbatim>\<open>struct proc\<close>, and the base record of the kernel state. Each
  component extends the record with its own globals, so that a function of one layer runs
  unchanged in the state of every layer above it.

  Pointers to elements of a static array (\<^verbatim>\<open>struct proc *\<close>, \<^verbatim>\<open>struct buf *\<close>, \<^verbatim>\<open>struct inode *\<close>) are
  their indices; pointers that may be null are \<open>option\<close>s; 0/1 flags are \<open>bool\<close>s; pages are 64-bit
  physical addresses. Static locks are named by constructors of \<open>lockid\<close>, sleep channels by
  constructors of \<open>chan\<close>, so that two locks or two channels are equal exactly when the C addresses are.
\<close>

section \<open>Constants (kernel/param.h)\<close>

definition NPROC :: nat where "NPROC = 64"
definition NCPU :: nat where "NCPU = 8"
definition NOFILE :: nat where "NOFILE = 16"
definition NFILE :: nat where "NFILE = 100"
definition NINODE :: nat where "NINODE = 50"
definition NDEV :: nat where "NDEV = 10"
definition ROOTDEV :: uint where "ROOTDEV = 1"
definition MAXARG :: nat where "MAXARG = 32"
definition MAXOPBLOCKS :: nat where "MAXOPBLOCKS = 10"
definition LOGSIZE :: nat where "LOGSIZE = MAXOPBLOCKS * 3"
definition NBUF :: nat where "NBUF = MAXOPBLOCKS * 3"
definition FSSIZE :: nat where "FSSIZE = 2000"
definition MAXPATH :: nat where "MAXPATH = 128"
definition USERSTACK :: nat where "USERSTACK = 2"

section \<open>Open modes (kernel/fcntl.h)\<close>

definition O_RDONLY :: uint where "O_RDONLY = 0x000"
definition O_WRONLY :: uint where "O_WRONLY = 0x001"
definition O_RDWR :: uint where "O_RDWR = 0x002"
definition O_CREATE :: uint where "O_CREATE = 0x200"
definition O_TRUNC :: uint where "O_TRUNC = 0x400"

section \<open>Names of locks and channels\<close>

datatype slockid = SlBuf nat | SlInode nat

datatype lockid =
    LkKmem | LkBcache | LkLog | LkItable | LkFtable | LkPid | LkWait | LkTicks
  | LkCons | LkUart | LkDisk | LkPr
  | LkProc nat | LkSleep slockid | LkPipe uint64

datatype chan =
    ChLog | ChTicks | ChConsR | ChUartTxR | ChDiskFree
  | ChProc nat | ChSleep slockid | ChBuf nat | ChPipeRead uint64 | ChPipeWrite uint64

section \<open>Locks, CPUs and processes\<close>

record spinlock =
  lk_locked :: bool
  lk_name :: string
  lk_cpu :: "nat option"

record sleeplock =
  sl_locked :: bool
  sl_name :: string
  sl_pid :: int

record kcontext =
  ctx_ra :: uint64
  ctx_sp :: uint64
  ctx_s :: "uint64 list"

record cpu =
  cpu_proc :: "nat option"
  noff :: nat
  intena :: bool

datatype procstate = UNUSED | USED | SLEEPING | RUNNABLE | RUNNING | ZOMBIE

record proc =
  p_state :: procstate
  p_chan :: "chan option"
  p_killed :: bool
  p_xstate :: int
  p_pid :: int
  p_parent :: "nat option"
  p_kstack :: uint64
  p_sz :: uint64
  p_pagetable :: uint64
  p_trapframe :: uint64
  p_context :: kcontext
  p_ofile :: "nat option list"
  p_cwd :: "nat option"
  p_name :: "uchar list"

text \<open>
  The base of the kernel state: the hart that executes (\<^verbatim>\<open>r_tp()\<close>), each hart's \<^verbatim>\<open>struct cpu\<close> and
  the interrupt-enable bit \<^verbatim>\<open>SIE\<close> of its \<^verbatim>\<open>sstatus\<close>, all locks, and the process table.
\<close>

record kbase =
  hart :: nat
  cpus :: "nat \<Rightarrow> cpu"
  sie :: "nat \<Rightarrow> bool"
  locks :: "lockid \<Rightarrow> spinlock"
  slocks :: "slockid \<Rightarrow> sleeplock"
  procs :: "nat \<Rightarrow> proc"
  initproc :: "nat option"
  nextpid :: int

text \<open>
  The static variables of the kernel before \<^verbatim>\<open>main\<close> runs: C initialises them to zero, except
  \<^verbatim>\<open>nextpid\<close>, which starts at 1.
\<close>

definition zero_spinlock :: spinlock where
  "zero_spinlock = \<lparr>lk_locked = False, lk_name = [], lk_cpu = None\<rparr>"

definition zero_sleeplock :: sleeplock where
  "zero_sleeplock = \<lparr>sl_locked = False, sl_name = [], sl_pid = 0\<rparr>"

definition zero_cpu :: cpu where
  "zero_cpu = \<lparr>cpu_proc = None, noff = 0, intena = False\<rparr>"

definition zero_context :: kcontext where
  "zero_context = \<lparr>ctx_ra = 0, ctx_sp = 0, ctx_s = replicate 12 0\<rparr>"

definition zero_proc :: proc where
  "zero_proc = \<lparr>p_state = UNUSED, p_chan = None, p_killed = False, p_xstate = 0, p_pid = 0,
     p_parent = None, p_kstack = 0, p_sz = 0, p_pagetable = 0, p_trapframe = 0,
     p_context = zero_context, p_ofile = replicate NOFILE None, p_cwd = None,
     p_name = replicate 16 0\<rparr>"

definition boot_kbase :: kbase where
  "boot_kbase = \<lparr>hart = 0, cpus = (\<lambda>_. zero_cpu), sie = (\<lambda>_. False),
     locks = (\<lambda>_. zero_spinlock), slocks = (\<lambda>_. zero_sleeplock), procs = (\<lambda>_. zero_proc),
     initproc = None, nextpid = 1\<rparr>"

named_theorems kframe "what the fields of the state are after an update of other fields"

end
