(* ===== verification/Spinlock.thy ===== *)
theory Spinlock
  imports Kernel
begin

text \<open>
  \<^verbatim>\<open>kernel/spinlock.c\<close>. The functions as they run on one hart, the effect of a balanced
  acquire/release pair, and an interleaving model of several harts in which \<^verbatim>\<open>acquire\<close> and
  \<^verbatim>\<open>release\<close> are broken into the memory accesses the code makes.
\<close>

section \<open>Interrupts and the current CPU\<close>

definition intr_get :: "(bool, 'a kbase_scheme) kmonad" where
  "intr_get = reads (\<lambda>s. sie s (hart s))"

definition intr_on :: "(unit, 'a kbase_scheme) kmonad" where
  "intr_on = writes (\<lambda>s. s\<lparr>sie := (sie s)(hart s := True)\<rparr>)"

definition intr_off :: "(unit, 'a kbase_scheme) kmonad" where
  "intr_off = writes (\<lambda>s. s\<lparr>sie := (sie s)(hart s := False)\<rparr>)"

definition mycpu :: "(cpu, 'a kbase_scheme) kmonad" where
  "mycpu = reads (\<lambda>s. cpus s (hart s))"

definition upd_mycpu :: "(cpu \<Rightarrow> cpu) \<Rightarrow> (unit, 'a kbase_scheme) kmonad" where
  "upd_mycpu f = writes (\<lambda>s. s\<lparr>cpus := (cpus s)(hart s := f (cpus s (hart s)))\<rparr>)"

definition upd_lock :: "lockid \<Rightarrow> (spinlock \<Rightarrow> spinlock) \<Rightarrow> (unit, 'a kbase_scheme) kmonad" where
  "upd_lock l f = writes (\<lambda>s. s\<lparr>locks := (locks s)(l := f (locks s l))\<rparr>)"

definition push_off :: "(unit, 'a kbase_scheme) kmonad" where
  "push_off =
     bnd intr_get (\<lambda>old.
     thn intr_off (
     bnd mycpu (\<lambda>c.
     thn (mwhen (noff c = 0) (upd_mycpu (\<lambda>c. c\<lparr>intena := old\<rparr>)))
         (upd_mycpu (\<lambda>c. c\<lparr>noff := noff c + 1\<rparr>)))))"

definition pop_off :: "(unit, 'a kbase_scheme) kmonad" where
  "pop_off =
     bnd intr_get (\<lambda>on.
     if on then panic ''pop_off - interruptible'' else
     bnd mycpu (\<lambda>c.
     if noff c < 1 then panic ''pop_off'' else
     thn (upd_mycpu (\<lambda>c. c\<lparr>noff := noff c - 1\<rparr>))
         (bnd mycpu (\<lambda>c. mwhen (noff c = 0 \<and> intena c) intr_on))))"

section \<open>The lock operations\<close>

definition initlock :: "lockid \<Rightarrow> string \<Rightarrow> (unit, 'a kbase_scheme) kmonad" where
  "initlock l name = upd_lock l (\<lambda>_. \<lparr>lk_locked = False, lk_name = name, lk_cpu = None\<rparr>)"

definition holding :: "lockid \<Rightarrow> (bool, 'a kbase_scheme) kmonad" where
  "holding l = reads (\<lambda>s. lk_locked (locks s l) \<and> lk_cpu (locks s l) = Some (hart s))"

text \<open>
  The test-and-set loop: it leaves with the lock set when the lock was free, and goes round
  again, changing nothing, as long as it is not.
\<close>

definition test_and_set :: "lockid \<Rightarrow> (unit, 'a kbase_scheme) kmonad" where
  "test_and_set l =
     bnd (reads (\<lambda>s. lk_locked (locks s l))) (\<lambda>old.
     if old then spin else upd_lock l (\<lambda>k. k\<lparr>lk_locked := True\<rparr>))"

definition acquire :: "lockid \<Rightarrow> (unit, 'a kbase_scheme) kmonad" where
  "acquire l =
     thn push_off (
     bnd (holding l) (\<lambda>h.
     if h then panic ''acquire'' else
     thn (test_and_set l)
         (bnd (reads hart) (\<lambda>me. upd_lock l (\<lambda>k. k\<lparr>lk_cpu := Some me\<rparr>)))))"

definition release :: "lockid \<Rightarrow> (unit, 'a kbase_scheme) kmonad" where
  "release l =
     bnd (holding l) (\<lambda>h.
     if \<not> h then panic ''release'' else
     thn (upd_lock l (\<lambda>k. k\<lparr>lk_cpu := None\<rparr>)) (
     thn (upd_lock l (\<lambda>k. k\<lparr>lk_locked := False\<rparr>))
         pop_off))"

lemmas spinlock_defs [kdefs] =
  intr_get_def intr_on_def intr_off_def mycpu_def upd_mycpu_def upd_lock_def
  push_off_def pop_off_def initlock_def holding_def test_and_set_def acquire_def release_def

section \<open>What a critical section does to the base state\<close>

text \<open>
  \<open>base_ok\<close>: the hart's interrupt bookkeeping is consistent: inside a \<^verbatim>\<open>push_off\<close> interrupts are
  off; outside one, \<open>intena\<close>, which the next \<^verbatim>\<open>push_off\<close> overwrites, agrees with \<open>SIE\<close>.
  \<open>lk_free\<close>: nobody holds the lock. \<open>lock_st\<close>: the state in which a critical section runs.
\<close>

definition base_ok :: "'a kbase_scheme \<Rightarrow> bool" where
  "base_ok s \<longleftrightarrow>
     (if noff (cpus s (hart s)) = 0 then intena (cpus s (hart s)) = sie s (hart s)
      else \<not> sie s (hart s))"

definition lk_free :: "lockid \<Rightarrow> 'a kbase_scheme \<Rightarrow> bool" where
  "lk_free l s \<longleftrightarrow> \<not> lk_locked (locks s l) \<and> lk_cpu (locks s l) = None"

definition push_st :: "'a kbase_scheme \<Rightarrow> 'a kbase_scheme" where
  "push_st s = s\<lparr>
     sie := (sie s)(hart s := False),
     cpus := (cpus s)(hart s := (cpus s (hart s))\<lparr>
       intena := (if noff (cpus s (hart s)) = 0 then sie s (hart s) else intena (cpus s (hart s))),
       noff := noff (cpus s (hart s)) + 1\<rparr>)\<rparr>"

definition lock_st :: "lockid \<Rightarrow> 'a kbase_scheme \<Rightarrow> 'a kbase_scheme" where
  "lock_st l s = (push_st s)\<lparr>
     locks := (locks s)(l := (locks s l)\<lparr>lk_locked := True, lk_cpu := Some (hart s)\<rparr>)\<rparr>"

lemma push_off_step [kstep]: "push_off s = Ok () (push_st s)"
  by (simp add: kdefs push_st_def)

lemma pop_off_push_st [kstep]:
  assumes "base_ok s"
  shows "pop_off (push_st s) = Ok () s"
proof (cases "noff (cpus s (hart s)) = 0")
  case True
  with assms show ?thesis
    by (cases "sie s (hart s)") (auto simp: kdefs push_st_def base_ok_def)
next
  case False
  with assms show ?thesis
    by (auto simp: kdefs push_st_def base_ok_def)
qed

lemma acquire_step [kstep]: "lk_free l s \<Longrightarrow> acquire l s = Ok () (lock_st l s)"
  by (simp add: acquire_def push_off_step thn_def bnd_def)
     (simp add: kdefs lock_st_def push_st_def lk_free_def)

lemma release_step [kstep]:
  assumes "base_ok s" and "lk_free l s"
  shows "release l (lock_st l s) = Ok () s"
proof -
  have restore: "(locks s l)\<lparr>lk_cpu := None, lk_locked := False\<rparr> = locks s l"
    using assms(2) by (simp add: lk_free_def)
  have "release l (lock_st l s) = pop_off (push_st s)"
    using restore by (simp add: release_def holding_def upd_lock_def lock_st_def push_st_def
      bnd_def thn_def reads_def writes_def)
  then show ?thesis using pop_off_push_st [OF assms(1)] by simp
qed


section \<open>Several harts: the interleaving model\<close>

text \<open>
  Each hart is either running code of its own (\<open>PcRun\<close>) or inside \<^verbatim>\<open>acquire\<close> or \<^verbatim>\<open>release\<close> at
  one of the points between two accesses to shared memory. \<open>crit s h\<close> records the locks for which hart
  \<open>h\<close> has returned from \<^verbatim>\<open>acquire\<close> and not yet called \<^verbatim>\<open>release\<close>. The steps run the functions
  above on one hart at a time; a failing test-and-set leaves the state as it is, so it needs no rule.
\<close>

datatype pc =
    PcRun | PcAcqChk lockid | PcAcqSpin lockid | PcAcqCpu lockid
  | PcRelClr lockid | PcRelSwap lockid | PcRelPop lockid

record lksys = kbase +
  pcs :: "nat \<Rightarrow> pc"
  crit :: "nat \<Rightarrow> lockid set"

definition go :: "nat \<Rightarrow> pc \<Rightarrow> lksys \<Rightarrow> lksys" where
  "go h p s = s\<lparr>pcs := (pcs s)(h := p)\<rparr>"

inductive lk_step :: "lksys \<Rightarrow> lksys \<Rightarrow> bool" where
  acq_push: "pcs s h = PcRun \<Longrightarrow> push_off (s\<lparr>hart := h\<rparr>) = Ok () t \<Longrightarrow>
     lk_step s (go h (PcAcqChk l) t)"
| acq_check: "pcs s h = PcAcqChk l \<Longrightarrow> holding l (s\<lparr>hart := h\<rparr>) = Ok False t \<Longrightarrow>
     lk_step s (go h (PcAcqSpin l) t)"
| acq_swap: "pcs s h = PcAcqSpin l \<Longrightarrow> test_and_set l (s\<lparr>hart := h\<rparr>) = Ok () t \<Longrightarrow>
     lk_step s (go h (PcAcqCpu l) t)"
| acq_cpu: "pcs s h = PcAcqCpu l \<Longrightarrow>
     upd_lock l (\<lambda>k. k\<lparr>lk_cpu := Some h\<rparr>) (s\<lparr>hart := h\<rparr>) = Ok () t \<Longrightarrow>
     lk_step s ((go h PcRun t)\<lparr>crit := (crit t)(h := insert l (crit t h))\<rparr>)"
| rel_check: "pcs s h = PcRun \<Longrightarrow> holding l (s\<lparr>hart := h\<rparr>) = Ok True t \<Longrightarrow>
     lk_step s ((go h (PcRelClr l) t)\<lparr>crit := (crit t)(h := crit t h - {l})\<rparr>)"
| rel_clear: "pcs s h = PcRelClr l \<Longrightarrow>
     upd_lock l (\<lambda>k. k\<lparr>lk_cpu := None\<rparr>) (s\<lparr>hart := h\<rparr>) = Ok () t \<Longrightarrow>
     lk_step s (go h (PcRelSwap l) t)"
| rel_swap: "pcs s h = PcRelSwap l \<Longrightarrow>
     upd_lock l (\<lambda>k. k\<lparr>lk_locked := False\<rparr>) (s\<lparr>hart := h\<rparr>) = Ok () t \<Longrightarrow>
     lk_step s (go h (PcRelPop l) t)"
| rel_pop: "pcs s h = PcRelPop l \<Longrightarrow> pop_off (s\<lparr>hart := h\<rparr>) = Ok () t \<Longrightarrow>
     lk_step s (go h PcRun t)"
| intr_set: "pcs s h = PcRun \<Longrightarrow> noff (cpus s h) = 0 \<Longrightarrow>
     lk_step s (s\<lparr>hart := h, sie := (sie s)(h := b)\<rparr>)"

definition lk_init :: "lksys \<Rightarrow> bool" where
  "lk_init s \<longleftrightarrow> (\<forall>l. lk_free l s) \<and> (\<forall>h. noff (cpus s h) = 0 \<and> pcs s h = PcRun \<and> crit s h = {})"

inductive lk_reach :: "lksys \<Rightarrow> bool" where
  lk_start: "lk_init s \<Longrightarrow> lk_reach s"
| lk_next: "lk_reach s \<Longrightarrow> lk_step s t \<Longrightarrow> lk_reach t"

text \<open>
  The invariant. A hart owns a lock from the successful test-and-set to the clearing of
  \<^verbatim>\<open>lk->locked\<close>; an owned lock is set and has one owner; \<^verbatim>\<open>lk->cpu\<close> names the owner between the
  write in \<^verbatim>\<open>acquire\<close> and the write in \<^verbatim>\<open>release\<close>; \<^verbatim>\<open>noff\<close> counts the critical sections, plus the one
  being entered or left, and interrupts are off whenever it is not zero.
\<close>

definition owns :: "lksys \<Rightarrow> nat \<Rightarrow> lockid \<Rightarrow> bool" where
  "owns s h l \<longleftrightarrow> l \<in> crit s h \<or> pcs s h \<in> {PcAcqCpu l, PcRelClr l, PcRelSwap l}"

definition owner_inv :: "lksys \<Rightarrow> bool" where
  "owner_inv s \<longleftrightarrow>
     (\<forall>h l. owns s h l \<longrightarrow> lk_locked (locks s l)) \<and>
     (\<forall>h h' l. owns s h l \<longrightarrow> owns s h' l \<longrightarrow> h = h')"

definition cpu_inv :: "lksys \<Rightarrow> bool" where
  "cpu_inv s \<longleftrightarrow>
     (\<forall>h l. lk_cpu (locks s l) = Some h \<longleftrightarrow> l \<in> crit s h \<or> pcs s h = PcRelClr l) \<and>
     (\<forall>h l. l \<in> crit s h \<longrightarrow>
        pcs s h \<notin> {PcAcqSpin l, PcAcqCpu l, PcRelClr l, PcRelSwap l, PcRelPop l})"

definition noff_inv :: "lksys \<Rightarrow> bool" where
  "noff_inv s \<longleftrightarrow>
     (\<forall>h. finite (crit s h) \<and>
          noff (cpus s h) = card (crit s h) + (if pcs s h = PcRun then 0 else 1) \<and>
          (0 < noff (cpus s h) \<longrightarrow> \<not> sie s h))"

lemmas lk_step_defs = go_def push_st_def holding_def test_and_set_def upd_lock_def
  bnd_def reads_def writes_def spin_def

lemma lk_init_inv: "lk_init s \<Longrightarrow> owner_inv s \<and> cpu_inv s \<and> noff_inv s"
  by (auto simp: lk_init_def lk_free_def owner_inv_def cpu_inv_def noff_inv_def owns_def)

lemma pop_off_cases:
  "pop_off s = Ok () t \<Longrightarrow>
     t = s\<lparr>cpus := (cpus s)(hart s := (cpus s (hart s))\<lparr>noff := noff (cpus s (hart s)) - 1\<rparr>),
           sie := (sie s)(hart s := noff (cpus s (hart s)) = 1 \<and> intena (cpus s (hart s)))\<rparr> \<and>
     0 < noff (cpus s (hart s)) \<and> \<not> sie s (hart s)"
  by (auto simp: kdefs split: if_splits)

lemma lk_step_eqs:
  "push_off u = Ok () t \<longleftrightarrow> t = push_st u"
  "holding l u = Ok b t \<longleftrightarrow> t = u \<and> b = (lk_locked (locks u l) \<and> lk_cpu (locks u l) = Some (hart u))"
  "test_and_set l u = Ok () t \<longleftrightarrow>
     \<not> lk_locked (locks u l) \<and> t = u\<lparr>locks := (locks u)(l := (locks u l)\<lparr>lk_locked := True\<rparr>)\<rparr>"
  "upd_lock l f u = Ok () t \<longleftrightarrow> t = u\<lparr>locks := (locks u)(l := f (locks u l))\<rparr>"
  by (auto simp: push_off_step holding_def test_and_set_def upd_lock_def kmonad_defs)

text \<open>A step changes the ownership of at most one lock by one hart.\<close>

definition own_change :: "lksys \<Rightarrow> lksys \<Rightarrow> nat \<Rightarrow> lockid \<Rightarrow> bool" where
  "own_change s t h l \<longleftrightarrow>
     (\<forall>h' l'. h' \<noteq> h \<or> l' \<noteq> l \<longrightarrow> owns t h' l' = owns s h' l') \<and>
     (\<forall>l'. l' \<noteq> l \<longrightarrow> lk_locked (locks t l') = lk_locked (locks s l')) \<and>
     (owns t h l = owns s h l \<and> lk_locked (locks t l) = lk_locked (locks s l) \<or>
      \<not> lk_locked (locks s l) \<and> lk_locked (locks t l) \<or>
      owns s h l \<and> \<not> owns t h l)"

lemma lk_step_own_change:
  assumes "lk_step s t" and "cpu_inv s"
  shows "\<exists>h l. own_change s t h l"
  using assms(1)
proof cases
  case (rel_pop h l t')
  then have "own_change s t h l"
    by (auto dest!: pop_off_cases simp: own_change_def owns_def go_def)
  then show ?thesis by blast
next
  case (acq_push h t' l)
  then have "own_change s t h l"
    by (simp add: lk_step_eqs push_st_def own_change_def owns_def go_def)
  then show ?thesis by blast
next
  case (acq_check h l t')
  then have "own_change s t h l"
    by (simp add: lk_step_eqs own_change_def owns_def go_def)
  then show ?thesis by blast
next
  case (acq_swap h l t')
  then have "own_change s t h l"
    by (simp add: lk_step_eqs own_change_def owns_def go_def)
  then show ?thesis by blast
next
  case (acq_cpu h l t')
  then have "own_change s t h l"
    by (simp add: lk_step_eqs own_change_def owns_def go_def)
  then show ?thesis by blast
next
  case (rel_check h l t')
  then have "own_change s t h l"
    using assms(2) by (simp add: lk_step_eqs own_change_def cpu_inv_def owns_def go_def)
  then show ?thesis by blast
next
  case (rel_clear h l t')
  then have "own_change s t h l"
    by (simp add: lk_step_eqs own_change_def owns_def go_def)
  then show ?thesis by blast
next
  case (rel_swap h l t')
  then have "own_change s t h l"
    using assms(2) by (auto simp: lk_step_eqs own_change_def cpu_inv_def owns_def go_def)
  then show ?thesis by blast
next
  case (intr_set h b)
  then have "own_change s t h LkPr"
    by (simp add: own_change_def owns_def)
  then show ?thesis by blast
qed

lemma own_change_owner_inv:
  assumes "own_change s t h l" and "owner_inv s"
  shows "owner_inv t"
proof -
  have locked: "owns s h' l' \<Longrightarrow> lk_locked (locks s l')"
    and unique: "owns s h' l' \<Longrightarrow> owns s h'' l' \<Longrightarrow> h' = h''" for h' h'' l'
    using assms(2) by (auto simp: owner_inv_def)
  have other: "owns t h' l' = owns s h' l'" if "h' \<noteq> h \<or> l' \<noteq> l" for h' l'
    using assms(1) that by (auto simp: own_change_def)
  have keep: "lk_locked (locks t l') = lk_locked (locks s l')" if "l' \<noteq> l" for l'
    using assms(1) that by (auto simp: own_change_def)
  consider "owns t h l = owns s h l" "lk_locked (locks t l) = lk_locked (locks s l)"
    | "\<not> lk_locked (locks s l)" "lk_locked (locks t l)" | "owns s h l" "\<not> owns t h l"
    using assms(1) by (auto simp: own_change_def)
  then show ?thesis
    unfolding owner_inv_def by cases (metis locked unique other keep)+
qed

lemma lk_step_cpu_inv:
  assumes "lk_step s t" and "owner_inv s" and "cpu_inv s"
  shows "cpu_inv t"
  using assms(1)
proof cases
  case (rel_pop h l t')
  then show ?thesis
    using assms(3) by (auto dest!: pop_off_cases simp: cpu_inv_def go_def)
next
  case (acq_cpu h l t')
  then have "owns s h' l \<Longrightarrow> h' = h" for h'
    using assms(2) unfolding owner_inv_def by (metis insertI1 owns_def)
  then have "l \<notin> crit s h'" "pcs s h' \<noteq> PcRelClr l" for h'
    using assms(3) acq_cpu(2) unfolding cpu_inv_def owns_def
    by (metis insert_iff, metis insert_iff pc.distinct(31))
  with acq_cpu show ?thesis
    using assms(3) by (auto simp: lk_step_eqs cpu_inv_def go_def)
next
  case (acq_check h l t')
  then have "l \<notin> crit s h"
    using assms(2,3) by (auto simp: lk_step_eqs owner_inv_def cpu_inv_def owns_def)
  with acq_check show ?thesis
    using assms(3) by (auto simp: lk_step_eqs cpu_inv_def go_def)
next
  case (rel_clear h l t')
  then have "lk_cpu (locks s l) = Some h"
    using assms(3) by (auto simp: cpu_inv_def)
  then have "l \<in> crit s h' \<or> pcs s h' = PcRelClr l \<Longrightarrow> h' = h" for h'
    using assms(3) unfolding cpu_inv_def by (metis option.inject)
  with rel_clear show ?thesis
    using assms(3) by (auto simp: lk_step_eqs cpu_inv_def go_def)
qed (use assms(3) in \<open>auto simp: lk_step_eqs push_st_def cpu_inv_def go_def\<close>)

lemma crit_card: "noff_inv s \<Longrightarrow> l \<in> crit s h \<Longrightarrow> 0 < card (crit s h)"
  by (auto simp: noff_inv_def card_gt_0_iff)

lemma lk_step_noff_inv:
  assumes "lk_step s t" and "cpu_inv s" and "noff_inv s"
  shows "noff_inv t"
  using assms(1)
proof cases
  case (rel_pop h l t')
  then show ?thesis
    using assms(3) by (auto dest!: pop_off_cases simp: noff_inv_def go_def)
next
  case (acq_cpu h l t')
  then have "l \<notin> crit s h"
    using assms(2) by (auto simp: cpu_inv_def)
  with acq_cpu show ?thesis
    using assms(3) by (auto simp: lk_step_eqs noff_inv_def go_def)
next
  case (rel_check h l t')
  then have "l \<in> crit s h"
    using assms(2) by (auto simp: cpu_inv_def lk_step_eqs)
  moreover from this have "0 < card (crit s h)"
    using assms(3) by (rule crit_card [rotated])
  ultimately show ?thesis
    using assms(3) rel_check by (auto simp: lk_step_eqs noff_inv_def go_def)
qed (use assms(3) in \<open>auto simp: lk_step_eqs push_st_def noff_inv_def go_def\<close>)

lemma lk_reach_inv: "lk_reach s \<Longrightarrow> owner_inv s \<and> cpu_inv s \<and> noff_inv s"
proof (induction rule: lk_reach.induct)
  case (lk_start s)
  then show ?case by (rule lk_init_inv)
next
  case (lk_next s t)
  then show ?case
    using lk_step_own_change own_change_owner_inv lk_step_cpu_inv lk_step_noff_inv by blast
qed

text \<open>
  C9: mutual exclusion. However the harts interleave inside \<^verbatim>\<open>acquire\<close> and \<^verbatim>\<open>release\<close>, at most
  one of them is in the critical section of a lock; while it is, its interrupts are off, \<^verbatim>\<open>noff\<close>
  counts the locks it holds, \<^verbatim>\<open>holding\<close> answers true exactly on that hart, and the \<^verbatim>\<open>release\<close> it will
  call does not panic.
\<close>

theorem spinlock_mutual_exclusion:
  assumes "lk_reach s" and "l \<in> crit s h" and "pcs s h = PcRun"
  shows "(\<forall>h'. l \<in> crit s h' \<longleftrightarrow> h' = h) \<and>
    \<not> sie s h \<and> noff (cpus s h) = card (crit s h) \<and>
    (\<forall>h'. holding l (s\<lparr>hart := h'\<rparr>) = Ok (h' = h) (s\<lparr>hart := h'\<rparr>)) \<and>
    (\<exists>t. release l (s\<lparr>hart := h\<rparr>) = Ok () t)"
proof -
  from lk_reach_inv [OF assms(1)] have own: "owner_inv s" and cpu: "cpu_inv s" and off: "noff_inv s"
    by simp_all
  have only: "l \<in> crit s h' \<longleftrightarrow> h' = h" for h'
    using own assms(2) unfolding owner_inv_def owns_def by blast
  have noff: "noff (cpus s h) = card (crit s h)" "0 < noff (cpus s h)" "\<not> sie s h"
    using off crit_card [OF off assms(2)] assms(3) by (auto simp: noff_inv_def)
  have lock: "lk_locked (locks s l)" "lk_cpu (locks s l) = Some h"
    using own cpu assms(2) by (auto simp: owner_inv_def cpu_inv_def owns_def)
  have hold: "holding l (s\<lparr>hart := h'\<rparr>) = Ok (h' = h) (s\<lparr>hart := h'\<rparr>)" for h'
    using lock by (auto simp: holding_def reads_def)
  have "\<exists>t. release l (s\<lparr>hart := h\<rparr>) = Ok () t"
    using lock noff by (auto simp: kdefs)
  with only noff hold show ?thesis by auto
qed

definition lk_boot :: lksys where
  "lk_boot = kbase.extend boot_kbase \<lparr>pcs = (\<lambda>_. PcRun), crit = (\<lambda>_. {})\<rparr>"

theorem spinlock_mutual_exclusion_witness:
  "\<exists>s. lk_reach s \<and> LkKmem \<in> crit s 0 \<and> pcs s 0 = PcRun \<and> (\<forall>h. LkKmem \<in> crit s h \<longleftrightarrow> h = 0)"
proof -
  define s1 where "s1 = go 0 (PcAcqChk LkKmem) (push_st (lk_boot\<lparr>hart := 0\<rparr>))"
  define s2 where "s2 = go 0 (PcAcqSpin LkKmem) s1"
  define s3 where "s3 = go 0 (PcAcqCpu LkKmem)
    (s2\<lparr>locks := (locks s2)(LkKmem := (locks s2 LkKmem)\<lparr>lk_locked := True\<rparr>)\<rparr>)"
  define t4 where "t4 = s3\<lparr>locks := (locks s3)(LkKmem := (locks s3 LkKmem)\<lparr>lk_cpu := Some 0\<rparr>)\<rparr>"
  define s4 where "s4 = (go 0 PcRun t4)\<lparr>crit := (crit t4)(0 := insert LkKmem (crit t4 0))\<rparr>"
  note sdefs = s1_def s2_def s3_def t4_def s4_def go_def push_st_def lk_boot_def boot_kbase_def
    kbase.defs zero_spinlock_def zero_cpu_def lk_step_eqs
  have "lk_reach lk_boot"
    by (rule lk_start) (simp add: lk_init_def lk_free_def sdefs)
  then have "lk_reach s1"
    unfolding s1_def
    by (rule lk_next, intro lk_step.acq_push [where h = 0 and l = LkKmem]) (simp_all add: sdefs)
  then have "lk_reach s2"
    unfolding s2_def
    by (rule lk_next, intro lk_step.acq_check [where h = 0]) (simp_all add: sdefs)
  then have "lk_reach s3"
    unfolding s3_def
    by (rule lk_next, intro lk_step.acq_swap [where h = 0]) (simp_all add: sdefs)
  then have r4: "lk_reach s4"
    unfolding s4_def
    by (rule lk_next, intro lk_step.acq_cpu [where h = 0]) (simp_all add: sdefs)
  have c4: "LkKmem \<in> crit s4 0" "pcs s4 0 = PcRun"
    by (simp_all add: s4_def go_def)
  from spinlock_mutual_exclusion [OF r4 c4] r4 c4 show ?thesis by blast
qed

end
