(* ===== verification/Sched.thy ===== *)
theory Sched
  imports Spinlock
begin

text \<open>
  The part of \<^verbatim>\<open>kernel/proc.c\<close> every layer of the kernel uses: \<^verbatim>\<open>myproc\<close>, \<^verbatim>\<open>sched\<close>, \<^verbatim>\<open>yield\<close>,
  \<^verbatim>\<open>sleep\<close>, \<^verbatim>\<open>wakeup\<close>, \<^verbatim>\<open>kill\<close>, \<^verbatim>\<open>setkilled\<close> and \<^verbatim>\<open>killed\<close>. A call of \<^verbatim>\<open>swtch\<close> ends the
  execution of the calling thread with outcome \<open>Sleep\<close>; the statements after it are the definitions
  named \<open>_resume\<close>, which run when the scheduler switches back. Their parameters are the locals that
  the code keeps on the kernel stack over the switch: \<^verbatim>\<open>p\<close>, and the \<^verbatim>\<open>intena\<close> that \<^verbatim>\<open>sched\<close> saved.
\<close>

section \<open>Processes\<close>

definition myproc :: "(nat option, 'a kbase_scheme) kmonad" where
  "myproc =
     thn push_off (
     bnd mycpu (\<lambda>c.
     thn pop_off (
     ret (cpu_proc c))))"

text \<open>A use of \<^verbatim>\<open>myproc()\<close> that dereferences the result.\<close>

definition myprocx :: "(nat, 'a kbase_scheme) kmonad" where
  "myprocx = bnd myproc (\<lambda>p. case p of None \<Rightarrow> undef ''null proc'' | Some i \<Rightarrow> ret i)"

definition get_proc :: "nat \<Rightarrow> (proc, 'a kbase_scheme) kmonad" where
  "get_proc p = reads (\<lambda>s. procs s p)"

definition upd_proc :: "nat \<Rightarrow> (proc \<Rightarrow> proc) \<Rightarrow> (unit, 'a kbase_scheme) kmonad" where
  "upd_proc p f = writes (\<lambda>s. s\<lparr>procs := (procs s)(p := f (procs s p))\<rparr>)"

definition swtch :: "(unit, 'a kbase_scheme) kmonad" where
  "swtch = (\<lambda>s. Sleep s)"

definition sched :: "(unit, 'a kbase_scheme) kmonad" where
  "sched =
     bnd myprocx (\<lambda>p.
     bnd (holding (LkProc p)) (\<lambda>h.
     if \<not> h then panic ''sched p->lock'' else
     bnd mycpu (\<lambda>c.
     if noff c \<noteq> 1 then panic ''sched locks'' else
     bnd (get_proc p) (\<lambda>pr.
     if p_state pr = RUNNING then panic ''sched running'' else
     bnd intr_get (\<lambda>on.
     if on then panic ''sched interruptible'' else
     swtch)))))"

definition sched_resume :: "bool \<Rightarrow> (unit, 'a kbase_scheme) kmonad" where
  "sched_resume ena = upd_mycpu (\<lambda>c. c\<lparr>intena := ena\<rparr>)"

definition yield :: "(unit, 'a kbase_scheme) kmonad" where
  "yield =
     bnd myprocx (\<lambda>p.
     thn (acquire (LkProc p)) (
     thn (upd_proc p (\<lambda>pr. pr\<lparr>p_state := RUNNABLE\<rparr>))
         sched))"

definition yield_resume :: "nat \<Rightarrow> bool \<Rightarrow> (unit, 'a kbase_scheme) kmonad" where
  "yield_resume p ena = thn (sched_resume ena) (release (LkProc p))"

definition sleep :: "chan \<Rightarrow> lockid \<Rightarrow> (unit, 'a kbase_scheme) kmonad" where
  "sleep ch lk =
     bnd myprocx (\<lambda>p.
     thn (acquire (LkProc p)) (
     thn (release lk) (
     thn (upd_proc p (\<lambda>pr. pr\<lparr>p_chan := Some ch\<rparr>)) (
     thn (upd_proc p (\<lambda>pr. pr\<lparr>p_state := SLEEPING\<rparr>))
         sched))))"

definition sleep_resume :: "nat \<Rightarrow> bool \<Rightarrow> lockid \<Rightarrow> (unit, 'a kbase_scheme) kmonad" where
  "sleep_resume p ena lk =
     thn (sched_resume ena) (
     thn (upd_proc p (\<lambda>pr. pr\<lparr>p_chan := None\<rparr>)) (
     thn (release (LkProc p))
         (acquire lk)))"

definition wakeup1 :: "chan \<Rightarrow> nat \<Rightarrow> (unit, 'a kbase_scheme) kmonad" where
  "wakeup1 ch p =
     bnd myproc (\<lambda>me.
     mwhen (Some p \<noteq> me) (
       thn (acquire (LkProc p)) (
       bnd (get_proc p) (\<lambda>pr.
       thn (mwhen (p_state pr = SLEEPING \<and> p_chan pr = Some ch)
              (upd_proc p (\<lambda>pr. pr\<lparr>p_state := RUNNABLE\<rparr>)))
           (release (LkProc p))))))"

definition wakeup :: "chan \<Rightarrow> (unit, 'a kbase_scheme) kmonad" where
  "wakeup ch = foreach [0..<NPROC] (wakeup1 ch)"

primrec kill_loop :: "int \<Rightarrow> nat list \<Rightarrow> (int, 'a kbase_scheme) kmonad" where
  "kill_loop pid [] = ret (-1)"
| "kill_loop pid (p # ps) =
     thn (acquire (LkProc p)) (
     bnd (get_proc p) (\<lambda>pr.
     if p_pid pr = pid then
       thn (upd_proc p (\<lambda>pr. pr\<lparr>p_killed := True\<rparr>)) (
       thn (mwhen (p_state pr = SLEEPING) (upd_proc p (\<lambda>pr. pr\<lparr>p_state := RUNNABLE\<rparr>))) (
       thn (release (LkProc p))
           (ret 0)))
     else thn (release (LkProc p)) (kill_loop pid ps)))"

definition kill :: "int \<Rightarrow> (int, 'a kbase_scheme) kmonad" where
  "kill pid = kill_loop pid [0..<NPROC]"

definition setkilled :: "nat \<Rightarrow> (unit, 'a kbase_scheme) kmonad" where
  "setkilled p =
     thn (acquire (LkProc p)) (
     thn (upd_proc p (\<lambda>pr. pr\<lparr>p_killed := True\<rparr>))
         (release (LkProc p)))"

definition killed :: "nat \<Rightarrow> (bool, 'a kbase_scheme) kmonad" where
  "killed p =
     thn (acquire (LkProc p)) (
     bnd (get_proc p) (\<lambda>pr.
     thn (release (LkProc p))
         (ret (p_killed pr))))"

text \<open>
  The body of the scheduler's loop for one process: \<open>scheduler_pick\<close> up to the \<^verbatim>\<open>swtch\<close> into the
  process, \<open>scheduler_return\<close> from the \<^verbatim>\<open>swtch\<close> back to the end of the iteration.
\<close>

definition scheduler_pick :: "nat \<Rightarrow> (unit, 'a kbase_scheme) kmonad" where
  "scheduler_pick p =
     thn (acquire (LkProc p)) (
     bnd (get_proc p) (\<lambda>pr.
     if p_state pr = RUNNABLE then
       thn (upd_proc p (\<lambda>pr. pr\<lparr>p_state := RUNNING\<rparr>)) (
       thn (upd_mycpu (\<lambda>c. c\<lparr>cpu_proc := Some p\<rparr>))
           swtch)
     else release (LkProc p)))"

definition scheduler_return :: "nat \<Rightarrow> (unit, 'a kbase_scheme) kmonad" where
  "scheduler_return p =
     thn (upd_mycpu (\<lambda>c. c\<lparr>cpu_proc := None\<rparr>))
         (release (LkProc p))"

section \<open>Frames: what a critical section leaves alone\<close>

definition curproc :: "'a kbase_scheme \<Rightarrow> nat option" where
  "curproc s = cpu_proc (cpus s (hart s))"

lemma lock_st_base [kframe]:
  "hart (lock_st l s) = hart s"
  "slocks (lock_st l s) = slocks s"
  "procs (lock_st l s) = procs s"
  "initproc (lock_st l s) = initproc s"
  "nextpid (lock_st l s) = nextpid s"
  "curproc (lock_st l s) = curproc s"
  "curproc (push_st s) = curproc s"
  by (simp_all add: lock_st_def push_st_def curproc_def)

lemma lock_st_upd [kframe]:
  "(lock_st l s)\<lparr>slocks := f\<rparr> = lock_st l (s\<lparr>slocks := f\<rparr>)"
  "(lock_st l s)\<lparr>procs := g\<rparr> = lock_st l (s\<lparr>procs := g\<rparr>)"
  "(lock_st l s)\<lparr>initproc := i\<rparr> = lock_st l (s\<lparr>initproc := i\<rparr>)"
  "(lock_st l s)\<lparr>nextpid := n\<rparr> = lock_st l (s\<lparr>nextpid := n\<rparr>)"
  by (simp_all add: lock_st_def push_st_def)

lemma base_ok_upd [kframe]:
  "base_ok (s\<lparr>slocks := f\<rparr>) = base_ok s"
  "base_ok (s\<lparr>procs := g\<rparr>) = base_ok s"
  "base_ok (s\<lparr>initproc := i\<rparr>) = base_ok s"
  "base_ok (s\<lparr>nextpid := n\<rparr>) = base_ok s"
  "base_ok (lock_st l s)"
  by (simp_all add: base_ok_def lock_st_def push_st_def)

lemma lk_free_upd [kframe]:
  "lk_free k (s\<lparr>slocks := f\<rparr>) = lk_free k s"
  "lk_free k (s\<lparr>procs := g\<rparr>) = lk_free k s"
  "lk_free k (s\<lparr>initproc := i\<rparr>) = lk_free k s"
  "lk_free k (s\<lparr>nextpid := n\<rparr>) = lk_free k s"
  "lk_free k (lock_st l s) \<longleftrightarrow> k \<noteq> l \<and> lk_free k s"
  by (simp_all add: lk_free_def lock_st_def push_st_def)

lemma curproc_upd [kframe]:
  "curproc (s\<lparr>slocks := f\<rparr>) = curproc s"
  "curproc (s\<lparr>procs := g\<rparr>) = curproc s"
  "curproc (s\<lparr>initproc := i\<rparr>) = curproc s"
  "curproc (s\<lparr>nextpid := n\<rparr>) = curproc s"
  by (simp_all add: curproc_def)

text \<open>Locks released in an order other than the one they were taken in.\<close>

lemma lock_st_commute: "l \<noteq> k \<Longrightarrow> lock_st l (lock_st k s) = lock_st k (lock_st l s)"
  by (simp add: lock_st_def push_st_def fun_upd_twist)

lemma release_outer [kstep]:
  assumes "l \<noteq> k" and "lk_free l s"
  shows "release l (lock_st k (lock_st l s)) = Ok () (lock_st k s)"
proof -
  have "release l (lock_st l (lock_st k s)) = Ok () (lock_st k s)"
    using assms by (intro release_step) (simp_all add: kframe)
  then show ?thesis
    using lock_st_commute [of k l s] assms(1) by simp
qed

lemma mycpu_step [kstep]: "mycpu s = Ok (cpus s (hart s)) s"
  by (simp add: mycpu_def kstep)

lemma cpu_proc_push_st: "cpu_proc (cpus (push_st s) (hart (push_st s))) = curproc s"
  by (simp add: push_st_def curproc_def)

lemma myproc_step [kstep]: "base_ok s \<Longrightarrow> myproc s = Ok (curproc s) s"
  unfolding myproc_def thn_def
  by (simp add: push_off_step bnd_Ok mycpu_step pop_off_push_st cpu_proc_push_st ret_step)

lemma myprocx_step [kstep]: "base_ok s \<Longrightarrow> curproc s = Some p \<Longrightarrow> myprocx s = Ok p s"
  by (simp add: myprocx_def kstep)

lemma get_proc_step [kstep]: "get_proc p s = Ok (procs s p) s"
  by (simp add: get_proc_def kstep)

lemma upd_proc_step [kstep]:
  "upd_proc p f s = Ok () (s\<lparr>procs := (procs s)(p := f (procs s p))\<rparr>)"
  by (simp add: upd_proc_def kstep)

section \<open>wakeup\<close>

definition woken :: "chan \<Rightarrow> nat option \<Rightarrow> (nat \<Rightarrow> proc) \<Rightarrow> nat set \<Rightarrow> nat \<Rightarrow> proc" where
  "woken ch me ps A = (\<lambda>p.
     if p \<in> A \<and> Some p \<noteq> me \<and> p_state (ps p) = SLEEPING \<and> p_chan (ps p) = Some ch
     then (ps p)\<lparr>p_state := RUNNABLE\<rparr> else ps p)"

definition wake_st :: "chan \<Rightarrow> 'a kbase_scheme \<Rightarrow> 'a kbase_scheme" where
  "wake_st ch s = s\<lparr>procs := woken ch (curproc s) (procs s) {..<NPROC}\<rparr>"

definition procs_free :: "'a kbase_scheme \<Rightarrow> bool" where
  "procs_free s \<longleftrightarrow> (\<forall>p<NPROC. Some p \<noteq> curproc s \<longrightarrow> lk_free (LkProc p) s)"

lemma woken_one:
  "woken ch me ps {p} =
     (if Some p \<noteq> me \<and> p_state (ps p) = SLEEPING \<and> p_chan (ps p) = Some ch
      then ps(p := (ps p)\<lparr>p_state := RUNNABLE\<rparr>) else ps)"
  by (auto simp: woken_def fun_eq_iff)

lemma wakeup1_step:
  assumes "base_ok s" and "Some p \<noteq> curproc s \<Longrightarrow> lk_free (LkProc p) s"
  shows "wakeup1 ch p s = Ok () (s\<lparr>procs := woken ch (curproc s) (procs s) {p}\<rparr>)"
proof (cases "Some p = curproc s")
  case True
  then show ?thesis
    using assms(1) by (simp add: wakeup1_def kstep woken_one)
next
  case False
  then have "lk_free (LkProc p) s" by (rule assms(2))
  with False assms(1) show ?thesis
    by (cases "p_state (procs s p) = SLEEPING \<and> p_chan (procs s p) = Some ch")
      (auto simp: wakeup1_def kstep kframe woken_one)
qed

lemma woken_insert: "woken ch me (woken ch me ps A) B = woken ch me ps (A \<union> B)"
  by (auto simp: woken_def fun_eq_iff)

lemma wakeup_step [kstep]:
  assumes "base_ok s" and "procs_free s"
  shows "wakeup ch s = Ok () (wake_st ch s)"
proof -
  have "foreach [0..<n] (wakeup1 ch) s = Ok () (s\<lparr>procs := woken ch (curproc s) (procs s) {..<n}\<rparr>)"
    if "n \<le> NPROC" for n
    using that
  proof (induction n)
    case 0
    show ?case by (simp add: kstep woken_def)
  next
    case (Suc n)
    let ?t = "s\<lparr>procs := woken ch (curproc s) (procs s) {..<n}\<rparr>"
    have "wakeup1 ch n ?t = Ok () (?t\<lparr>procs := woken ch (curproc ?t) (procs ?t) {n}\<rparr>)"
      using assms Suc.prems by (intro wakeup1_step) (auto simp: kframe procs_free_def)
    moreover have "{..<n} \<union> {n} = {..<Suc n}" by auto
    ultimately show ?case
      using Suc by (simp add: foreach_append kstep woken_insert kframe)
  qed
  from this [of NPROC] show ?thesis
    by (simp add: wakeup_def wake_st_def)
qed

lemma wake_st_base [kframe]:
  "hart (wake_st ch s) = hart s"
  "cpus (wake_st ch s) = cpus s"
  "sie (wake_st ch s) = sie s"
  "locks (wake_st ch s) = locks s"
  "slocks (wake_st ch s) = slocks s"
  "initproc (wake_st ch s) = initproc s"
  "nextpid (wake_st ch s) = nextpid s"
  "curproc (wake_st ch s) = curproc s"
  "base_ok (wake_st ch s) = base_ok s"
  "lk_free k (wake_st ch s) = lk_free k s"
  by (simp_all add: wake_st_def curproc_def base_ok_def lk_free_def)

lemma wake_st_lock_st [kframe]: "wake_st ch (lock_st l s) = lock_st l (wake_st ch s)"
  by (simp add: wake_st_def lock_st_def push_st_def curproc_def)

lemma procs_free_upd [kframe]:
  "procs_free (s\<lparr>slocks := f\<rparr>) = procs_free s"
  "procs_free (s\<lparr>procs := g\<rparr>) = procs_free s"
  "procs_free (wake_st ch s) = procs_free s"
  "(\<And>p. l \<noteq> LkProc p) \<Longrightarrow> procs_free (lock_st l s) = procs_free s"
  by (auto simp: procs_free_def kframe)

section \<open>killed and kill\<close>

lemma killed_step [kstep]:
  "base_ok s \<Longrightarrow> lk_free (LkProc p) s \<Longrightarrow> killed p s = Ok (p_killed (procs s p)) s"
  by (simp add: killed_def kstep kframe)

lemma setkilled_step [kstep]:
  "base_ok s \<Longrightarrow> lk_free (LkProc p) s \<Longrightarrow>
     setkilled p s = Ok () (s\<lparr>procs := (procs s)(p := (procs s p)\<lparr>p_killed := True\<rparr>)\<rparr>)"
  by (simp add: setkilled_def kstep kframe)

definition kill_st :: "nat \<Rightarrow> 'a kbase_scheme \<Rightarrow> 'a kbase_scheme" where
  "kill_st p s = s\<lparr>procs := (procs s)(p := (procs s p)\<lparr>p_killed := True,
     p_state := (if p_state (procs s p) = SLEEPING then RUNNABLE else p_state (procs s p))\<rparr>)\<rparr>"

lemma kill_loop_step:
  assumes "base_ok s" and "\<And>p. p \<in> set ps \<Longrightarrow> lk_free (LkProc p) s"
  shows "kill_loop pid ps s =
    (case List.find (\<lambda>p. p_pid (procs s p) = pid) ps of
       None \<Rightarrow> Ok (-1) s | Some p \<Rightarrow> Ok 0 (kill_st p s))"
  using assms
proof (induction ps)
  case Nil
  show ?case by (simp add: kstep)
next
  case (Cons p ps)
  then have "lk_free (LkProc p) s" by simp
  with Cons.prems(1) have hit: "p_pid (procs s p) = pid \<Longrightarrow> kill_loop pid (p # ps) s = Ok 0 (kill_st p s)"
    by (cases "p_state (procs s p) = SLEEPING") (simp_all add: kstep kframe kill_st_def)
  from Cons.prems(1) \<open>lk_free (LkProc p) s\<close>
  have miss: "p_pid (procs s p) \<noteq> pid \<Longrightarrow> kill_loop pid (p # ps) s = kill_loop pid ps s"
    by (simp add: kstep kframe)
  from hit miss Cons show ?case
    by (simp del: kill_loop.simps)
qed

section \<open>sleep\<close>

lemma holding_step [kstep]:
  "holding l s = Ok (lk_locked (locks s l) \<and> lk_cpu (locks s l) = Some (hart s)) s"
  by (simp add: holding_def kstep)

lemma intr_get_step [kstep]: "intr_get s = Ok (sie s (hart s)) s"
  by (simp add: intr_get_def kstep)

lemma lock_st_held [kframe]:
  "lk_locked (locks (lock_st l s) l)"
  "lk_cpu (locks (lock_st l s) l) = Some (hart s)"
  "\<not> sie (lock_st l s) (hart s)"
  "noff (cpus (lock_st l s) (hart s)) = Suc (noff (cpus s (hart s)))"
  by (simp_all add: lock_st_def push_st_def)

definition sleep_st :: "nat \<Rightarrow> chan \<Rightarrow> 'a kbase_scheme \<Rightarrow> 'a kbase_scheme" where
  "sleep_st p ch s = lock_st (LkProc p)
     (s\<lparr>procs := (procs s)(p := (procs s p)\<lparr>p_chan := Some ch, p_state := SLEEPING\<rparr>)\<rparr>)"

lemma sched_step:
  assumes "base_ok s" and "noff (cpus s (hart s)) = 0" and "curproc s = Some p"
    and "p_state (procs s p) \<noteq> RUNNING"
  shows "sched (lock_st (LkProc p) s) = Sleep (lock_st (LkProc p) s)"
  using assms by (simp add: sched_def kstep kframe swtch_def)

lemma sleep_step [kstep]:
  assumes "base_ok s" and "noff (cpus s (hart s)) = 0" and "curproc s = Some p"
    and "lk_free lk s" and "lk_free (LkProc p) s" and "lk \<noteq> LkProc p"
  shows "sleep ch lk (lock_st lk s) = Sleep (sleep_st p ch s)"
proof -
  let ?t = "s\<lparr>procs := (procs s)(p := (procs s p)\<lparr>p_chan := Some ch, p_state := SLEEPING\<rparr>)\<rparr>"
  have "sched (lock_st (LkProc p) ?t) = Sleep (lock_st (LkProc p) ?t)"
    using assms by (intro sched_step) (simp_all add: kframe)
  with assms show ?thesis
    by (simp add: sleep_def sleep_st_def kstep kframe)
qed

definition set_curproc :: "nat option \<Rightarrow> 'a kbase_scheme \<Rightarrow> 'a kbase_scheme" where
  "set_curproc p s = s\<lparr>cpus := (cpus s)(hart s := (cpus s (hart s))\<lparr>cpu_proc := p\<rparr>)\<rparr>"

lemma set_curproc_base [kframe]:
  "hart (set_curproc p s) = hart s"
  "sie (set_curproc p s) = sie s"
  "locks (set_curproc p s) = locks s"
  "slocks (set_curproc p s) = slocks s"
  "procs (set_curproc p s) = procs s"
  "curproc (set_curproc p s) = p"
  "base_ok (set_curproc p s) = base_ok s"
  "lk_free k (set_curproc p s) = lk_free k s"
  by (simp_all add: set_curproc_def curproc_def base_ok_def lk_free_def)

lemma upd_mycpu_curproc [kstep]:
  "upd_mycpu (\<lambda>c. c\<lparr>cpu_proc := p\<rparr>) s = Ok () (set_curproc p s)"
  by (simp add: upd_mycpu_def kstep set_curproc_def)

lemma set_curproc_lock_st [kframe]: "set_curproc p (lock_st l s) = lock_st l (set_curproc p s)"
  by (auto simp: set_curproc_def lock_st_def push_st_def
      intro!: kbase.equality cpu.equality fun_upd_eqI)

text \<open>
  Coming back from \<^verbatim>\<open>swtch\<close>: \<^verbatim>\<open>sched\<close> restores the thread's own \<^verbatim>\<open>intena\<close> on whatever hart
  it is running now, so the release of \<^verbatim>\<open>p->lock\<close> leaves the interrupts as the thread had them.
\<close>

definition set_ena :: "bool \<Rightarrow> 'a kbase_scheme \<Rightarrow> 'a kbase_scheme" where
  "set_ena b s = s\<lparr>sie := (sie s)(hart s := b), cpus := (cpus s)(hart s := (cpus s (hart s))\<lparr>intena := b\<rparr>)\<rparr>"

lemma set_ena_base [kframe]:
  "hart (set_ena b s) = hart s"
  "locks (set_ena b s) = locks s"
  "slocks (set_ena b s) = slocks s"
  "procs (set_ena b s) = procs s"
  "curproc (set_ena b s) = curproc s"
  "noff (cpus (set_ena b s) h) = noff (cpus s h)"
  "noff (cpus s (hart s)) = 0 \<Longrightarrow> base_ok (set_ena b s)"
  "lk_free k (set_ena b s) = lk_free k s"
  by (simp_all add: set_ena_def curproc_def base_ok_def lk_free_def)

lemma sched_resume_step [kstep]:
  assumes "noff (cpus s (hart s)) = 0"
  shows "sched_resume b (lock_st l s) = Ok () (lock_st l (set_ena b s))"
  using assms
  by (auto simp: sched_resume_def upd_mycpu_def kstep set_ena_def lock_st_def push_st_def
      intro!: kbase.equality cpu.equality fun_upd_eqI)

lemma yield_resume_step:
  assumes "noff (cpus s (hart s)) = 0" and "lk_free (LkProc p) s"
  shows "yield_resume p b (lock_st (LkProc p) s) = Ok () (set_ena b s)"
  using assms by (simp add: yield_resume_def kstep kframe)


text \<open>A process sleeping on hart 0 and a waker on hart 1.\<close>

definition sleeper_st :: kbase where
  "sleeper_st = boot_kbase\<lparr>cpus := (cpus boot_kbase)(0 := zero_cpu\<lparr>cpu_proc := Some 3\<rparr>)\<rparr>"


end
