(* ===== verification/Sleeplock.thy ===== *)
theory Sleeplock
  imports Sched
begin

text \<open>
  \<^verbatim>\<open>kernel/sleeplock.c\<close>. A sleep lock is named by its \<open>slockid\<close>; its fields are in \<open>slocks\<close> and the
  spin lock inside it is \<open>LkSleep\<close> of that name. \<open>acquiresleep_resume\<close> is what a waiter runs when
  the scheduler switches back to it: the rest of \<^verbatim>\<open>sleep\<close> and another turn of the loop. (A turn of
  the loop that finds the lock taken ends in \<^verbatim>\<open>sleep\<close>, which never returns to its caller directly.)
\<close>

definition get_slock :: "slockid \<Rightarrow> (sleeplock, 'a kbase_scheme) kmonad" where
  "get_slock i = reads (\<lambda>s. slocks s i)"

definition upd_slock :: "slockid \<Rightarrow> (sleeplock \<Rightarrow> sleeplock) \<Rightarrow> (unit, 'a kbase_scheme) kmonad" where
  "upd_slock i f = writes (\<lambda>s. s\<lparr>slocks := (slocks s)(i := f (slocks s i))\<rparr>)"

definition initsleeplock :: "slockid \<Rightarrow> string \<Rightarrow> (unit, 'a kbase_scheme) kmonad" where
  "initsleeplock i name =
     thn (initlock (LkSleep i) ''sleep lock'')
         (upd_slock i (\<lambda>_. \<lparr>sl_locked = False, sl_name = name, sl_pid = 0\<rparr>))"

definition acquiresleep_loop :: "slockid \<Rightarrow> (unit, 'a kbase_scheme) kmonad" where
  "acquiresleep_loop i =
     bnd (get_slock i) (\<lambda>k.
     thn (mwhen (sl_locked k) (sleep (ChSleep i) (LkSleep i))) (
     thn (upd_slock i (\<lambda>k. k\<lparr>sl_locked := True\<rparr>)) (
     bnd myprocx (\<lambda>p.
     bnd (get_proc p) (\<lambda>pr.
     thn (upd_slock i (\<lambda>k. k\<lparr>sl_pid := p_pid pr\<rparr>))
         (release (LkSleep i)))))))"

definition acquiresleep :: "slockid \<Rightarrow> (unit, 'a kbase_scheme) kmonad" where
  "acquiresleep i = thn (acquire (LkSleep i)) (acquiresleep_loop i)"

definition acquiresleep_resume ::
    "nat \<Rightarrow> bool \<Rightarrow> slockid \<Rightarrow> (unit, 'a kbase_scheme) kmonad" where
  "acquiresleep_resume p ena i = thn (sleep_resume p ena (LkSleep i)) (acquiresleep_loop i)"

definition releasesleep :: "slockid \<Rightarrow> (unit, 'a kbase_scheme) kmonad" where
  "releasesleep i =
     thn (acquire (LkSleep i)) (
     thn (upd_slock i (\<lambda>k. k\<lparr>sl_locked := False\<rparr>)) (
     thn (upd_slock i (\<lambda>k. k\<lparr>sl_pid := 0\<rparr>)) (
     thn (wakeup (ChSleep i))
         (release (LkSleep i)))))"

definition holdingsleep :: "slockid \<Rightarrow> (bool, 'a kbase_scheme) kmonad" where
  "holdingsleep i =
     thn (acquire (LkSleep i)) (
     bnd (get_slock i) (\<lambda>k.
     bnd myprocx (\<lambda>p.
     bnd (get_proc p) (\<lambda>pr.
     thn (release (LkSleep i))
         (ret (sl_locked k \<and> sl_pid k = p_pid pr))))))"

section \<open>Executing them in a state with no spin lock held\<close>

text \<open>
  \<open>calm s\<close>: a process is running on the hart and no spin lock is held anywhere: the states in
  which system calls start, and in which every operation of the file system leaves the base state.
\<close>

definition calm :: "'a kbase_scheme \<Rightarrow> bool" where
  "calm s \<longleftrightarrow> base_ok s \<and> noff (cpus s (hart s)) = 0 \<and> (\<forall>l. lk_free l s) \<and>
     (\<exists>p<NPROC. curproc s = Some p)"

definition mypid :: "'a kbase_scheme \<Rightarrow> int" where
  "mypid s = p_pid (procs s (the (curproc s)))"

lemma calmD:
  assumes "calm s"
  shows "base_ok s" "noff (cpus s (hart s)) = 0" "lk_free l s" "procs_free s"
    "curproc s = Some (the (curproc s))" "the (curproc s) < NPROC"
  using assms by (auto simp: calm_def procs_free_def)

lemma calm_upd [kframe]:
  "calm (s\<lparr>slocks := f\<rparr>) = calm s"
  "calm (s\<lparr>procs := g\<rparr>) = calm s"
  "calm (s\<lparr>nextpid := n\<rparr>) = calm s"
  "calm (s\<lparr>initproc := i\<rparr>) = calm s"
  "calm (wake_st ch s) = calm s"
  by (simp_all add: calm_def kframe)

lemma mypid_upd [kframe]:
  "mypid (s\<lparr>slocks := f\<rparr>) = mypid s"
  "mypid (wake_st ch s) = mypid s"
  "mypid (lock_st l s) = mypid s"
  by (simp_all add: mypid_def kframe) (simp add: wake_st_def woken_def)

lemma get_slock_step [kstep]: "get_slock i s = Ok (slocks s i) s"
  by (simp add: get_slock_def kstep)

lemma upd_slock_step [kstep]:
  "upd_slock i f s = Ok () (s\<lparr>slocks := (slocks s)(i := f (slocks s i))\<rparr>)"
  by (simp add: upd_slock_def kstep)

lemma calm_myprocx [kstep]: "calm s \<Longrightarrow> myprocx s = Ok (the (curproc s)) s"
  using calmD [of s] by (simp add: kstep)

definition slock_st :: "slockid \<Rightarrow> 'a kbase_scheme \<Rightarrow> 'a kbase_scheme" where
  "slock_st i s = s\<lparr>slocks := (slocks s)(i := (slocks s i)\<lparr>sl_locked := True, sl_pid := mypid s\<rparr>)\<rparr>"

definition sunlock_st :: "slockid \<Rightarrow> 'a kbase_scheme \<Rightarrow> 'a kbase_scheme" where
  "sunlock_st i s = wake_st (ChSleep i)
     (s\<lparr>slocks := (slocks s)(i := (slocks s i)\<lparr>sl_locked := False, sl_pid := 0\<rparr>)\<rparr>)"

lemma acquiresleep_loop_free:
  assumes "base_ok s" and "curproc s = Some p" and "lk_free (LkSleep i) s" and "\<not> sl_locked (slocks s i)"
  shows "acquiresleep_loop i (lock_st (LkSleep i) s) = Ok () (slock_st i s)"
  using assms by (simp add: acquiresleep_loop_def slock_st_def mypid_def kstep kframe)

lemma acquiresleep_free [kstep]:
  assumes "calm s" and "\<not> sl_locked (slocks s i)"
  shows "acquiresleep i s = Ok () (slock_st i s)"
  using calmD [OF assms(1)] assms(2)
  by (simp add: acquiresleep_def acquiresleep_loop_free kstep)

lemma acquiresleep_held [kstep]:
  assumes "calm s" and "sl_locked (slocks s i)"
  shows "acquiresleep i s = Sleep (sleep_st (the (curproc s)) (ChSleep i) s)"
proof -
  note c = calmD [OF assms(1)]
  have "sleep (ChSleep i) (LkSleep i) (lock_st (LkSleep i) s) =
      Sleep (sleep_st (the (curproc s)) (ChSleep i) s)"
    using c by (intro sleep_step) simp_all
  then show ?thesis
    using c assms(2) by (simp add: acquiresleep_def acquiresleep_loop_def kstep kframe)
qed

lemma releasesleep_step [kstep]:
  assumes "calm s"
  shows "releasesleep i s = Ok () (sunlock_st i s)"
  using calmD [OF assms] by (simp add: releasesleep_def sunlock_st_def kstep kframe)

lemma holdingsleep_step [kstep]:
  assumes "calm s"
  shows "holdingsleep i s = Ok (sl_locked (slocks s i) \<and> sl_pid (slocks s i) = mypid s) s"
proof -
  obtain p where "curproc s = Some p" using calmD(5) [OF assms] by blast
  then show ?thesis
    using calmD [OF assms] by (simp add: holdingsleep_def mypid_def kstep kframe)
qed

lemma slock_st_base [kframe]:
  "calm (slock_st i s) = calm s" "mypid (slock_st i s) = mypid s"
  "slocks (slock_st i s) i = (slocks s i)\<lparr>sl_locked := True, sl_pid := mypid s\<rparr>"
  "j \<noteq> i \<Longrightarrow> slocks (slock_st i s) j = slocks s j"
  by (simp_all add: slock_st_def kframe)

lemma sunlock_st_base [kframe]:
  "calm (sunlock_st i s) = calm s" "mypid (sunlock_st i s) = mypid s"
  "slocks (sunlock_st i s) i = (slocks s i)\<lparr>sl_locked := False, sl_pid := 0\<rparr>"
  "j \<noteq> i \<Longrightarrow> slocks (sunlock_st i s) j = slocks s j"
  by (simp_all add: sunlock_st_def kframe)

section \<open>Handing a sleep lock over\<close>

lemma lk_free_hart [kframe]: "lk_free l (s\<lparr>hart := h\<rparr>) = lk_free l s"
  by (simp add: lk_free_def)

lemma sleep_resume_step:
  assumes "noff (cpus s (hart s)) = 0" and "lk_free (LkProc p) s" and "lk_free lk s"
  shows "sleep_resume p ena lk (lock_st (LkProc p) s) =
    Ok () (lock_st lk ((set_ena ena s)\<lparr>procs := (procs s)(p := (procs s p)\<lparr>p_chan := None\<rparr>)\<rparr>))"
  using assms by (simp add: sleep_resume_def kstep kframe)

text \<open>
  C16: when the holder of a sleep lock releases it, a process sleeping on it becomes runnable; when
  another hart's scheduler picks that process, it leaves \<^verbatim>\<open>acquiresleep\<close> holding the lock under its
  own pid, off its wait channel, with every spin lock released again and with the interrupts of
  that hart enabled exactly if they were when the process went to sleep.
\<close>

theorem sleeplock_handoff:
  assumes "calm s" and "sl_locked (slocks s i)"
    and "q < NPROC" and "curproc s \<noteq> Some q"
    and "p_state (procs s q) = SLEEPING" and "p_chan (procs s q) = Some (ChSleep i)"
    and "noff (cpus s h) = 0"
  shows "\<exists>t u v. releasesleep i s = Ok () t \<and> \<not> sl_locked (slocks t i) \<and>
      scheduler_pick q (t\<lparr>hart := h\<rparr>) = Sleep u \<and>
      acquiresleep_resume q ena i u = Ok () v \<and> sie v h = ena \<and>
      sl_locked (slocks v i) \<and> sl_pid (slocks v i) = p_pid (procs s q) \<and>
      p_state (procs v q) = RUNNING \<and> p_chan (procs v q) = None \<and> (\<forall>l. lk_free l v)"
proof -
  note c = calmD [OF assms(1)]
  let ?t = "sunlock_st i s"
  have t: "releasesleep i s = Ok () ?t" "\<not> sl_locked (slocks ?t i)"
    using assms(1) by (simp_all add: kstep kframe)
  have q: "procs ?t q = (procs s q)\<lparr>p_state := RUNNABLE\<rparr>"
    using assms(3-6) by (simp add: sunlock_st_def wake_st_def woken_def kframe)
  let ?w = "set_curproc (Some q)
    (?t\<lparr>hart := h, procs := (procs ?t)(q := (procs ?t q)\<lparr>p_state := RUNNING\<rparr>)\<rparr>)"
  have free: "lk_free l ?t" for l
    using c by (simp add: sunlock_st_def kframe)
  have u: "scheduler_pick q (?t\<lparr>hart := h\<rparr>) = Sleep (lock_st (LkProc q) ?w)"
    using free q by (simp add: scheduler_pick_def kstep kframe swtch_def)
  have w: "noff (cpus ?w (hart ?w)) = 0" "curproc ?w = Some q" "lk_free l ?w" "hart ?w = h" for l
    using assms(7) free by (simp_all add: kframe)
      (simp add: set_curproc_def sunlock_st_def wake_st_def)
  let ?x = "(set_ena ena ?w)\<lparr>procs := (procs ?w)(q := (procs ?w q)\<lparr>p_chan := None\<rparr>)\<rparr>"
  have x: "base_ok ?x" "curproc ?x = Some q" "lk_free l ?x" "\<not> sl_locked (slocks ?x i)" for l
    using w t(2) by (simp_all add: kframe)
  have v: "acquiresleep_resume q ena i (lock_st (LkProc q) ?w) = Ok () (slock_st i ?x)"
    using sleep_resume_step [OF w(1) w(3) w(3), where lk = "LkSleep i" and ena = ena]
      acquiresleep_loop_free [OF x(1,2) x(3) x(4)]
    by (simp only: acquiresleep_resume_def thn_def bnd_def outcome.case)
  have "sl_locked (slocks (slock_st i ?x) i)" "sl_pid (slocks (slock_st i ?x) i) = p_pid (procs s q)"
    "p_state (procs (slock_st i ?x) q) = RUNNING" "p_chan (procs (slock_st i ?x) q) = None"
    "lk_free l (slock_st i ?x)" for l
    using q x(3) by (simp_all add: slock_st_def mypid_def kframe)
  moreover have "sie (slock_st i ?x) h = ena"
    using w(4) by (simp add: slock_st_def set_ena_def)
  ultimately show ?thesis using t u v by blast
qed

text \<open>Process 3 holds the lock of buffer 0 on hart 0, process 5 waits for it.\<close>

definition handoff_st :: kbase where
  "handoff_st = sleeper_st\<lparr>
     slocks := (slocks sleeper_st)(SlBuf 0 := \<lparr>sl_locked = True, sl_name = ''buffer'', sl_pid = 7\<rparr>),
     procs := (procs sleeper_st)(
       3 := zero_proc\<lparr>p_state := RUNNING, p_pid := 7\<rparr>,
       5 := zero_proc\<lparr>p_state := SLEEPING, p_chan := Some (ChSleep (SlBuf 0)), p_pid := 9\<rparr>)\<rparr>"

theorem sleeplock_handoff_witness:
  "\<exists>t u v. releasesleep (SlBuf 0) handoff_st = Ok () t \<and>
     scheduler_pick 5 (t\<lparr>hart := 1\<rparr>) = Sleep u \<and>
     acquiresleep_resume 5 True (SlBuf 0) u = Ok () v \<and> sl_pid (slocks v (SlBuf 0)) = 9"
proof -
  note defs = handoff_st_def sleeper_st_def boot_kbase_def zero_cpu_def zero_spinlock_def
    zero_proc_def base_ok_def lk_free_def curproc_def NPROC_def calm_def
  have "calm handoff_st" "sl_locked (slocks handoff_st (SlBuf 0))"
    "5 < NPROC" "curproc handoff_st \<noteq> Some 5"
    "p_state (procs handoff_st 5) = SLEEPING" "p_chan (procs handoff_st 5) = Some (ChSleep (SlBuf 0))"
    "noff (cpus handoff_st 1) = 0"
    by (simp_all add: defs)
  from sleeplock_handoff [OF this, where ena = True] have
    "\<exists>t u v. releasesleep (SlBuf 0) handoff_st = Ok () t \<and>
     scheduler_pick 5 (t\<lparr>hart := 1\<rparr>) = Sleep u \<and>
     acquiresleep_resume 5 True (SlBuf 0) u = Ok () v \<and>
     sl_pid (slocks v (SlBuf 0)) = p_pid (procs handoff_st 5)"
    by blast
  then show ?thesis by (simp add: handoff_st_def zero_proc_def)
qed

end
