(* ===== verification/CString.thy ===== *)
theory CString
  imports Prelude
begin

text \<open>
  \<^verbatim>\<open>kernel/string.c\<close>. Memory is a map from 64-bit addresses to bytes; the functions that write take
  and return it, and the functions that only read take their pointers as the bytes found at
  increasing offsets, so that they apply to memory and to arrays held elsewhere alike. The lemmas give
  the effect of each writing loop in closed form.
\<close>

type_synonym mem = "uint64 \<Rightarrow> uchar"

abbreviation at :: "mem \<Rightarrow> uint64 \<Rightarrow> nat \<Rightarrow> uchar" where
  "at m a \<equiv> (\<lambda>i. m (a + of_nat i))"

section \<open>memset, memcmp, memmove\<close>

primrec memset_loop :: "mem \<Rightarrow> uint64 \<Rightarrow> uchar \<Rightarrow> nat \<Rightarrow> nat \<Rightarrow> mem" where
  "memset_loop m dst c i 0 = m"
| "memset_loop m dst c i (Suc k) = memset_loop (m(dst + of_nat i := c)) dst c (Suc i) k"

definition memset :: "mem \<Rightarrow> uint64 \<Rightarrow> uchar \<Rightarrow> nat \<Rightarrow> mem" where
  "memset m dst c n = memset_loop m dst c 0 n"

primrec memcmp :: "(nat \<Rightarrow> uchar) \<Rightarrow> (nat \<Rightarrow> uchar) \<Rightarrow> nat \<Rightarrow> int" where
  "memcmp s1 s2 0 = 0"
| "memcmp s1 s2 (Suc n) =
     (if s1 0 \<noteq> s2 0 then uint (s1 0) - uint (s2 0)
      else memcmp (\<lambda>i. s1 (Suc i)) (\<lambda>i. s2 (Suc i)) n)"

primrec copy_up :: "mem \<Rightarrow> uint64 \<Rightarrow> uint64 \<Rightarrow> nat \<Rightarrow> mem" where
  "copy_up m d s 0 = m"
| "copy_up m d s (Suc n) = copy_up (m(d := m s)) (d + 1) (s + 1) n"

primrec copy_down :: "mem \<Rightarrow> uint64 \<Rightarrow> uint64 \<Rightarrow> nat \<Rightarrow> mem" where
  "copy_down m d s 0 = m"
| "copy_down m d s (Suc n) = copy_down (m(d - 1 := m (s - 1))) (d - 1) (s - 1) n"

definition memmove :: "mem \<Rightarrow> uint64 \<Rightarrow> uint64 \<Rightarrow> nat \<Rightarrow> mem" where
  "memmove m dst src n =
     (if n = 0 then m
      else if src < dst \<and> src + of_nat n > dst
      then copy_down m (dst + of_nat n) (src + of_nat n) n
      else copy_up m dst src n)"

definition memcpy :: "mem \<Rightarrow> uint64 \<Rightarrow> uint64 \<Rightarrow> nat \<Rightarrow> mem" where
  "memcpy m dst src n = memmove m dst src n"

section \<open>Strings\<close>

primrec strncmp :: "(nat \<Rightarrow> uchar) \<Rightarrow> (nat \<Rightarrow> uchar) \<Rightarrow> nat \<Rightarrow> int" where
  "strncmp p q 0 = 0"
| "strncmp p q (Suc n) =
     (if p 0 \<noteq> 0 \<and> p 0 = q 0 then strncmp (\<lambda>i. p (Suc i)) (\<lambda>i. q (Suc i)) n
      else uint (p 0) - uint (q 0))"

primrec zero_fill :: "mem \<Rightarrow> uint64 \<Rightarrow> nat \<Rightarrow> mem" where
  "zero_fill m s 0 = m"
| "zero_fill m s (Suc n) = zero_fill (m(s := 0)) (s + 1) n"

primrec strncpy_loop :: "mem \<Rightarrow> uint64 \<Rightarrow> uint64 \<Rightarrow> nat \<Rightarrow> mem" where
  "strncpy_loop m s t 0 = m"
| "strncpy_loop m s t (Suc n) =
     (if m t \<noteq> 0 then strncpy_loop (m(s := m t)) (s + 1) (t + 1) n
      else zero_fill (m(s := m t)) (s + 1) n)"

definition strncpy :: "mem \<Rightarrow> uint64 \<Rightarrow> uint64 \<Rightarrow> int \<Rightarrow> mem" where
  "strncpy m s t n = strncpy_loop m s t (nat n)"

primrec safestrcpy_loop :: "mem \<Rightarrow> uint64 \<Rightarrow> uint64 \<Rightarrow> nat \<Rightarrow> mem" where
  "safestrcpy_loop m s t 0 = m(s := 0)"
| "safestrcpy_loop m s t (Suc n) =
     (if m t \<noteq> 0 then safestrcpy_loop (m(s := m t)) (s + 1) (t + 1) n
      else (m(s := m t))(s + 1 := 0))"

definition safestrcpy :: "mem \<Rightarrow> uint64 \<Rightarrow> uint64 \<Rightarrow> int \<Rightarrow> mem" where
  "safestrcpy m s t n = (if n \<le> 0 then m else safestrcpy_loop m s t (nat (n - 1)))"

partial_function (option) strlen_loop :: "(nat \<Rightarrow> uchar) \<Rightarrow> nat \<Rightarrow> nat option" where
  "strlen_loop s n = (if s n \<noteq> 0 then strlen_loop s (n + 1) else Some n)"

definition strlen :: "(nat \<Rightarrow> uchar) \<Rightarrow> nat option" where
  "strlen s = strlen_loop s 0"

section \<open>Address arithmetic\<close>

lemma unat_diff_shift:
  fixes a d :: uint64
  assumes "a \<noteq> d"
  shows "unat (a - d) = Suc (unat (a - (d + 1)))"
proof -
  have "a - d \<noteq> 0" using assms by simp
  then have "unat (a - d - 1) = unat (a - d) - 1"
    by (simp add: unat_minus_one)
  moreover have "0 < unat (a - d)" using \<open>a - d \<noteq> 0\<close> by (simp add: unat_gt_0)
  ultimately show ?thesis by (simp add: diff_diff_eq)
qed

lemma memset_loop_eq:
  assumes "i + k \<le> 2 ^ 64"
  shows "memset_loop m dst c i k =
    (\<lambda>a. if i \<le> unat (a - dst) \<and> unat (a - dst) < i + k then c else m a)"
  using assms
proof (induction k arbitrary: m i)
  case 0
  then show ?case by (auto simp: fun_eq_iff)
next
  case (Suc k)
  have "a = dst + of_nat i \<longleftrightarrow> a - dst = of_nat i" for a
    by (auto simp: algebra_simps)
  moreover have "a - dst = of_nat i \<longleftrightarrow> unat (a - dst) = i" for a
    using Suc.prems by (intro eq_of_nat_iff) simp
  ultimately have "a = dst + of_nat i \<longleftrightarrow> unat (a - dst) = i" for a
    by simp
  with Suc show ?case by (auto simp: fun_eq_iff)
qed

lemma memset_eq:
  "n \<le> 2 ^ 64 \<Longrightarrow> memset m dst c n = (\<lambda>a. if unat (a - dst) < n then c else m a)"
  by (simp add: memset_def memset_loop_eq)

section \<open>memmove\<close>

text \<open>The bytes a copy is meant to leave: the old source bytes at the destination, the rest as it was.\<close>

definition copied :: "mem \<Rightarrow> uint64 \<Rightarrow> uint64 \<Rightarrow> nat \<Rightarrow> mem" where
  "copied m d s n = (\<lambda>a. if unat (a - d) < n then m (s + (a - d)) else m a)"

lemma copied_0 [simp]: "copied m d s 0 = m"
  by (simp add: copied_def)

lemma in_tail:
  fixes a d :: uint64
  assumes "n < 2 ^ 64"
  shows "unat (a - (d + 1)) < n \<longleftrightarrow> a \<noteq> d \<and> unat (a - d) < Suc n"
proof (cases "a = d")
  case True
  with assms show ?thesis by (simp add: unsigned_minus_1_eq_mask mask_eq_exp_minus_1)
next
  case False
  then show ?thesis by (simp add: unat_diff_shift)
qed

lemma copy_up_eq:
  assumes "n \<le> 2 ^ 64 - 1" and "d = s \<or> n \<le> unat (d - s)"
  shows "copy_up m d s n = copied m d s n"
  using assms
proof (induction n arbitrary: m d s)
  case 0
  then show ?case by (simp add: copied_def)
next
  case (Suc n)
  let ?m = "m(d := m s)"
  have IH: "copy_up ?m (d + 1) (s + 1) n = copied ?m (d + 1) (s + 1) n"
    using Suc.prems by (intro Suc.IH) auto
  have "copied ?m (d + 1) (s + 1) n a = copied m d s (Suc n) a" for a
  proof (cases "a = d")
    case True
    then have "unat (a - (d + 1)) = 2 ^ 64 - 1"
      by (simp add: unsigned_minus_1_eq_mask mask_eq_exp_minus_1)
    with True Suc.prems(1) show ?thesis by (simp add: copied_def)
  next
    case False
    have eq: "unat (a - d) = Suc (unat (a - (d + 1)))"
      by (rule unat_diff_shift [OF False])
    have src: "s + 1 + (a - (d + 1)) = s + (a - d)" by (simp add: algebra_simps)
    have "s + (a - d) \<noteq> d" if "unat (a - d) < Suc n"
    proof
      assume "s + (a - d) = d"
      then have "a - d = d - s" by (simp add: algebra_simps)
      with that Suc.prems(2) False show False by auto
    qed
    with False eq show ?thesis unfolding copied_def src by (simp del: fun_upd_apply add: fun_upd_def)
  qed
  with IH show ?case by (simp add: fun_eq_iff)
qed

lemma copy_down_eq:
  assumes "n \<le> 2 ^ 64 - 1" and "d = s \<or> n \<le> unat (s - d)"
  shows "copy_down m (d + of_nat n) (s + of_nat n) n = copied m d s n"
  using assms
proof (induction n arbitrary: m)
  case 0
  then show ?case by (simp add: copied_def)
next
  case (Suc n)
  let ?m = "m(d + of_nat n := m (s + of_nat n))"
  have IH: "copy_down ?m (d + of_nat n) (s + of_nat n) n = copied ?m d s n"
    using Suc.prems by (intro Suc.IH) auto
  have "copied ?m d s n a = copied m d s (Suc n) a" for a
  proof (cases "unat (a - d) < n")
    case True
    have "s + (a - d) \<noteq> d + of_nat n"
    proof
      assume "s + (a - d) = d + of_nat n"
      then have "s - d = of_nat n - (a - d)" by (simp add: algebra_simps)
      moreover have "of_nat n - (a - d) = of_nat (n - unat (a - d))"
        using True by (simp add: of_nat_diff)
      ultimately have "unat (s - d) = n - unat (a - d)"
        using Suc.prems(1) by (simp add: unat_of_nat_small)
      with True Suc.prems(2) show False by auto
    qed
    with True show ?thesis by (auto simp: copied_def)
  next
    case False
    have "a = d + of_nat n \<longleftrightarrow> a - d = of_nat n"
      by (auto simp: algebra_simps)
    moreover have "a - d = of_nat n \<longleftrightarrow> unat (a - d) = n"
      using Suc.prems(1) by (intro eq_of_nat_iff) simp
    ultimately show ?thesis
      using False by (cases "a = d + of_nat n") (simp_all add: copied_def)
  qed
  with IH show ?case by (simp add: fun_eq_iff algebra_simps)
qed

lemma unat_diff_swap:
  fixes a b :: uint64
  assumes "a < b"
  shows "unat (b - a) = unat b - unat a" and "unat (a - b) = 2 ^ 64 - (unat b - unat a)"
proof -
  have ab: "unat a < unat b" using assms by (simp add: word_less_nat_alt)
  show "unat (b - a) = unat b - unat a"
    using assms by (simp add: unat_sub order_less_imp_le)
  show "unat (a - b) = 2 ^ 64 - (unat b - unat a)"
    using ab unat_lt2p [of b]
    by (simp add: unat_sub_if_size word_size word_le_nat_alt)
qed

lemma memmove_copied:
  assumes "unat src + n < 2 ^ 64" and "unat dst + n < 2 ^ 64"
  shows "memmove m dst src n = copied m dst src n"
proof -
  have n: "n \<le> 2 ^ 64 - 1" using assms(1) by simp
  have sum: "unat (src + of_nat n) = unat src + n"
    using assms(1) by (simp add: unat_plus_if' unat_of_nat_small)
  show ?thesis
  proof (cases "src < dst \<and> src + of_nat n > dst")
    case True
    then have "n \<le> unat (src - dst)"
      using unat_diff_swap(2) [of src dst] assms(2) by (simp add: word_less_nat_alt)
    with True n show ?thesis
      by (simp add: memmove_def copy_down_eq)
  next
    case False
    have "dst = src \<or> n \<le> unat (dst - src)"
    proof (cases "src < dst")
      case True
      with False sum have "unat src + n \<le> unat dst" by (simp add: word_less_nat_alt)
      then have "n \<le> unat dst - unat src" by linarith
      with True show ?thesis by (simp add: unat_diff_swap(1))
    next
      case ge: False
      then consider "dst = src" | "dst < src" by fastforce
      then show ?thesis
      proof cases
        case 2
        then have "n \<le> unat (dst - src)"
          using unat_diff_swap(2) [of dst src] assms(1) by (simp add: word_less_nat_alt)
        then show ?thesis ..
      qed simp
    qed
    with False n show ?thesis
      by (auto simp: memmove_def copy_up_eq)
  qed
qed

text \<open>
  C17: \<^verbatim>\<open>memmove\<close> copies correctly whether or not the two regions overlap: afterwards the destination
  holds the bytes the source held before the call, and every other byte is unchanged.
\<close>

theorem memmove_correct:
  assumes "unat src + n < 2 ^ 64" and "unat dst + n < 2 ^ 64"
  shows "memmove m dst src n a =
    (if unat (a - dst) < n then m (src + (a - dst)) else m a)"
  using memmove_copied [OF assms, of m] by (simp add: copied_def)

theorem memmove_correct_witness:
  "memmove (\<lambda>a. ucast a) 102 100 4 104 = 102 \<and> memmove (\<lambda>a. ucast a) 100 102 4 101 = 103"
  using memmove_correct [of 100 4 102 "\<lambda>a. ucast a" 104]
    memmove_correct [of 102 4 100 "\<lambda>a. ucast a" 101]
  by simp

section \<open>Bounded strings\<close>

text \<open>The string a bounded reader sees: the bytes before the first NUL, at most \<open>n\<close> of them.\<close>

primrec bstr :: "(nat \<Rightarrow> uchar) \<Rightarrow> nat \<Rightarrow> uchar list" where
  "bstr p 0 = []"
| "bstr p (Suc n) = (if p 0 = 0 then [] else p 0 # bstr (\<lambda>i. p (Suc i)) n)"

lemma strncmp_eq_0: "strncmp p q n = 0 \<longleftrightarrow> bstr p n = bstr q n"
proof (induction n arbitrary: p q)
  case (Suc n)
  have "uint (p 0) = uint (q 0) \<longleftrightarrow> p 0 = q 0" by (simp add: word_uint_eq_iff)
  with Suc show ?case by (auto simp: word_uint_eq_iff)
qed simp

lemma bstr_cong: "(\<And>i. i < n \<Longrightarrow> p i = q i) \<Longrightarrow> bstr p n = bstr q n"
proof (induction n arbitrary: p q)
  case (Suc n)
  have "bstr (\<lambda>i. p (Suc i)) n = bstr (\<lambda>i. q (Suc i)) n"
    using Suc.prems by (intro Suc.IH) simp
  then show ?case using Suc.prems [of 0] by simp
qed simp

text \<open>What \<^verbatim>\<open>strncpy\<close> writes: the bounded string of the source, padded with NULs to \<open>n\<close> bytes.\<close>

definition padded :: "(nat \<Rightarrow> uchar) \<Rightarrow> nat \<Rightarrow> uchar list" where
  "padded p n = bstr p n @ replicate (n - length (bstr p n)) 0"

lemma length_bstr: "length (bstr p n) \<le> n"
  by (induction n arbitrary: p) auto

lemma length_padded [simp]: "length (padded p n) = n"
  using length_bstr [of p n] by (simp add: padded_def)

lemma padded_Suc:
  "padded p (Suc n) = (if p 0 = 0 then replicate (Suc n) 0 else p 0 # padded (\<lambda>i. p (Suc i)) n)"
  by (simp add: padded_def)

lemma padded_nth_bstr: "bstr (\<lambda>i. padded p n ! i) n = bstr p n"
proof (induction n arbitrary: p)
  case (Suc n)
  have "bstr (\<lambda>i. padded p (Suc n) ! Suc i) n = bstr (\<lambda>i. p (Suc i)) n" if "p 0 \<noteq> 0"
    using that Suc.IH [of "\<lambda>i. p (Suc i)"] by (simp add: padded_Suc)
  then show ?case by (cases "p 0 = 0") (auto simp: padded_Suc)
qed simp

lemma padded_cong: "(\<And>i. i < n \<Longrightarrow> p i = q i) \<Longrightarrow> padded p n = padded q n"
  using bstr_cong [of n p q] by (simp add: padded_def)

lemma zero_fill_eq:
  "n < 2 ^ 64 \<Longrightarrow> zero_fill m s n = (\<lambda>a. if unat (a - s) < n then 0 else m a)"
proof (induction n arbitrary: m s)
  case (Suc n)
  then show ?case by (auto simp: fun_eq_iff in_tail)
qed simp

text \<open>The source of a string copy lies outside the bytes it writes.\<close>

definition apart :: "uint64 \<Rightarrow> uint64 \<Rightarrow> nat \<Rightarrow> bool" where
  "apart s t n \<longleftrightarrow> n \<le> unat (s - t) \<and> n \<le> unat (t - s) \<and> n < 2 ^ 64"

lemma apart_Suc: "apart s t (Suc n) \<Longrightarrow> apart (s + 1) (t + 1) n"
  by (simp add: apart_def)

lemma apart_read:
  assumes "apart s t (Suc n)" and "i \<le> n"
  shows "t + of_nat i \<noteq> s"
proof
  assume "t + of_nat i = s"
  then have "unat (s - t) = i"
    using assms by (auto simp: apart_def unat_of_nat_small)
  with assms show False by (simp add: apart_def)
qed

lemma at_shift: "at m (t + 1) i = at m t (Suc i)"
  by (simp add: add.assoc)

lemma at_upd_apart:
  assumes "apart s t (Suc n)" and "i < n"
  shows "at (m(s := v)) (t + 1) i = at m t (Suc i)"
  using apart_read [OF assms(1), of "Suc i"] assms(2) by (simp add: algebra_simps)

lemma strncpy_loop_eq:
  assumes "apart s t n"
  shows "strncpy_loop m s t n = (\<lambda>a. if unat (a - s) < n then padded (at m t) n ! unat (a - s) else m a)"
  using assms
proof (induction n arbitrary: m s t)
  case 0
  then show ?case by simp
next
  case (Suc n)
  let ?m = "m(s := m t)"
  have n: "n < 2 ^ 64" using Suc.prems by (simp add: apart_def)
  have pad: "padded (at ?m (t + 1)) n = padded (\<lambda>i. at m t (Suc i)) n"
    by (rule padded_cong) (rule at_upd_apart [OF Suc.prems])
  show ?case
  proof (cases "m t = 0")
    case True
    then show ?thesis
      by (auto simp: fun_eq_iff zero_fill_eq [OF n] in_tail [OF n] padded_Suc nth_Cons split: nat.splits)
  next
    case False
    have "strncpy_loop m s t (Suc n) = strncpy_loop ?m (s + 1) (t + 1) n"
      using False by simp
    also have "\<dots> = (\<lambda>a. if unat (a - (s + 1)) < n
        then padded (at ?m (t + 1)) n ! unat (a - (s + 1)) else ?m a)"
      by (rule Suc.IH [OF apart_Suc [OF Suc.prems]])
    also have "\<dots> = (\<lambda>a. if unat (a - s) < Suc n then padded (at m t) (Suc n) ! unat (a - s) else m a)"
    proof
      fix a
      show "(if unat (a - (s + 1)) < n then padded (at ?m (t + 1)) n ! unat (a - (s + 1)) else ?m a) =
        (if unat (a - s) < Suc n then padded (at m t) (Suc n) ! unat (a - s) else m a)"
        using False unfolding pad in_tail [OF n]
        by (cases "a = s") (simp_all add: padded_Suc unat_diff_shift [of a s])
    qed
    finally show ?thesis .
  qed
qed

text \<open>
  C18: \<^verbatim>\<open>strncpy\<close> followed by \<^verbatim>\<open>strncmp\<close> is a round trip, which is what file names in directory entries
  rely on: the copy compares equal to the original under the same bound, it is padded with NULs to
  exactly \<open>n\<close> bytes, and no byte outside those \<open>n\<close> changes.
\<close>

theorem strncpy_strncmp_roundtrip:
  assumes "apart s t n"
  shows "strncmp (at (strncpy m s t (int n)) s) (at m t) n = 0 \<and>
    map (at (strncpy m s t (int n)) s) [0..<n] = padded (at m t) n \<and>
    (\<forall>a. n \<le> unat (a - s) \<longrightarrow> strncpy m s t (int n) a = m a)"
proof -
  have eq: "strncpy m s t (int n) =
      (\<lambda>a. if unat (a - s) < n then padded (at m t) n ! unat (a - s) else m a)"
    using strncpy_loop_eq [OF assms] by (simp add: strncpy_def)
  have byte: "at (strncpy m s t (int n)) s i = padded (at m t) n ! i" if "i < n" for i
    using that assms by (simp add: eq unat_of_nat_small apart_def)
  have "bstr (at (strncpy m s t (int n)) s) n = bstr (\<lambda>i. padded (at m t) n ! i) n"
    by (rule bstr_cong) (rule byte)
  then have "strncmp (at (strncpy m s t (int n)) s) (at m t) n = 0"
    by (simp add: strncmp_eq_0 padded_nth_bstr)
  moreover have "map (at (strncpy m s t (int n)) s) [0..<n] = padded (at m t) n"
    using byte by (intro nth_equalityI) simp_all
  ultimately show ?thesis by (simp add: eq)
qed

theorem strncpy_strncmp_roundtrip_witness:
  "strncmp (at (strncpy (\<lambda>a. if a < 103 then 97 else 0) 200 100 14) 200)
     (at (\<lambda>a. if a < 103 then 97 else 0) 100) 14 = 0"
  using strncpy_strncmp_roundtrip [of 200 100 14 "\<lambda>a. if a < 103 then 97 else 0"]
  by (simp add: apart_def)

lemma strlen_first_nul:
  assumes "p n = 0" and "\<And>i. i < n \<Longrightarrow> p i \<noteq> 0"
  shows "strlen p = Some n"
proof -
  have "strlen_loop p k = Some n" if "k \<le> n" for k
    using that
  proof (induction "n - k" arbitrary: k)
    case 0
    with assms(1) show ?case by (simp add: strlen_loop.simps)
  next
    case (Suc x)
    then have "p k \<noteq> 0" "strlen_loop p (k + 1) = Some n"
      using assms(2) by simp_all
    then show ?case by (simp add: strlen_loop.simps [of p k])
  qed
  then show ?thesis by (simp add: strlen_def)
qed

end
