(* ===== verification/Memory.thy ===== *)
theory Memory
  imports CString
begin

text \<open>
  Physical memory as the kernel sees it through its direct map: the page constants and macros of
  \<^verbatim>\<open>kernel/riscv.h\<close> and \<^verbatim>\<open>kernel/memlayout.h\<close>, 64-bit loads and stores (RISC-V is
  little-endian), transfers of byte strings, and the lemmas on reading after writing.
\<close>

section \<open>Layout (kernel/riscv.h, kernel/memlayout.h)\<close>

definition PGSIZE :: uint64 where "PGSIZE = 4096"
definition PGSHIFT :: nat where "PGSHIFT = 12"

definition PGROUNDUP :: "uint64 \<Rightarrow> uint64" where
  "PGROUNDUP sz = (sz + PGSIZE - 1) AND NOT (PGSIZE - 1)"

definition PGROUNDDOWN :: "uint64 \<Rightarrow> uint64" where
  "PGROUNDDOWN a = a AND NOT (PGSIZE - 1)"

definition MAXVA :: uint64 where "MAXVA = push_bit (9 + 9 + 9 + 12 - 1) 1"

definition UART0 :: uint64 where "UART0 = 0x10000000"
definition VIRTIO0 :: uint64 where "VIRTIO0 = 0x10001000"
definition PLIC :: uint64 where "PLIC = 0x0c000000"
definition KERNBASE :: uint64 where "KERNBASE = 0x80000000"
definition PHYSTOP :: uint64 where "PHYSTOP = KERNBASE + 128 * 1024 * 1024"
definition TRAMPOLINE :: uint64 where "TRAMPOLINE = MAXVA - PGSIZE"
definition TRAPFRAME :: uint64 where "TRAPFRAME = TRAMPOLINE - PGSIZE"

definition KSTACK :: "nat \<Rightarrow> uint64" where
  "KSTACK p = TRAMPOLINE - (of_nat p + 1) * 2 * PGSIZE"

section \<open>Loads, stores and byte strings\<close>

definition load64 :: "mem \<Rightarrow> uint64 \<Rightarrow> uint64" where
  "load64 m a = word_rcat (rev (map (at m a) [0..<8]))"

definition store64 :: "mem \<Rightarrow> uint64 \<Rightarrow> uint64 \<Rightarrow> mem" where
  "store64 m a v = (\<lambda>x. if unat (x - a) < 8 then ucast (drop_bit (8 * unat (x - a)) v) else m x)"

definition getbytes :: "mem \<Rightarrow> uint64 \<Rightarrow> nat \<Rightarrow> uchar list" where
  "getbytes m a n = map (at m a) [0..<n]"

definition putbytes :: "mem \<Rightarrow> uint64 \<Rightarrow> uchar list \<Rightarrow> mem" where
  "putbytes m a bs = (\<lambda>x. if unat (x - a) < length bs then bs ! unat (x - a) else m x)"

section \<open>Reading after writing\<close>

lemma load64_cong: "(\<And>i. i < 8 \<Longrightarrow> m (a + of_nat i) = m' (b + of_nat i)) \<Longrightarrow> load64 m a = load64 m' b"
  unfolding load64_def by (intro arg_cong [where f = "\<lambda>xs. word_rcat (rev xs)"] map_cong) auto

lemma bit_load64: "bit (load64 m a) n \<longleftrightarrow> n < 64 \<and> bit (m (a + of_nat (n div 8))) (n mod 8)"
proof -
  let ?bs = "map (at m a) [0..<8]"
  have "load64 m a = word_of_int (horner_sum uint (2 ^ LENGTH(8)) ?bs)"
    by (simp add: load64_def word_rcat_def)
  then have "bit (load64 m a) n \<longleftrightarrow> n < 64 \<and> bit (horner_sum uint (2 ^ LENGTH(8)) ?bs) n"
    by (simp only: bit_word_of_int_iff) simp
  also have "\<dots> \<longleftrightarrow> n < 64 \<and> n div 8 < length ?bs \<and> bit (?bs ! (n div 8)) (n mod 8)"
    by (simp only: bit_horner_sum_uint_exp_iff) simp
  finally show ?thesis by (auto simp: less_mult_imp_div_less)
qed

lemma load64_store64_same: "load64 (store64 m a v) a = v"
proof (rule bit_word_eqI)
  fix n assume n: "n < LENGTH(64)"
  then have "n div 8 < 8" by (simp add: less_mult_imp_div_less)
  then have d: "unat (of_nat (n div 8) :: uint64) = n div 8"
    by (intro unat_of_nat_small) simp
  have "bit (load64 (store64 m a v) a) n \<longleftrightarrow> bit v (8 * (n div 8) + n mod 8)"
    using n \<open>n div 8 < 8\<close>
    by (simp add: bit_load64 store64_def d bit_unsigned_iff bit_drop_bit_eq)
  then show "bit (load64 (store64 m a v) a) n = bit v n" by simp
qed

lemma load64_store64_other:
  assumes "8 \<le> unat (b - a)" and "8 \<le> unat (a - b)"
  shows "load64 (store64 m a v) b = load64 m b"
proof (rule load64_cong)
  fix i :: nat assume i: "i < 8"
  have "\<not> unat (b + of_nat i - a) < 8"
  proof
    assume j: "unat (b + of_nat i - a) < 8"
    let ?j = "unat (b + of_nat i - a)"
    have e: "b + of_nat i - a = of_nat ?j" by simp
    show False
    proof (cases "i \<le> ?j")
      case True
      from e have "b - a = of_nat ?j - of_nat i" by (simp add: algebra_simps)
      also have "\<dots> = of_nat (?j - i)" using True by (simp add: of_nat_diff)
      finally have "unat (b - a) = ?j - i" using j by (simp add: unat_of_nat_small)
      with assms(1) j show False by simp
    next
      case False
      from e have "a - b = of_nat i - of_nat ?j" by (simp add: algebra_simps)
      also have "\<dots> = of_nat (i - ?j)" using False by (simp add: of_nat_diff)
      finally have "unat (a - b) = i - ?j" using i by (simp add: unat_of_nat_small)
      with assms(2) i show False by simp
    qed
  qed
  then show "store64 m a v (b + of_nat i) = m (b + of_nat i)"
    by (simp add: store64_def)
qed

lemma length_getbytes [simp]: "length (getbytes m a n) = n"
  by (simp add: getbytes_def)

lemma getbytes_cong: "(\<And>i. i < n \<Longrightarrow> m (a + of_nat i) = m' (b + of_nat i)) \<Longrightarrow>
    getbytes m a n = getbytes m' b n"
  by (simp add: getbytes_def)

lemma getbytes_putbytes_same:
  assumes "length bs \<le> 2 ^ 64"
  shows "getbytes (putbytes m a bs) a (length bs) = bs"
  using assms by (intro nth_equalityI) (simp_all add: getbytes_def putbytes_def unat_of_nat_small)

lemma putbytes_memmove:
  assumes "unat src + n < 2 ^ 64" and "unat dst + n < 2 ^ 64"
  shows "memmove m dst src n = putbytes m dst (getbytes m src n)"
  using memmove_copied [OF assms, of m]
  by (simp add: copied_def putbytes_def getbytes_def fun_eq_iff)

section \<open>Pages\<close>

definition aligned :: "uint64 \<Rightarrow> bool" where
  "aligned a \<longleftrightarrow> a mod PGSIZE = 0"

text \<open>\<open>pageno\<close> numbers the page an address is in; \<open>in_page\<close> collects the addresses of one page.\<close>

definition pageno :: "uint64 \<Rightarrow> nat" where
  "pageno a = unat a div 4096"

lemma aligned_unat: "aligned a \<longleftrightarrow> unat a mod 4096 = 0"
  using unat_mod [of a 4096] by (simp add: aligned_def PGSIZE_def word_unat_eq_iff)

lemma aligned_room: "aligned a \<Longrightarrow> i < 4096 \<Longrightarrow> unat a + i < 2 ^ 64"
proof -
  assume "aligned a" "i < 4096"
  then obtain q where "unat a = 4096 * q" by (auto simp: aligned_unat)
  with unat_lt2p [of a] \<open>i < 4096\<close> show ?thesis by simp
qed

lemma unat_page_add: "aligned a \<Longrightarrow> i < 4096 \<Longrightarrow> unat (a + of_nat i) = unat a + i"
  using aligned_room [of a i] by (simp add: unat_plus_if' unat_of_nat_small)

lemma in_page_iff: "aligned a \<Longrightarrow> unat (x - a) < 4096 \<longleftrightarrow> pageno x = pageno a"
proof
  assume a: "aligned a" and "unat (x - a) < 4096"
  then have "unat (a + of_nat (unat (x - a))) = unat a + unat (x - a)" by (rule unat_page_add)
  then have "unat x = unat a + unat (x - a)" by simp
  with a \<open>unat (x - a) < 4096\<close> show "pageno x = pageno a"
    by (auto simp: pageno_def aligned_unat div_add1_eq)
next
  assume a: "aligned a" and p: "pageno x = pageno a"
  from a p have "unat x = unat a + unat x mod 4096"
    by (metis pageno_def aligned_unat add.commute add_0 mult_div_mod_eq)
  then have "a \<le> x" "unat x - unat a < 4096" by (simp_all add: word_le_nat_alt)
  then show "unat (x - a) < 4096" by (simp add: unat_sub)
qed

lemma pageno_add: "aligned a \<Longrightarrow> i < 4096 \<Longrightarrow> pageno (a + of_nat i) = pageno a"
  by (subst in_page_iff [symmetric]) (simp_all add: unat_of_nat_small)

lemma pageno_inj: "aligned a \<Longrightarrow> aligned b \<Longrightarrow> pageno a = pageno b \<Longrightarrow> a = b"
  by (metis pageno_def aligned_unat add_0 mult_div_mod_eq word_unat_eq_iff add.right_neutral)

section \<open>Rounding to pages\<close>

lemma and_not_page_mask: "unat (w AND NOT (PGSIZE - 1)) = unat w div 4096 * 4096"
proof -
  have m: "PGSIZE - 1 = mask 12"
    by (simp add: PGSIZE_def mask_eq_exp_minus_1)
  have "w AND NOT (mask 12) = push_bit 12 (drop_bit 12 w)"
    by (rule bit_word_eqI) (auto simp: bit_and_iff bit_not_iff bit_mask_iff bit_push_bit_iff bit_drop_bit_eq)
  then have "unat (w AND NOT (PGSIZE - 1)) = unat (push_bit 12 (drop_bit 12 w))"
    by (simp add: m)
  also have "\<dots> = (unat w div 4096 * 4096) mod 2 ^ 64"
    by (simp add: push_bit_eq_mult unat_word_ariths unat_drop_bit_eq drop_bit_eq_div mod_mult_left_eq)
  also have "\<dots> = unat w div 4096 * 4096"
    using unat_lt2p [of w] by (intro mod_less le_less_trans [OF div_times_less_eq_dividend]) simp
  finally show ?thesis .
qed

lemma unat_PGROUNDDOWN: "unat (PGROUNDDOWN a) = unat a div 4096 * 4096"
  by (simp add: PGROUNDDOWN_def and_not_page_mask)

lemma unat_PGROUNDUP:
  assumes "unat sz + 4095 < 2 ^ 64"
  shows "unat (PGROUNDUP sz) = (unat sz + 4095) div 4096 * 4096"
proof -
  have "unat (sz + PGSIZE - 1) = unat sz + 4095"
    using assms by (simp add: PGSIZE_def unat_plus_if')
  then show ?thesis
    by (simp only: PGROUNDUP_def and_not_page_mask)
qed

lemma aligned_PGROUNDDOWN [simp]: "aligned (PGROUNDDOWN a)"
  by (simp add: aligned_unat unat_PGROUNDDOWN)

lemma aligned_PGROUNDUP [simp]: "aligned (PGROUNDUP a)"
  by (simp add: aligned_unat PGROUNDUP_def and_not_page_mask)

lemma PGROUNDDOWN_page [simp]: "pageno (PGROUNDDOWN a) = pageno a"
  by (simp add: pageno_def unat_PGROUNDDOWN)

end
