(* ===== verification/Kalloc.thy ===== *)
theory Kalloc
  imports Sleeplock Memory
begin

text \<open>
  \<^verbatim>\<open>kernel/kalloc.c\<close>. The free list is threaded through the free pages themselves: the first eight
  bytes of a free page are the address of the next one. The state adds physical memory, the head of
  the list and \<open>kend\<close>, the linker symbol \<^verbatim>\<open>end\<close>, whose value is fixed when the kernel is linked. The lemmas
  relate the list in memory to a list of pages, and give the allocator as an interface to its clients.
\<close>

record kmem = kbase +
  kend :: uint64
  pmem :: mem
  freelist :: uint64

definition kfree :: "uint64 \<Rightarrow> (unit, 'a kmem_scheme) kmonad" where
  "kfree pa =
     bnd (reads kend) (\<lambda>e.
     if pa mod PGSIZE \<noteq> 0 \<or> pa < e \<or> PHYSTOP \<le> pa then panic ''kfree'' else
     thn (writes (\<lambda>s. s\<lparr>pmem := memset (pmem s) pa 1 (unat PGSIZE)\<rparr>)) (
     thn (acquire LkKmem) (
     thn (writes (\<lambda>s. s\<lparr>pmem := store64 (pmem s) pa (freelist s)\<rparr>)) (
     thn (writes (\<lambda>s. s\<lparr>freelist := pa\<rparr>))
         (release LkKmem)))))"

definition kalloc :: "(uint64, 'a kmem_scheme) kmonad" where
  "kalloc =
     thn (acquire LkKmem) (
     bnd (reads freelist) (\<lambda>r.
     thn (mwhen (r \<noteq> 0) (writes (\<lambda>s. s\<lparr>freelist := load64 (pmem s) r\<rparr>))) (
     thn (release LkKmem) (
     thn (mwhen (r \<noteq> 0) (writes (\<lambda>s. s\<lparr>pmem := memset (pmem s) r 5 (unat PGSIZE)\<rparr>)))
         (ret r)))))"

text \<open>The loop of \<^verbatim>\<open>freerange\<close>; a pointer that runs over the end of the address space is undefined in C.\<close>

function freerange_loop :: "uint64 \<Rightarrow> uint64 \<Rightarrow> (unit, 'a kmem_scheme) kmonad" where
  "freerange_loop p pa_end s =
     (if p + PGSIZE < p then UB ''pointer overflow''
      else if p + PGSIZE \<le> pa_end then bnd (kfree p) (\<lambda>_. freerange_loop (p + PGSIZE) pa_end) s
      else Ok () s)"
  by pat_completeness auto
termination
  by (relation "measure (\<lambda>(p, pa_end, s). 2 ^ 64 - unat p)")
    (auto simp: PGSIZE_def word_less_nat_alt unat_plus_if' split: if_splits)

declare freerange_loop.simps [simp del]

definition freerange :: "uint64 \<Rightarrow> uint64 \<Rightarrow> (unit, 'a kmem_scheme) kmonad" where
  "freerange pa_start pa_end = freerange_loop (PGROUNDUP pa_start) pa_end"

definition kinit :: "(unit, 'a kmem_scheme) kmonad" where
  "kinit =
     thn (initlock LkKmem ''kmem'') (
     bnd (reads kend) (\<lambda>e. freerange e PHYSTOP))"

section \<open>Frames\<close>

lemma kmem_get [kframe]:
  "pmem (lock_st l s) = pmem s"
  "pmem (wake_st ch s) = pmem s"
  "pmem (slock_st i s) = pmem s"
  "pmem (sunlock_st i s) = pmem s"
  "pmem (set_ena b s) = pmem s"
  "freelist (lock_st l s) = freelist s"
  "freelist (wake_st ch s) = freelist s"
  "freelist (slock_st i s) = freelist s"
  "freelist (sunlock_st i s) = freelist s"
  "freelist (set_ena b s) = freelist s"
  by (simp_all add: lock_st_def push_st_def wake_st_def slock_st_def sunlock_st_def set_ena_def)

lemma kmem_set [kframe]:
  "(lock_st l s)\<lparr>pmem := v_pmem\<rparr> = lock_st l (s\<lparr>pmem := v_pmem\<rparr>)"
  "(wake_st ch s)\<lparr>pmem := v_pmem\<rparr> = wake_st ch (s\<lparr>pmem := v_pmem\<rparr>)"
  "(lock_st l s)\<lparr>freelist := v_freelist\<rparr> = lock_st l (s\<lparr>freelist := v_freelist\<rparr>)"
  "(wake_st ch s)\<lparr>freelist := v_freelist\<rparr> = wake_st ch (s\<lparr>freelist := v_freelist\<rparr>)"
  by (simp_all add: lock_st_def push_st_def wake_st_def curproc_def)

lemma kmem_keep [kframe]:
  "base_ok (s\<lparr>pmem := v_pmem\<rparr>) = base_ok s"
  "lk_free k (s\<lparr>pmem := v_pmem\<rparr>) = lk_free k s"
  "curproc (s\<lparr>pmem := v_pmem\<rparr>) = curproc s"
  "procs_free (s\<lparr>pmem := v_pmem\<rparr>) = procs_free s"
  "calm (s\<lparr>pmem := v_pmem\<rparr>) = calm s"
  "mypid (s\<lparr>pmem := v_pmem\<rparr>) = mypid s"
  "base_ok (s\<lparr>freelist := v_freelist\<rparr>) = base_ok s"
  "lk_free k (s\<lparr>freelist := v_freelist\<rparr>) = lk_free k s"
  "curproc (s\<lparr>freelist := v_freelist\<rparr>) = curproc s"
  "procs_free (s\<lparr>freelist := v_freelist\<rparr>) = procs_free s"
  "calm (s\<lparr>freelist := v_freelist\<rparr>) = calm s"
  "mypid (s\<lparr>freelist := v_freelist\<rparr>) = mypid s"
  by (simp_all add: base_ok_def lk_free_def curproc_def procs_free_def calm_def mypid_def)

section \<open>What the operations do to the state\<close>

definition page_ok :: "uint64 \<Rightarrow> uint64 \<Rightarrow> bool" where
  "page_ok e p \<longleftrightarrow> aligned p \<and> e \<le> p \<and> p < PHYSTOP"

definition kfree_st :: "uint64 \<Rightarrow> 'a kmem_scheme \<Rightarrow> 'a kmem_scheme" where
  "kfree_st pa s = s\<lparr>
     pmem := store64 (memset (pmem s) pa 1 (unat PGSIZE)) pa (freelist s), freelist := pa\<rparr>"

definition kalloc_st :: "'a kmem_scheme \<Rightarrow> 'a kmem_scheme" where
  "kalloc_st s =
     (if freelist s = 0 then s
      else s\<lparr>freelist := load64 (pmem s) (freelist s),
             pmem := memset (pmem s) (freelist s) 5 (unat PGSIZE)\<rparr>)"

lemma kfree_step [kstep]:
  assumes "base_ok s" and "lk_free LkKmem s" and "page_ok (kend s) pa"
  shows "kfree pa s = Ok () (kfree_st pa s)"
  using assms
  by (simp add: kfree_def kfree_st_def page_ok_def aligned_def kstep kframe linorder_not_less linorder_not_le)

lemma kfree_panics: "\<not> page_ok (kend s) pa \<Longrightarrow> kfree pa s = Panic ''kfree''"
  by (auto simp: kfree_def page_ok_def aligned_def kstep linorder_not_less linorder_not_le)

lemma kalloc_step [kstep]:
  assumes "base_ok s" and "lk_free LkKmem s"
  shows "kalloc s = Ok (freelist s) (kalloc_st s)"
  using assms
  by (cases "freelist s = 0") (simp_all add: kalloc_def kalloc_st_def kstep kframe)

section \<open>The free list\<close>

primrec flist :: "mem \<Rightarrow> uint64 \<Rightarrow> uint64 list \<Rightarrow> bool" where
  "flist m p [] \<longleftrightarrow> p = 0"
| "flist m p (x # xs) \<longleftrightarrow> p = x \<and> x \<noteq> 0 \<and> flist m (load64 m x) xs"

lemma flist_unique: "flist m p xs \<Longrightarrow> flist m p ys \<Longrightarrow> xs = ys"
  by (induction xs arbitrary: p ys) (metis flist.simps list.exhaust)+

lemma flist_cong: "(\<And>x. x \<in> set xs \<Longrightarrow> load64 m x = load64 m' x) \<Longrightarrow> flist m p xs = flist m' p xs"
  by (induction xs arbitrary: p) auto

text \<open>\<open>kmem_list s ps\<close>: the free list of \<open>s\<close> consists of the pages \<open>ps\<close>, all of them pages the allocator owns.\<close>

definition kmem_list :: "'a kmem_scheme \<Rightarrow> uint64 list \<Rightarrow> bool" where
  "kmem_list s ps \<longleftrightarrow> 0 < kend s \<and> flist (pmem s) (freelist s) ps \<and> distinct ps \<and>
     (\<forall>p\<in>set ps. page_ok (kend s) p)"

lemma memset_other_page:
  assumes "aligned a" and "pageno x \<noteq> pageno a"
  shows "memset m a c (unat PGSIZE) x = m x"
  using assms by (simp add: memset_eq PGSIZE_def in_page_iff)

lemma load64_memset_other_page:
  assumes "aligned a" and "aligned b" and "a \<noteq> b"
  shows "load64 (memset m a c (unat PGSIZE)) b = load64 m b"
proof (rule load64_cong)
  fix i :: nat assume "i < 8"
  then have "pageno (b + of_nat i) = pageno b"
    using assms(2) by (simp add: pageno_add)
  then show "memset m a c (unat PGSIZE) (b + of_nat i) = m (b + of_nat i)"
    using assms pageno_inj by (metis memset_other_page)
qed

lemma pages_apart:
  assumes "aligned a" and "aligned b" and "a \<noteq> b"
  shows "4096 \<le> unat (b - a)"
  using assms pageno_inj by (metis in_page_iff not_le)

lemma load64_store64_other_page:
  assumes "aligned a" and "aligned b" and "a \<noteq> b"
  shows "load64 (store64 m a v) b = load64 m b"
  using pages_apart [OF assms] pages_apart [OF assms(2,1)] assms(3)
  by (intro load64_store64_other) auto

lemma kmem_list_kfree:
  assumes "kmem_list s ps" and "page_ok (kend s) pa" and "pa \<notin> set ps"
  shows "kmem_list (kfree_st pa s) (pa # ps)"
proof -
  let ?m = "store64 (memset (pmem s) pa 1 (unat PGSIZE)) pa (freelist s)"
  have "load64 ?m x = load64 (pmem s) x" if "x \<in> set ps" for x
  proof -
    have "aligned pa" "aligned x" "pa \<noteq> x" using assms that by (auto simp: kmem_list_def page_ok_def)
    then show ?thesis by (simp add: load64_store64_other_page load64_memset_other_page)
  qed
  then have "flist ?m (freelist s) ps = flist (pmem s) (freelist s) ps"
    by (rule flist_cong)
  then show ?thesis
    using assms by (auto simp: kmem_list_def kfree_st_def load64_store64_same page_ok_def)
qed

lemma kmem_list_kalloc:
  assumes "kmem_list s (p # ps)"
  shows "kmem_list (kalloc_st s) ps"
proof -
  have "load64 (memset (pmem s) p 5 (unat PGSIZE)) x = load64 (pmem s) x" if "x \<in> set ps" for x
  proof -
    have "aligned p" "aligned x" "p \<noteq> x" using assms that by (auto simp: kmem_list_def page_ok_def)
    then show ?thesis by (simp add: load64_memset_other_page)
  qed
  then have "flist (memset (pmem s) p 5 (unat PGSIZE)) (load64 (pmem s) p) ps =
      flist (pmem s) (load64 (pmem s) p) ps"
    by (rule flist_cong)
  with assms show ?thesis by (auto simp: kmem_list_def kalloc_st_def)
qed

lemma kmem_list_head: "kmem_list s ps \<Longrightarrow> freelist s = (case ps of [] \<Rightarrow> 0 | p # _ \<Rightarrow> p)"
  by (cases ps) (simp_all add: kmem_list_def)

lemma kmem_list_upd [kframe]:
  "kmem_list (lock_st l s) ps = kmem_list s ps"
  "kmem_list (s\<lparr>procs := g\<rparr>) ps = kmem_list s ps"
  "kmem_list (s\<lparr>slocks := h\<rparr>) ps = kmem_list s ps"
  by (simp_all add: kmem_list_def kframe) (simp add: lock_st_def push_st_def)

lemma kfree_kalloc_keep [kframe]:
  "kend (kfree_st p s) = kend s" "kend (kalloc_st s) = kend s"
  "base_ok (kfree_st p s) = base_ok s" "base_ok (kalloc_st s) = base_ok s"
  "lk_free k (kfree_st p s) = lk_free k s" "lk_free k (kalloc_st s) = lk_free k s"
  "curproc (kfree_st p s) = curproc s" "curproc (kalloc_st s) = curproc s"
  "procs (kfree_st p s) = procs s" "procs (kalloc_st s) = procs s"
  by (simp_all add: kfree_st_def kalloc_st_def kframe)

lemma kfree_other_page:
  assumes "aligned pa" and "pageno x \<noteq> pageno pa"
  shows "pmem (kfree_st pa s) x = pmem s x"
proof -
  have "\<not> unat (x - pa) < 8" using assms in_page_iff [of pa x] by auto
  then show ?thesis using assms by (simp add: kfree_st_def store64_def memset_other_page)
qed

section \<open>The allocator as an interface\<close>

text \<open>
  What the clients of the allocator rely on: \<open>pool s ps\<close> says which pages are free, and \<open>byte\<close> reads
  memory. The laws are the contract of \<^verbatim>\<open>kalloc\<close> and \<^verbatim>\<open>kfree\<close>.
\<close>

locale page_pool =
  fixes ready :: "'s \<Rightarrow> bool"
    and pool :: "'s \<Rightarrow> uint64 list \<Rightarrow> bool"
    and owned :: "'s \<Rightarrow> uint64 \<Rightarrow> bool"
    and byte :: "'s \<Rightarrow> uint64 \<Rightarrow> uchar"
    and alloc :: "(uint64, 's) kmonad"
    and free :: "uint64 \<Rightarrow> (unit, 's) kmonad"
  assumes pool_pages: "pool s ps \<Longrightarrow> distinct ps \<and> 0 \<notin> set ps \<and> (\<forall>p\<in>set ps. owned s p)"
    and alloc_empty: "ready s \<Longrightarrow> pool s [] \<Longrightarrow> alloc s = Ok 0 s"
    and alloc_page: "ready s \<Longrightarrow> pool s (p # ps) \<Longrightarrow>
      \<exists>t. alloc s = Ok p t \<and> ready t \<and> pool t ps \<and> owned t = owned s \<and>
        (\<forall>x. pageno x \<noteq> pageno p \<longrightarrow> byte t x = byte s x)"
    and free_page: "ready s \<Longrightarrow> pool s ps \<Longrightarrow> owned s p \<Longrightarrow> p \<notin> set ps \<Longrightarrow>
      \<exists>t. free p s = Ok () t \<and> ready t \<and> pool t (p # ps) \<and> owned t = owned s \<and>
        (\<forall>x. pageno x \<noteq> pageno p \<longrightarrow> byte t x = byte s x)"
begin

lemma alloc_many:
  assumes "ready s" and "pool s ps"
  shows "\<exists>t. mrep n alloc s = Ok (take n ps @ replicate (n - length ps) 0) t \<and>
    ready t \<and> pool t (drop n ps) \<and> owned t = owned s \<and>
    (\<forall>x. pageno x \<notin> pageno ` set (take n ps) \<longrightarrow> byte t x = byte s x)"
  using assms
proof (induction n arbitrary: s ps)
  case 0
  then show ?case by (simp add: kstep)
next
  case (Suc n)
  show ?case
  proof (cases ps)
    case Nil
    with Suc.prems have "alloc s = Ok 0 s" by (simp add: alloc_empty)
    with Suc.IH [OF Suc.prems] Nil show ?thesis by (auto simp: kstep bnd_Ok)
  next
    case (Cons p qs)
    with Suc.prems alloc_page [of s p qs] obtain t where t: "alloc s = Ok p t" "ready t" "pool t qs"
      "owned t = owned s" "\<And>x. pageno x \<noteq> pageno p \<Longrightarrow> byte t x = byte s x"
      by auto
    from Suc.IH [OF t(2,3)] obtain u where
      "mrep n alloc t = Ok (take n qs @ replicate (n - length qs) 0) u" "ready u" "pool u (drop n qs)"
      "owned u = owned t" "\<And>x. pageno x \<notin> pageno ` set (take n qs) \<Longrightarrow> byte u x = byte t x"
      by blast
    with t Cons show ?thesis by (auto simp: kstep bnd_Ok)
  qed
qed

text \<open>A page that is freed is the next one handed out, and the pool is as before.\<close>

lemma free_alloc:
  assumes "ready s" and "pool s ps" and "owned s p" and "p \<notin> set ps"
  shows "\<exists>t. thn (free p) alloc s = Ok p t \<and> ready t \<and> pool t ps \<and>
    (\<forall>x. pageno x \<noteq> pageno p \<longrightarrow> byte t x = byte s x)"
proof -
  from free_page [OF assms] obtain t where t: "free p s = Ok () t" "ready t" "pool t (p # ps)"
    "\<And>x. pageno x \<noteq> pageno p \<Longrightarrow> byte t x = byte s x" by blast
  from alloc_page [OF t(2,3)] obtain u where "alloc t = Ok p u" "ready u" "pool u ps"
    "\<And>x. pageno x \<noteq> pageno p \<Longrightarrow> byte u x = byte t x" by blast
  with t show ?thesis by (auto simp: kstep)
qed

end

interpretation km: page_pool
  "\<lambda>s. base_ok s \<and> lk_free LkKmem s" kmem_list "\<lambda>s. page_ok (kend s)" pmem kalloc kfree
proof unfold_locales
  fix s :: "'a kmem_scheme" and p ps
  show "distinct ps \<and> 0 \<notin> set ps \<and> (\<forall>p\<in>set ps. page_ok (kend s) p)" if "kmem_list s ps"
    using that by (auto simp: kmem_list_def page_ok_def word_le_nat_alt word_less_nat_alt)
  show "kalloc s = Ok 0 s" if "base_ok s \<and> lk_free LkKmem s" "kmem_list s []"
    using that by (simp add: kstep kmem_list_def kalloc_st_def)
  show "\<exists>t. kalloc s = Ok p t \<and> (base_ok t \<and> lk_free LkKmem t) \<and> kmem_list t ps \<and>
      page_ok (kend t) = page_ok (kend s) \<and> (\<forall>x. pageno x \<noteq> pageno p \<longrightarrow> pmem t x = pmem s x)"
    if "base_ok s \<and> lk_free LkKmem s" "kmem_list s (p # ps)"
  proof -
    from that(2) have p: "freelist s = p" "p \<noteq> 0" "aligned p"
      by (auto simp: kmem_list_def page_ok_def)
    then have "\<forall>x. pageno x \<noteq> pageno p \<longrightarrow> pmem (kalloc_st s) x = pmem s x"
      by (simp add: kalloc_st_def memset_other_page)
    with that p kmem_list_kalloc [OF that(2)] show ?thesis by (simp add: kstep kframe)
  qed
  show "\<exists>t. kfree p s = Ok () t \<and> (base_ok t \<and> lk_free LkKmem t) \<and> kmem_list t (p # ps) \<and>
      page_ok (kend t) = page_ok (kend s) \<and> (\<forall>x. pageno x \<noteq> pageno p \<longrightarrow> pmem t x = pmem s x)"
    if "base_ok s \<and> lk_free LkKmem s" "kmem_list s ps" "page_ok (kend s) p" "p \<notin> set ps"
  proof -
    have "aligned p" using that(3) by (simp add: page_ok_def)
    with that kmem_list_kfree [OF that(2-4)] show ?thesis
      by (simp add: kstep kframe kfree_other_page)
  qed
qed

section \<open>Starting the allocator\<close>

primrec pages_from :: "uint64 \<Rightarrow> nat \<Rightarrow> uint64 list" where
  "pages_from p 0 = []"
| "pages_from p (Suc n) = p # pages_from (p + PGSIZE) n"

lemma aligned_next:
  assumes "aligned p" and "unat p + 4096 < 2 ^ 64"
  shows "unat (p + PGSIZE) = unat p + 4096" and "aligned (p + PGSIZE)"
proof -
  show e: "unat (p + PGSIZE) = unat p + 4096"
    using assms(2) by (simp add: PGSIZE_def unat_plus_if')
  show "aligned (p + PGSIZE)"
    using assms(1) by (simp add: aligned_unat e)
qed

lemma freerange_loop_list:
  assumes "kmem_list s ps" and "base_ok s" and "lk_free LkKmem s"
    and "aligned p" and "kend s \<le> p" and "e \<le> PHYSTOP" and "\<forall>q\<in>set ps. q < p"
    and "unat p + 4096 * n \<le> unat e" and "unat e < unat p + 4096 * n + 4096"
  shows "\<exists>t. freerange_loop p e s = Ok () t \<and> kmem_list t (rev (pages_from p n) @ ps)"
  using assms
proof (induction n arbitrary: s ps p)
  case 0
  have small: "unat e < 2 ^ 32"
    using "0.prems"(6) by (simp add: PHYSTOP_def KERNBASE_def word_le_nat_alt)
  with 0 have "unat (p + PGSIZE) = unat p + 4096" by (intro aligned_next) auto
  with 0 show ?case by (simp add: freerange_loop.simps word_less_nat_alt word_le_nat_alt)
next
  case (Suc n)
  have small: "unat e < 2 ^ 32"
    using Suc.prems(6) by (simp add: PHYSTOP_def KERNBASE_def word_le_nat_alt)
  with Suc.prems have n: "unat (p + PGSIZE) = unat p + 4096" "aligned (p + PGSIZE)"
    by (auto intro!: aligned_next)
  have ok: "page_ok (kend s) p"
    using Suc.prems by (auto simp: page_ok_def word_less_nat_alt word_le_nat_alt)
  have "p \<notin> set ps" using Suc.prems(7) by blast
  let ?t = "kfree_st p s"
  have free: "kfree p s = Ok () ?t"
    using ok Suc.prems by (simp add: kstep)
  have "\<exists>t. freerange_loop (p + PGSIZE) e ?t = Ok () t \<and>
      kmem_list t (rev (pages_from (p + PGSIZE) n) @ p # ps)"
  proof (rule Suc.IH)
    show "kmem_list ?t (p # ps)" using Suc.prems(1) ok \<open>p \<notin> set ps\<close> by (rule kmem_list_kfree)
    show "\<forall>q\<in>set (p # ps). q < p + PGSIZE"
      using Suc.prems(7) n by (auto simp: word_less_nat_alt)
    show "kend ?t \<le> p + PGSIZE"
      using Suc.prems(5) n(1) by (simp add: kframe word_le_nat_alt)
  qed (use Suc.prems n in \<open>simp_all add: kframe\<close>)
  moreover have "freerange_loop p e s = freerange_loop (p + PGSIZE) e ?t"
    using free n Suc.prems(8)
    by (subst freerange_loop.simps) (simp add: kstep word_less_nat_alt word_le_nat_alt)
  ultimately show ?case by simp
qed

lemma set_pages_from:
  assumes "aligned p" and "unat p + 4096 * n < 2 ^ 64"
  shows "set (pages_from p n) = {q. aligned q \<and> unat p \<le> unat q \<and> unat q < unat p + 4096 * n}"
  using assms
proof (induction n arbitrary: p)
  case (Suc n)
  then have n: "unat (p + PGSIZE) = unat p + 4096" "aligned (p + PGSIZE)"
    by (auto intro!: aligned_next)
  have step: "q = p \<or> unat p + 4096 \<le> unat q" if "aligned q" "unat p \<le> unat q" for q
  proof -
    from that(1) Suc.prems(1) obtain i j where "unat q = 4096 * i" "unat p = 4096 * j"
      by (auto simp: aligned_unat mod_eq_0_iff_dvd elim!: dvdE)
    with that(2) show ?thesis by (auto simp: word_unat_eq_iff)
  qed
  have "set (pages_from (p + PGSIZE) n) =
      {q. aligned q \<and> unat p + 4096 \<le> unat q \<and> unat q < unat p + 4096 * Suc n}"
    using Suc.IH [OF n(2)] Suc.prems(2) n(1) by (simp add: algebra_simps)
  with step Suc.prems(1) show ?case by fastforce
qed simp

text \<open>
  C12: repeated calls of \<^verbatim>\<open>kalloc\<close> hand out the free pages one after the other, each page once and never
  a page in use, then return 0; the pages handed out leave the free list, and no byte of any other
  page changes.
\<close>

theorem kalloc_distinct:
  assumes "base_ok s" and "lk_free LkKmem s" and "kmem_list s ps"
  shows "\<exists>t. mrep n kalloc s = Ok (take n ps @ replicate (n - length ps) 0) t \<and>
    kmem_list t (drop n ps) \<and> distinct (take n ps) \<and>
    (\<forall>p\<in>set (take n ps). page_ok (kend s) p \<and> p \<notin> set (drop n ps)) \<and>
    (\<forall>x. pageno x \<notin> pageno ` set (take n ps) \<longrightarrow> pmem t x = pmem s x)"
proof -
  from km.pool_pages [OF assms(3)] have d: "distinct ps" "\<forall>p\<in>set ps. page_ok (kend s) p" by simp_all
  have "set (take n ps) \<inter> set (drop n ps) = {}" using d(1) by (rule set_take_disj_set_drop_if_distinct) simp
  then have own: "\<forall>p\<in>set (take n ps). page_ok (kend s) p \<and> p \<notin> set (drop n ps)"
    using d(2) by (auto dest: in_set_takeD)
  obtain t where "mrep n kalloc s = Ok (take n ps @ replicate (n - length ps) 0) t"
    "kmem_list t (drop n ps)" "\<forall>x. pageno x \<notin> pageno ` set (take n ps) \<longrightarrow> pmem t x = pmem s x"
    using km.alloc_many [of s ps n] assms by blast
  with d(1) own show ?thesis by (intro exI [of _ t]) simp
qed

text \<open>One free page, in memory that is otherwise zero.\<close>

definition one_page :: kmem where
  "one_page = kbase.extend boot_kbase \<lparr>kend = KERNBASE, pmem = (\<lambda>_. 0), freelist = 0x80001000\<rparr>"

lemma one_page_list:
  "base_ok one_page" "lk_free LkKmem one_page" "kmem_list one_page [0x80001000]"
proof -
  have "load64 (\<lambda>_. 0) a = 0" for a by (rule bit_word_eqI) (simp add: bit_load64)
  then show "base_ok one_page" "lk_free LkKmem one_page" "kmem_list one_page [0x80001000]"
    by (simp_all add: one_page_def boot_kbase_def kbase.defs zero_cpu_def zero_spinlock_def base_ok_def
        lk_free_def kmem_list_def page_ok_def aligned_def PGSIZE_def KERNBASE_def PHYSTOP_def)
qed

theorem kalloc_distinct_witness:
  "\<exists>t. mrep 2 kalloc one_page = Ok [0x80001000, 0] t \<and> kmem_list t []"
  using kalloc_distinct [OF one_page_list, of 2] by auto

text \<open>
  C19: a page given to \<^verbatim>\<open>kfree\<close> joins the free list and is the page the next \<^verbatim>\<open>kalloc\<close> returns; a pointer
  that is not page-aligned, or lies outside the memory between \<^verbatim>\<open>end\<close> and \<^verbatim>\<open>PHYSTOP\<close>, panics.
\<close>

theorem kfree_kalloc:
  assumes "base_ok s" and "lk_free LkKmem s" and "kmem_list s ps" and "pa \<notin> set ps"
  shows "if pa mod PGSIZE = 0 \<and> kend s \<le> pa \<and> pa < PHYSTOP
    then \<exists>t u. kfree pa s = Ok () t \<and> kmem_list t (pa # ps) \<and> kalloc t = Ok pa u \<and> kmem_list u ps \<and>
      (\<forall>x. pageno x \<noteq> pageno pa \<longrightarrow> pmem u x = pmem s x)
    else kfree pa s = Panic ''kfree''"
proof (cases "page_ok (kend s) pa")
  case True
  from km.free_page [of s ps pa] assms True obtain t where t: "kfree pa s = Ok () t"
    "base_ok t \<and> lk_free LkKmem t" "kmem_list t (pa # ps)"
    "\<forall>x. pageno x \<noteq> pageno pa \<longrightarrow> pmem t x = pmem s x" by blast
  moreover from km.alloc_page [OF t(2,3)] obtain u where "kalloc t = Ok pa u" "kmem_list u ps"
    "\<forall>x. pageno x \<noteq> pageno pa \<longrightarrow> pmem u x = pmem t x" by blast
  ultimately show ?thesis using True by (auto simp: page_ok_def aligned_def)
next
  case False
  then show ?thesis using kfree_panics [of s pa] by (auto simp: page_ok_def aligned_def)
qed

theorem kfree_kalloc_witness:
  "\<exists>t u. kfree 0x80002000 one_page = Ok () t \<and> kalloc t = Ok 0x80002000 u \<and>
     kmem_list u [0x80001000]"
proof -
  have "0x80002000 mod PGSIZE = 0 \<and> kend one_page \<le> 0x80002000 \<and> 0x80002000 < PHYSTOP"
    by (simp add: one_page_def kbase.defs boot_kbase_def PGSIZE_def KERNBASE_def PHYSTOP_def)
  with kfree_kalloc [OF one_page_list, where pa = "0x80002000"] show ?thesis by auto
qed

text \<open>
  C11: \<^verbatim>\<open>kinit\<close>, run on the zeroed state the kernel boots with, puts exactly the whole pages between
  \<^verbatim>\<open>end\<close> and \<^verbatim>\<open>PHYSTOP\<close> on the free list, each once.
\<close>

theorem kinit_all_pages:
  assumes "base_ok s" and "freelist s = 0" and "0 < kend s" and "kend s \<le> PHYSTOP"
  shows "\<exists>t ps. kinit s = Ok () t \<and> kmem_list t ps \<and> distinct ps \<and>
    set ps = {p. p mod PGSIZE = 0 \<and> kend s \<le> p \<and> p < PHYSTOP}"
proof -
  let ?s = "s\<lparr>locks := (locks s)(LkKmem := \<lparr>lk_locked = False, lk_name = ''kmem'', lk_cpu = None\<rparr>)\<rparr>"
  let ?p = "PGROUNDUP (kend s)"
  let ?n = "(unat PHYSTOP - unat ?p) div 4096"
  have top: "unat PHYSTOP = 4096 * 557056" by (simp add: PHYSTOP_def KERNBASE_def)
  have e: "unat (kend s) \<le> 4096 * 557056" using assms(4) top by (simp add: word_le_nat_alt)
  then have p: "unat ?p = (unat (kend s) + 4095) div 4096 * 4096" by (intro unat_PGROUNDUP) simp
  have le: "unat (kend s) \<le> unat ?p" "unat ?p < unat (kend s) + 4096" using p by simp_all
  have ptop: "unat ?p \<le> unat PHYSTOP" using e top unfolding p by simp
  have n: "unat ?p + 4096 * ?n = unat PHYSTOP"
    using ptop top unfolding p by simp
  have l: "kmem_list ?s []" "base_ok ?s" "lk_free LkKmem ?s"
    using assms by (simp_all add: kmem_list_def base_ok_def lk_free_def)
  have init: "kinit s = freerange_loop ?p PHYSTOP ?s"
    by (simp add: kinit_def initlock_def upd_lock_def freerange_def kstep)
  have "\<exists>t. freerange_loop ?p PHYSTOP ?s = Ok () t \<and> kmem_list t (rev (pages_from ?p ?n) @ [])"
    using l n le by (intro freerange_loop_list) (simp_all add: word_le_nat_alt)
  then obtain t where t: "kinit s = Ok () t" "kmem_list t (rev (pages_from ?p ?n))"
    using init by auto
  have "set (pages_from ?p ?n) = {q. aligned q \<and> unat ?p \<le> unat q \<and> unat q < unat PHYSTOP}"
    using set_pages_from [of ?p ?n] n top by simp
  moreover have "unat ?p \<le> unat q \<longleftrightarrow> unat (kend s) \<le> unat q" if al: "aligned q" for q
  proof -
    obtain i where "unat q = 4096 * i"
      using al by (auto simp: aligned_unat mod_eq_0_iff_dvd elim!: dvdE)
    moreover obtain j where "unat ?p = 4096 * j" using p by (metis mult.commute)
    ultimately show ?thesis using le by auto
  qed
  ultimately have "set (rev (pages_from ?p ?n)) = {q. q mod PGSIZE = 0 \<and> kend s \<le> q \<and> q < PHYSTOP}"
    unfolding aligned_def [symmetric] by (auto simp: word_le_nat_alt word_less_nat_alt)
  with t km.pool_pages [OF t(2)] show ?thesis by blast
qed

theorem kinit_all_pages_witness:
  "\<exists>t ps. kinit (one_page\<lparr>freelist := 0\<rparr>) = Ok () t \<and> kmem_list t ps \<and> 0x80005000 \<in> set ps"
proof -
  let ?s = "one_page\<lparr>freelist := 0\<rparr>"
  have "base_ok ?s" "freelist ?s = 0" using one_page_list(1) by (simp_all add: kframe)
  moreover have "0 < kend ?s" "kend ?s \<le> PHYSTOP"
    by (simp_all add: one_page_def kbase.defs boot_kbase_def KERNBASE_def PHYSTOP_def)
  ultimately obtain t ps where t: "kinit ?s = Ok () t" "kmem_list t ps"
    "set ps = {p. p mod PGSIZE = 0 \<and> kend ?s \<le> p \<and> p < PHYSTOP}"
    using kinit_all_pages [of ?s] by blast
  have "0x80005000 \<in> set ps"
    unfolding t(3)
    by (simp add: one_page_def kbase.defs boot_kbase_def PGSIZE_def KERNBASE_def PHYSTOP_def)
  with t show ?thesis by blast
qed

end
