(* ===== verification/VM.thy ===== *)
theory VM
  imports Kalloc
begin

text \<open>
  \<^verbatim>\<open>kernel/vm.c\<close>: Sv39 page tables, which live in physical memory as arrays of 512 64-bit entries.
  The entries are read and written through \<open>load64\<close> and \<open>store64\<close>; every operation of the file is
  here except \<^verbatim>\<open>kvminithart\<close>, which writes a control register and is in theory Trap.
  The lemmas abstract a page table to a function from virtual addresses to entries, and show that
  the operations act on that function as they are meant to.
\<close>

section \<open>Page-table entries (kernel/riscv.h)\<close>

definition PTE_V :: uint64 where "PTE_V = push_bit 0 1"
definition PTE_R :: uint64 where "PTE_R = push_bit 1 1"
definition PTE_W :: uint64 where "PTE_W = push_bit 2 1"
definition PTE_X :: uint64 where "PTE_X = push_bit 3 1"
definition PTE_U :: uint64 where "PTE_U = push_bit 4 1"

definition PA2PTE :: "uint64 \<Rightarrow> uint64" where
  "PA2PTE pa = push_bit 10 (drop_bit 12 pa)"

definition PTE2PA :: "uint64 \<Rightarrow> uint64" where
  "PTE2PA pte = push_bit 12 (drop_bit 10 pte)"

definition PTE_FLAGS :: "uint64 \<Rightarrow> uint64" where
  "PTE_FLAGS pte = pte AND 0x3FF"

definition PXMASK :: uint64 where "PXMASK = 0x1FF"

definition PXSHIFT :: "nat \<Rightarrow> nat" where
  "PXSHIFT level = PGSHIFT + 9 * level"

definition PX :: "nat \<Rightarrow> uint64 \<Rightarrow> uint64" where
  "PX level va = drop_bit (PXSHIFT level) va AND PXMASK"

section \<open>Operations\<close>

text \<open>The kernel page table and the linker symbols \<^verbatim>\<open>etext\<close> and \<^verbatim>\<open>trampoline\<close>.\<close>

record kvm = kmem +
  kernel_pagetable :: uint64
  etext :: uint64
  trampoline :: uint64

definition rd64 :: "uint64 \<Rightarrow> (uint64, 'a kmem_scheme) kmonad" where
  "rd64 a = reads (\<lambda>s. load64 (pmem s) a)"

definition wr64 :: "uint64 \<Rightarrow> uint64 \<Rightarrow> (unit, 'a kmem_scheme) kmonad" where
  "wr64 a v = writes (\<lambda>s. s\<lparr>pmem := store64 (pmem s) a v\<rparr>)"

definition zero_page :: "uint64 \<Rightarrow> (unit, 'a kmem_scheme) kmonad" where
  "zero_page p = writes (\<lambda>s. s\<lparr>pmem := memset (pmem s) p 0 (unat PGSIZE)\<rparr>)"

primrec walk_loop :: "nat \<Rightarrow> uint64 \<Rightarrow> uint64 \<Rightarrow> bool \<Rightarrow> (uint64, 'a kmem_scheme) kmonad" where
  "walk_loop 0 pagetable va alloc = ret (pagetable + 8 * PX 0 va)"
| "walk_loop (Suc l) pagetable va alloc =
     bnd (rd64 (pagetable + 8 * PX (Suc l) va)) (\<lambda>pte.
     if pte AND PTE_V \<noteq> 0 then walk_loop l (PTE2PA pte) va alloc
     else if \<not> alloc then ret 0
     else
       bnd kalloc (\<lambda>pt.
       if pt = 0 then ret 0 else
       thn (zero_page pt) (
       thn (wr64 (pagetable + 8 * PX (Suc l) va) (PA2PTE pt OR PTE_V))
           (walk_loop l pt va alloc))))"

definition walk :: "uint64 \<Rightarrow> uint64 \<Rightarrow> bool \<Rightarrow> (uint64, 'a kmem_scheme) kmonad" where
  "walk pagetable va alloc =
     (if MAXVA \<le> va then panic ''walk'' else walk_loop 2 pagetable va alloc)"

definition walkaddr :: "uint64 \<Rightarrow> uint64 \<Rightarrow> (uint64, 'a kmem_scheme) kmonad" where
  "walkaddr pagetable va =
     (if MAXVA \<le> va then ret 0 else
      bnd (walk pagetable va False) (\<lambda>pte.
      if pte = 0 then ret 0 else
      bnd (rd64 pte) (\<lambda>e.
      if e AND PTE_V = 0 then ret 0
      else if e AND PTE_U = 0 then ret 0
      else ret (PTE2PA e))))"

lemma walk_va: "walk pagetable va alloc s = Ok r t \<Longrightarrow> va < MAXVA"
  by (simp add: walk_def kstep linorder_not_le split: if_splits)

text \<open>The loops below step through virtual addresses and end because \<^verbatim>\<open>walk\<close> rejects those over \<^verbatim>\<open>MAXVA\<close>.\<close>

definition room :: "uint64 \<Rightarrow> nat" where
  "room a = 2 ^ 64 - unat a"

lemma next_page_measure: "a < MAXVA \<Longrightarrow> room (a + PGSIZE) < room a"
  by (simp add: room_def MAXVA_def PGSIZE_def word_less_nat_alt unat_plus_if')

function mappages_loop ::
    "uint64 \<Rightarrow> uint64 \<Rightarrow> uint64 \<Rightarrow> uint64 \<Rightarrow> uint64 \<Rightarrow> (int, 'a kmem_scheme) kmonad" where
  "mappages_loop pagetable a lst pa perm s =
     bnd (walk pagetable a True) (\<lambda>pte.
     if pte = 0 then ret (-1) else
     bnd (rd64 pte) (\<lambda>e.
     if e AND PTE_V \<noteq> 0 then panic ''mappages: remap'' else
     thn (wr64 pte (PA2PTE pa OR perm OR PTE_V)) (
     if a = lst then ret 0
     else mappages_loop pagetable (a + PGSIZE) lst (pa + PGSIZE) perm))) s"
  by pat_completeness auto
termination
  by (relation "measure (\<lambda>(pt, a, l, pa, pm, s). room a)")
    (auto dest!: walk_va intro: next_page_measure)

declare mappages_loop.simps [simp del]

definition mappages ::
    "uint64 \<Rightarrow> uint64 \<Rightarrow> uint64 \<Rightarrow> uint64 \<Rightarrow> uint64 \<Rightarrow> (int, 'a kmem_scheme) kmonad" where
  "mappages pagetable va sz pa perm =
     (if va mod PGSIZE \<noteq> 0 then panic ''mappages: va not aligned''
      else if sz mod PGSIZE \<noteq> 0 then panic ''mappages: size not aligned''
      else if sz = 0 then panic ''mappages: size''
      else mappages_loop pagetable va (va + sz - PGSIZE) pa perm)"

definition kvmmap ::
    "uint64 \<Rightarrow> uint64 \<Rightarrow> uint64 \<Rightarrow> uint64 \<Rightarrow> uint64 \<Rightarrow> (unit, 'a kmem_scheme) kmonad" where
  "kvmmap kpgtbl va pa sz perm =
     bnd (mappages kpgtbl va sz pa perm) (\<lambda>r. if r \<noteq> 0 then panic ''kvmmap'' else ret ())"

text \<open>\<^verbatim>\<open>proc_mapstacks\<close> is in \<^verbatim>\<open>kernel/proc.c\<close>.\<close>

definition proc_mapstacks :: "uint64 \<Rightarrow> (unit, 'a kmem_scheme) kmonad" where
  "proc_mapstacks kpgtbl = foreach [0..<NPROC] (\<lambda>p.
     bnd kalloc (\<lambda>pa.
     if pa = 0 then panic ''kalloc'' else
     kvmmap kpgtbl (KSTACK p) pa PGSIZE (PTE_R OR PTE_W)))"

definition kvmmake :: "(uint64, 'a kvm_scheme) kmonad" where
  "kvmmake =
     bnd kalloc (\<lambda>kpgtbl.
     thn (zero_page kpgtbl) (
     thn (kvmmap kpgtbl UART0 UART0 PGSIZE (PTE_R OR PTE_W)) (
     thn (kvmmap kpgtbl VIRTIO0 VIRTIO0 PGSIZE (PTE_R OR PTE_W)) (
     thn (kvmmap kpgtbl PLIC PLIC 0x4000000 (PTE_R OR PTE_W)) (
     bnd (reads etext) (\<lambda>e.
     thn (kvmmap kpgtbl KERNBASE KERNBASE (e - KERNBASE) (PTE_R OR PTE_X)) (
     thn (kvmmap kpgtbl e e (PHYSTOP - e) (PTE_R OR PTE_W)) (
     bnd (reads trampoline) (\<lambda>tr.
     thn (kvmmap kpgtbl TRAMPOLINE tr PGSIZE (PTE_R OR PTE_X)) (
     thn (proc_mapstacks kpgtbl)
         (ret kpgtbl)))))))))))"

definition kvminit :: "(unit, 'a kvm_scheme) kmonad" where
  "kvminit = bnd kvmmake (\<lambda>p. writes (\<lambda>s. s\<lparr>kernel_pagetable := p\<rparr>))"

function uvmunmap_loop :: "uint64 \<Rightarrow> uint64 \<Rightarrow> uint64 \<Rightarrow> bool \<Rightarrow> (unit, 'a kmem_scheme) kmonad" where
  "uvmunmap_loop pagetable a e do_free s =
     (if \<not> a < e then Ok () s else
      bnd (walk pagetable a False) (\<lambda>pte.
      if pte = 0 then panic ''uvmunmap: walk'' else
      bnd (rd64 pte) (\<lambda>v.
      if v AND PTE_V = 0 then panic ''uvmunmap: not mapped''
      else if PTE_FLAGS v = PTE_V then panic ''uvmunmap: not a leaf''
      else
        thn (mwhen do_free (kfree (PTE2PA v))) (
        thn (wr64 pte 0)
            (uvmunmap_loop pagetable (a + PGSIZE) e do_free)))) s)"
  by pat_completeness auto
termination
  by (relation "measure (\<lambda>(pt, a, e, d, s). room a)")
    (auto dest!: walk_va intro: next_page_measure)

declare uvmunmap_loop.simps [simp del]

definition uvmunmap :: "uint64 \<Rightarrow> uint64 \<Rightarrow> uint64 \<Rightarrow> bool \<Rightarrow> (unit, 'a kmem_scheme) kmonad" where
  "uvmunmap pagetable va npages do_free =
     (if va mod PGSIZE \<noteq> 0 then panic ''uvmunmap: not aligned''
      else uvmunmap_loop pagetable va (va + npages * PGSIZE) do_free)"

definition uvmcreate :: "(uint64, 'a kmem_scheme) kmonad" where
  "uvmcreate =
     bnd kalloc (\<lambda>pagetable.
     if pagetable = 0 then ret 0 else thn (zero_page pagetable) (ret pagetable))"

definition uvmfirst :: "uint64 \<Rightarrow> uchar list \<Rightarrow> (unit, 'a kmem_scheme) kmonad" where
  "uvmfirst pagetable src =
     (if unat PGSIZE \<le> length src then panic ''uvmfirst: more than a page'' else
      bnd kalloc (\<lambda>m.
      thn (zero_page m) (
      bnd (mappages pagetable 0 PGSIZE m (PTE_W OR PTE_R OR PTE_X OR PTE_U)) (\<lambda>_.
      writes (\<lambda>s. s\<lparr>pmem := putbytes (pmem s) m src\<rparr>)))))"

text \<open>
  \<^verbatim>\<open>int npages\<close> holds the page count of \<^verbatim>\<open>uvmdealloc\<close>; the sizes it is called with are at most
  \<^verbatim>\<open>MAXVA\<close>, so the conversion to \<^verbatim>\<open>int\<close> and back is written out as the signed 32-bit truncation it is.
\<close>

definition uvmdealloc :: "uint64 \<Rightarrow> uint64 \<Rightarrow> uint64 \<Rightarrow> (uint64, 'a kmem_scheme) kmonad" where
  "uvmdealloc pagetable oldsz newsz =
     (if oldsz \<le> newsz then ret oldsz else
      thn (mwhen (PGROUNDUP newsz < PGROUNDUP oldsz)
            (uvmunmap pagetable (PGROUNDUP newsz)
              (scast (ucast ((PGROUNDUP oldsz - PGROUNDUP newsz) div PGSIZE) :: 32 word)) True))
          (ret newsz))"

lemma mappages_loop_va: "mappages_loop pagetable a lst pa perm s = Ok r t \<Longrightarrow> a < MAXVA"
  by (subst (asm) mappages_loop.simps) (auto simp: bnd_eq_Ok dest: walk_va)

lemma mappages_va: "mappages pagetable va sz pa perm s = Ok r t \<Longrightarrow> va < MAXVA"
  by (auto simp: mappages_def panic_def dest: mappages_loop_va split: if_splits)

function uvmalloc_loop ::
    "uint64 \<Rightarrow> uint64 \<Rightarrow> uint64 \<Rightarrow> uint64 \<Rightarrow> uint64 \<Rightarrow> (uint64, 'a kmem_scheme) kmonad" where
  "uvmalloc_loop pagetable a oldsz newsz xperm s =
     (if \<not> a < newsz then Ok newsz s else
      bnd kalloc (\<lambda>m.
      if m = 0 then bnd (uvmdealloc pagetable a oldsz) (\<lambda>_. ret 0) else
      thn (zero_page m) (
      bnd (mappages pagetable a PGSIZE m (PTE_R OR PTE_U OR xperm)) (\<lambda>r.
      if r \<noteq> 0 then thn (kfree m) (bnd (uvmdealloc pagetable a oldsz) (\<lambda>_. ret 0))
      else uvmalloc_loop pagetable (a + PGSIZE) oldsz newsz xperm))) s)"
  by pat_completeness auto
termination
  by (relation "measure (\<lambda>(pt, a, o', n, x, s). room a)")
    (auto dest!: mappages_va intro: next_page_measure)

declare uvmalloc_loop.simps [simp del]

definition uvmalloc :: "uint64 \<Rightarrow> uint64 \<Rightarrow> uint64 \<Rightarrow> uint64 \<Rightarrow> (uint64, 'a kmem_scheme) kmonad" where
  "uvmalloc pagetable oldsz newsz xperm =
     (if newsz < oldsz then ret oldsz
      else uvmalloc_loop pagetable (PGROUNDUP oldsz) (PGROUNDUP oldsz) newsz xperm)"

text \<open>
  \<^verbatim>\<open>freewalk\<close> calls itself once per level of the table. The kernel stack is one page and a frame takes
  at least 32 bytes, so a recursion deeper than 128 overruns the stack; a table made by \<^verbatim>\<open>walk\<close> has depth 3.
\<close>

primrec freewalk_rec :: "nat \<Rightarrow> uint64 \<Rightarrow> (unit, 'a kmem_scheme) kmonad" where
  "freewalk_rec 0 pagetable = undef ''kernel stack overflow''"
| "freewalk_rec (Suc d) pagetable =
     thn (foreach [0..<512] (\<lambda>i.
            bnd (rd64 (pagetable + 8 * of_nat i)) (\<lambda>pte.
            if pte AND PTE_V \<noteq> 0 \<and> pte AND (PTE_R OR PTE_W OR PTE_X) = 0 then
              thn (freewalk_rec d (PTE2PA pte)) (wr64 (pagetable + 8 * of_nat i) 0)
            else if pte AND PTE_V \<noteq> 0 then panic ''freewalk: leaf''
            else ret ())))
         (kfree pagetable)"

definition freewalk :: "uint64 \<Rightarrow> (unit, 'a kmem_scheme) kmonad" where
  "freewalk pagetable = freewalk_rec 128 pagetable"

definition uvmfree :: "uint64 \<Rightarrow> uint64 \<Rightarrow> (unit, 'a kmem_scheme) kmonad" where
  "uvmfree pagetable sz =
     thn (mwhen (0 < sz) (uvmunmap pagetable 0 (PGROUNDUP sz div PGSIZE) True))
         (freewalk pagetable)"

definition uvmcopy_err :: "uint64 \<Rightarrow> uint64 \<Rightarrow> (int, 'a kmem_scheme) kmonad" where
  "uvmcopy_err new i = thn (uvmunmap new 0 (i div PGSIZE) True) (ret (-1))"

function uvmcopy_loop :: "uint64 \<Rightarrow> uint64 \<Rightarrow> uint64 \<Rightarrow> uint64 \<Rightarrow> (int, 'a kmem_scheme) kmonad" where
  "uvmcopy_loop old new i sz s =
     (if \<not> i < sz then Ok 0 s else
      bnd (walk old i False) (\<lambda>pte.
      if pte = 0 then panic ''uvmcopy: pte should exist'' else
      bnd (rd64 pte) (\<lambda>e.
      if e AND PTE_V = 0 then panic ''uvmcopy: page not present'' else
      bnd kalloc (\<lambda>m.
      if m = 0 then uvmcopy_err new i else
      thn (writes (\<lambda>s. s\<lparr>pmem := memmove (pmem s) m (PTE2PA e) (unat PGSIZE)\<rparr>)) (
      bnd (mappages new i PGSIZE m (PTE_FLAGS e)) (\<lambda>r.
      if r \<noteq> 0 then thn (kfree m) (uvmcopy_err new i)
      else uvmcopy_loop old new (i + PGSIZE) sz))))) s)"
  by pat_completeness auto
termination
  by (relation "measure (\<lambda>(old, new, i, sz, s). room i)")
    (auto dest!: walk_va intro: next_page_measure)

declare uvmcopy_loop.simps [simp del]

definition uvmcopy :: "uint64 \<Rightarrow> uint64 \<Rightarrow> uint64 \<Rightarrow> (int, 'a kmem_scheme) kmonad" where
  "uvmcopy old new sz = uvmcopy_loop old new 0 sz"

definition uvmclear :: "uint64 \<Rightarrow> uint64 \<Rightarrow> (unit, 'a kmem_scheme) kmonad" where
  "uvmclear pagetable va =
     bnd (walk pagetable va False) (\<lambda>pte.
     if pte = 0 then panic ''uvmclear'' else
     bnd (rd64 pte) (\<lambda>e. wr64 pte (e AND NOT PTE_U)))"

section \<open>Copying between kernel and user memory\<close>

text \<open>
  The kernel side of a copy is the list of bytes at the kernel pointer: \<^verbatim>\<open>src\<close> and \<^verbatim>\<open>len\<close> of
  \<open>copyout\<close> are the list and its length. \<open>copyin\<close> returns its result and the bytes it has stored at
  \<^verbatim>\<open>dst\<close>, which after a fault in a later page are those of the pages before it; \<open>copyinstr\<close> returns the
  string, and \<open>None\<close> for \<open>-1\<close>. The kernel's buffers are never inside the user's pages.
\<close>

lemma page_offset: "unat (a - PGROUNDDOWN a) = unat a mod 4096"
proof -
  have "unat (PGROUNDDOWN a) \<le> unat a" by (simp add: unat_PGROUNDDOWN)
  then have "unat (a - PGROUNDDOWN a) = unat a - unat a div 4096 * 4096"
    by (simp add: unat_sub word_le_nat_alt unat_PGROUNDDOWN)
  then show ?thesis by (simp add: minus_div_mult_eq_mod)
qed

lemma page_rest: "unat (PGSIZE - (a - PGROUNDDOWN a)) = 4096 - unat a mod 4096"
  by (subst unat_sub) (simp_all add: page_offset PGSIZE_def word_le_nat_alt less_imp_le)

lemma page_rest_pos: "0 < unat (PGSIZE - (a - PGROUNDDOWN a))"
  by (simp add: page_rest)

function copyout :: "uint64 \<Rightarrow> uint64 \<Rightarrow> uchar list \<Rightarrow> (int, 'a kmem_scheme) kmonad" where
  "copyout pagetable dstva src s =
     (if src = [] then Ok 0 s else
      let va0 = PGROUNDDOWN dstva in
      if MAXVA \<le> va0 then Ok (-1) s else
      bnd (walk pagetable va0 False) (\<lambda>pte.
      if pte = 0 then ret (-1) else
      bnd (rd64 pte) (\<lambda>e.
      if e AND PTE_V = 0 \<or> e AND PTE_U = 0 \<or> e AND PTE_W = 0 then ret (-1) else
      let n = min (unat (PGSIZE - (dstva - va0))) (length src) in
      thn (writes (\<lambda>s. s\<lparr>pmem := putbytes (pmem s) (PTE2PA e + (dstva - va0)) (take n src)\<rparr>))
          (copyout pagetable (va0 + PGSIZE) (drop n src)))) s)"
  by pat_completeness auto
termination
  by (relation "measure (\<lambda>(pt, va, src, s). length src)") (auto simp: page_rest)

declare copyout.simps [simp del]

function copyin :: "uint64 \<Rightarrow> uint64 \<Rightarrow> nat \<Rightarrow> (int \<times> uchar list, 'a kmem_scheme) kmonad" where
  "copyin pagetable srcva len s =
     (if len = 0 then Ok (0, []) s else
      let va0 = PGROUNDDOWN srcva in
      bnd (walkaddr pagetable va0) (\<lambda>pa0.
      if pa0 = 0 then ret (-1, []) else
      let n = min (unat (PGSIZE - (srcva - va0))) len in
      bnd (reads (\<lambda>s. getbytes (pmem s) (pa0 + (srcva - va0)) n)) (\<lambda>bs.
      bnd (copyin pagetable (va0 + PGSIZE) (len - n)) (\<lambda>r.
      ret (fst r, bs @ snd r)))) s)"
  by pat_completeness auto
termination
  by (relation "measure (\<lambda>(pt, va, len, s). len)") (auto simp: page_rest)

declare copyin.simps [simp del]

text \<open>
  The inner loop of \<^verbatim>\<open>copyinstr\<close> on the \<open>n\<close> bytes at \<open>p\<close>: the bytes stored, including the NUL, and
  whether a NUL was found.
\<close>

primrec scan_nul :: "mem \<Rightarrow> uint64 \<Rightarrow> nat \<Rightarrow> uchar list \<times> bool" where
  "scan_nul m p 0 = ([], False)"
| "scan_nul m p (Suc n) =
     (if m p = 0 then ([0], True)
      else let (bs, got) = scan_nul m (p + 1) n in (m p # bs, got))"

function copyinstr :: "uint64 \<Rightarrow> uint64 \<Rightarrow> nat \<Rightarrow> (uchar list option, 'a kmem_scheme) kmonad" where
  "copyinstr pagetable srcva mx s =
     (if mx = 0 then Ok None s else
      let va0 = PGROUNDDOWN srcva in
      bnd (walkaddr pagetable va0) (\<lambda>pa0.
      if pa0 = 0 then ret None else
      let n = min (unat (PGSIZE - (srcva - va0))) mx in
      bnd (reads (\<lambda>s. scan_nul (pmem s) (pa0 + (srcva - va0)) n)) (\<lambda>r.
      if snd r then ret (Some (fst r)) else
      bnd (copyinstr pagetable (va0 + PGSIZE) (mx - n)) (\<lambda>q.
      ret (map_option ((@) (fst r)) q)))) s)"
  by pat_completeness auto
termination
  by (relation "measure (\<lambda>(pt, va, mx, s). mx)") (auto simp: page_rest)

declare copyinstr.simps [simp del]

end
