(* ===== verification/Pagetable.thy ===== *)
theory Pagetable
  imports VM
begin

text \<open>
  What a page table means. \<open>wlk\<close> is the address of the entry for a virtual address, \<open>pte_at\<close> the entry
  itself; \<open>pt_wf\<close> says that the table is a tree of page-table pages with the given footprint. The
  lemmas show that allocating intermediate tables does not change the meaning of a table and that a
  store to an entry changes the meaning of exactly one page.
\<close>

section \<open>Slots of a page-table page\<close>

lemma unat_PX: "unat (PX l va) = unat va div 2 ^ PXSHIFT l mod 512"
proof -
  have "PX l va = take_bit 9 (drop_bit (PXSHIFT l) va)"
    by (simp add: PX_def PXMASK_def take_bit_eq_mask mask_eq_exp_minus_1)
  then have "unat (PX l va) = take_bit 9 (unat (drop_bit (PXSHIFT l) va))"
    by (simp only: unsigned_take_bit_eq)
  then show ?thesis
    by (simp only: unat_drop_bit_eq) (simp add: take_bit_eq_mod drop_bit_eq_div)
qed

lemma PX_lt: "unat (PX l va) < 512"
  by (simp add: unat_PX)

lemma slot_byte:
  assumes "aligned pt" and "unat i < 512" and "k < 8"
  shows "pt + 8 * i + of_nat k = pt + of_nat (8 * unat i + k)"
  by (simp add: algebra_simps)

lemma slot_page:
  assumes "aligned pt" and "unat i < 512" and "k < 8"
  shows "pageno (pt + 8 * i + of_nat k) = pageno pt"
  unfolding slot_byte [OF assms] using assms by (intro pageno_add) simp_all

lemma unat_slot: "aligned pt \<Longrightarrow> unat i < 512 \<Longrightarrow> unat (pt + 8 * i) = unat pt + 8 * unat i"
  using slot_byte [of pt i 0] unat_page_add [of pt "8 * unat i"] by simp

lemma slot_page0: "aligned pt \<Longrightarrow> unat i < 512 \<Longrightarrow> pageno (pt + 8 * i) = pageno pt"
  using slot_page [of pt i 0] by simp

lemma slot_nonzero: "aligned pt \<Longrightarrow> pt \<noteq> 0 \<Longrightarrow> unat i < 512 \<Longrightarrow> pt + 8 * i \<noteq> 0"
  using unat_slot [of pt i] by (metis add_is_0 unat_eq_0)

lemma load_slot_cong:
  assumes "aligned pt" and "unat i < 512" and "\<And>x. pageno x = pageno pt \<Longrightarrow> m x = m' x"
  shows "load64 m (pt + 8 * i) = load64 m' (pt + 8 * i)"
  using assms by (intro load64_cong) (simp add: slot_page)

lemma apart8:
  fixes a b :: uint64
  assumes "unat a + 8 \<le> unat b" and "unat b + 8 \<le> 2 ^ 64"
  shows "8 \<le> unat (b - a) \<and> 8 \<le> unat (a - b)"
proof -
  have "a < b" using assms(1) by (simp add: word_less_nat_alt)
  with assms show ?thesis unfolding unat_diff_swap [OF \<open>a < b\<close>] by linarith
qed

lemma load_slot_other:
  assumes "aligned p" and "aligned q" and "unat i < 512" and "unat j < 512" and "p \<noteq> q \<or> i \<noteq> j"
  shows "load64 (store64 m (p + 8 * i) v) (q + 8 * j) = load64 m (q + 8 * j)"
proof -
  let ?a = "p + 8 * i" and ?b = "q + 8 * j"
  have u: "unat ?a = unat p + 8 * unat i" "unat ?b = unat q + 8 * unat j"
    using assms by (simp_all add: unat_slot)
  have "unat p = 4096 * pageno p" "unat q = 4096 * pageno q"
    using assms by (auto simp: aligned_unat pageno_def)
  moreover have "pageno p \<noteq> pageno q \<or> unat i \<noteq> unat j"
    using assms pageno_inj by (metis word_unat_eq_iff)
  ultimately have d: "unat ?a + 8 \<le> unat ?b \<or> unat ?b + 8 \<le> unat ?a"
    using u assms(3,4) by (cases "pageno p" "pageno q" rule: linorder_cases) (auto simp: nat_neq_iff)
  have top: "unat ?a + 8 \<le> 2 ^ 64" "unat ?b + 8 \<le> 2 ^ 64"
    using u assms aligned_room [of p "8 * unat i + 7"] aligned_room [of q "8 * unat j + 7"] by simp_all
  from d have "8 \<le> unat (?b - ?a) \<and> 8 \<le> unat (?a - ?b)"
  proof
    assume "unat ?a + 8 \<le> unat ?b"
    then show ?thesis using apart8 [of ?a ?b] top by blast
  next
    assume "unat ?b + 8 \<le> unat ?a"
    then show ?thesis using apart8 [of ?b ?a] top by blast
  qed
  then show ?thesis by (intro load64_store64_other) simp_all
qed

lemma aligned_PTE2PA [simp]: "aligned (PTE2PA e)"
proof -
  have "PTE2PA e mod 2 ^ 12 = take_bit 12 (push_bit 12 (drop_bit 10 e))"
    by (simp add: PTE2PA_def take_bit_eq_mod)
  then show ?thesis by (simp add: aligned_def PGSIZE_def take_bit_push_bit)
qed

lemma PTE2PA_PA2PTE:
  assumes "aligned p" and "p < PHYSTOP" and "f < 1024"
  shows "PTE2PA (PA2PTE p OR f) = p"
proof (rule bit_word_eqI)
  fix n assume "n < LENGTH(64)"
  have lo: "\<not> bit p n" if "n < 12" for n
  proof -
    have "take_bit 12 p = 0" using assms(1) by (simp add: aligned_def PGSIZE_def take_bit_eq_mod)
    then show ?thesis using that by (metis bit_take_bit_iff bit_0_eq bot_apply bot_bool_def)
  qed
  have hi: "\<not> bit p n" if "32 \<le> n" for n
  proof -
    have "take_bit 32 p = p"
      using assms(2) by (simp add: take_bit_eq_mod word_mod_less_divisor PHYSTOP_def KERNBASE_def word_unat_eq_iff unat_mod word_less_nat_alt)
    then show ?thesis using that by (metis bit_take_bit_iff not_le)
  qed
  have f: "\<not> bit f n" if "10 \<le> n" for n
  proof -
    have "take_bit 10 f = f"
      using assms(3) by (simp add: take_bit_eq_mod word_unat_eq_iff unat_mod word_less_nat_alt)
    then show ?thesis using that by (metis bit_take_bit_iff not_le)
  qed
  show "bit (PTE2PA (PA2PTE p OR f)) n = bit p n"
    using lo [of n] hi [of n] f \<open>n < LENGTH(64)\<close>
    by (cases "n < 12") (auto simp: PTE2PA_def PA2PTE_def bit_push_bit_iff bit_drop_bit_eq bit_or_iff)
qed

text \<open>The flag tests of the code read single bits.\<close>

lemma pte_bits:
  "e AND PTE_V = 0 \<longleftrightarrow> \<not> bit e 0" "e AND PTE_R = 0 \<longleftrightarrow> \<not> bit e 1" "e AND PTE_W = 0 \<longleftrightarrow> \<not> bit e 2"
  "e AND PTE_X = 0 \<longleftrightarrow> \<not> bit e 3" "e AND PTE_U = 0 \<longleftrightarrow> \<not> bit e 4"
  using bit_iff_and_push_bit_not_eq_0 [of e]
  by (simp_all only: PTE_V_def PTE_R_def PTE_W_def PTE_X_def PTE_U_def) auto

section \<open>The meaning of a table\<close>

primrec wlk :: "nat \<Rightarrow> mem \<Rightarrow> uint64 \<Rightarrow> uint64 \<Rightarrow> uint64" where
  "wlk 0 m pt va = pt + 8 * PX 0 va"
| "wlk (Suc l) m pt va =
     (let e = load64 m (pt + 8 * PX (Suc l) va)
      in if e AND PTE_V \<noteq> 0 then wlk l m (PTE2PA e) va else 0)"

definition pte_at :: "nat \<Rightarrow> mem \<Rightarrow> uint64 \<Rightarrow> uint64 \<Rightarrow> uint64" where
  "pte_at l m pt va = (if wlk l m pt va = 0 then 0 else load64 m (wlk l m pt va))"

lemma walk_loop_lookup [kstep]: "walk_loop l pt va False s = Ok (wlk l (pmem s) pt va) s"
  by (induction l arbitrary: pt) (simp_all add: kstep rd64_def Let_def)

text \<open>
  \<open>pt_wf l m pt S\<close>: the table at \<open>pt\<close> with \<open>l\<close> levels below it is a tree whose pages are exactly \<open>S\<close>.
\<close>

definition valid :: "mem \<Rightarrow> uint64 \<Rightarrow> uint64 \<Rightarrow> bool" where
  "valid m pt i \<longleftrightarrow> load64 m (pt + 8 * i) AND PTE_V \<noteq> 0"

definition child :: "mem \<Rightarrow> uint64 \<Rightarrow> uint64 \<Rightarrow> uint64" where
  "child m pt i = PTE2PA (load64 m (pt + 8 * i))"

definition pt_node ::
    "(uint64 \<Rightarrow> uint64 set \<Rightarrow> bool) \<Rightarrow> mem \<Rightarrow> uint64 \<Rightarrow> (uint64 \<Rightarrow> uint64 set) \<Rightarrow> uint64 set \<Rightarrow> bool" where
  "pt_node sub m pt F S \<longleftrightarrow> aligned pt \<and> pt \<noteq> 0 \<and>
     (\<forall>i. unat i < 512 \<longrightarrow> (if valid m pt i then sub (child m pt i) (F i) else F i = {})) \<and>
     (\<forall>i j. unat i < 512 \<longrightarrow> unat j < 512 \<longrightarrow> i \<noteq> j \<longrightarrow> F i \<inter> F j = {}) \<and>
     (\<forall>i. unat i < 512 \<longrightarrow> pt \<notin> F i) \<and>
     S = insert pt (\<Union>i\<in>{i. unat i < 512}. F i)"

primrec pt_wf :: "nat \<Rightarrow> mem \<Rightarrow> uint64 \<Rightarrow> uint64 set \<Rightarrow> bool" where
  "pt_wf 0 m pt S \<longleftrightarrow> aligned pt \<and> pt \<noteq> 0 \<and> S = {pt}"
| "pt_wf (Suc l) m pt S \<longleftrightarrow> (\<exists>F. pt_node (pt_wf l m) m pt F S)"

lemma pt_nodeD:
  assumes "pt_node sub m pt F S"
  shows "aligned pt" "pt \<noteq> 0" "pt \<in> S"
    "unat i < 512 \<Longrightarrow> valid m pt i \<Longrightarrow> sub (child m pt i) (F i)"
    "unat i < 512 \<Longrightarrow> \<not> valid m pt i \<Longrightarrow> F i = {}"
    "unat i < 512 \<Longrightarrow> unat j < 512 \<Longrightarrow> i \<noteq> j \<Longrightarrow> F i \<inter> F j = {}"
    "unat i < 512 \<Longrightarrow> pt \<notin> F i"
    "unat i < 512 \<Longrightarrow> F i \<subseteq> S"
    "S = insert pt (\<Union>i\<in>{i. unat i < 512}. F i)"
  using assms by (auto simp: pt_node_def)

lemma wlk_Suc:
  "wlk (Suc l) m pt va =
     (if valid m pt (PX (Suc l) va) then wlk l m (child m pt (PX (Suc l) va)) va else 0)"
  by (simp add: valid_def child_def Let_def)

declare wlk.simps(2) [simp del]

lemma pt_wf_root: "pt_wf l m pt S \<Longrightarrow> aligned pt \<and> pt \<noteq> 0 \<and> pt \<in> S"
  by (cases l) (auto dest: pt_nodeD)

lemma pt_wf_aligned: "pt_wf l m pt S \<Longrightarrow> x \<in> S \<Longrightarrow> aligned x \<and> x \<noteq> 0"
proof (induction l arbitrary: pt S)
  case (Suc l)
  then obtain F where F: "pt_node (pt_wf l m) m pt F S" by auto
  from Suc.prems(2) pt_nodeD(9) [OF F] consider "x = pt" | i where "unat i < 512" "x \<in> F i" by auto
  then show ?case
  proof cases
    case 2
    then have "pt_wf l m (child m pt i) (F i)" using pt_nodeD(4,5) [OF F] by blast
    then show ?thesis using 2(2) by (rule Suc.IH)
  qed (use pt_nodeD [OF F] in simp)
qed auto

lemma valid_child_cong:
  assumes "aligned pt" and "unat i < 512" and "\<And>x. pageno x = pageno pt \<Longrightarrow> m x = m' x"
  shows "valid m' pt i = valid m pt i" and "child m' pt i = child m pt i"
  using load_slot_cong [of pt i m m'] assms by (simp_all add: valid_def child_def)

lemma pt_wf_cong:
  assumes "pt_wf l m pt S" and "\<And>x. pageno x \<in> pageno ` S \<Longrightarrow> m x = m' x"
  shows "pt_wf l m' pt S"
  using assms
proof (induction l arbitrary: pt S)
  case (Suc l)
  then obtain F where F: "pt_node (pt_wf l m) m pt F S" by auto
  note D = pt_nodeD [OF F]
  have "pt_wf l m' c (F i)" if "pt_wf l m c (F i)" "unat i < 512" for c i
    using that(1) by (rule Suc.IH) (use Suc.prems(2) D(8) that(2) in blast)
  moreover have "valid m' pt i = valid m pt i" "child m' pt i = child m pt i" if "unat i < 512" for i
    using valid_child_cong [OF D(1) that, of m m'] Suc.prems(2) D(3) by auto
  ultimately have "pt_node (pt_wf l m') m' pt F S"
    using F by (simp add: pt_node_def)
  then show ?case by auto
qed simp

lemma wlk_cong:
  assumes "pt_wf l m pt S" and "\<And>x. pageno x \<in> pageno ` S \<Longrightarrow> m x = m' x"
  shows "wlk l m' pt va = wlk l m pt va"
  using assms
proof (induction l arbitrary: pt S)
  case (Suc l)
  let ?i = "PX (Suc l) va"
  obtain F where F: "pt_node (pt_wf l m) m pt F S" using Suc.prems(1) by auto
  note D = pt_nodeD [OF F]
  have "wlk l m' c va = wlk l m c va" if "pt_wf l m c (F ?i)" for c
    using that by (rule Suc.IH) (use Suc.prems(2) D(8) PX_lt in blast)
  moreover have "valid m' pt ?i = valid m pt ?i" "child m' pt ?i = child m pt ?i"
    using valid_child_cong [OF D(1) PX_lt, of m m'] Suc.prems(2) D(3) by auto
  ultimately show ?case using D(4) [OF PX_lt] by (simp add: wlk_Suc)
qed simp

text \<open>The entry found lies in a page of the table, and it is a slot.\<close>

lemma wlk_slot:
  assumes "pt_wf l m pt S" and "wlk l m pt va \<noteq> 0"
  shows "\<exists>p\<in>S. aligned p \<and> wlk l m pt va = p + 8 * PX 0 va"
  using assms
proof (induction l arbitrary: pt S)
  case (Suc l)
  then obtain F where F: "pt_node (pt_wf l m) m pt F S" by auto
  from Suc.prems(2) have "valid m pt (PX (Suc l) va)" "wlk l m (child m pt (PX (Suc l) va)) va \<noteq> 0"
    by (auto simp: wlk_Suc split: if_splits)
  with Suc.IH [OF pt_nodeD(4) [OF F PX_lt]] pt_nodeD(8) [OF F PX_lt] show ?case
    by (fastforce simp: wlk_Suc)
qed auto

lemma pte_at_cong:
  assumes "pt_wf l m pt S" and "\<And>x. pageno x \<in> pageno ` S \<Longrightarrow> m x = m' x"
  shows "pte_at l m' pt va = pte_at l m pt va"
proof (cases "wlk l m pt va = 0")
  case False
  then obtain p where p: "p \<in> S" "aligned p" "wlk l m pt va = p + 8 * PX 0 va"
    using wlk_slot [OF assms(1)] by blast
  then have "load64 m' (p + 8 * PX 0 va) = load64 m (p + 8 * PX 0 va)"
    using assms(2) PX_lt by (intro load_slot_cong) auto
  with p show ?thesis by (simp add: pte_at_def wlk_cong [OF assms])
qed (simp add: pte_at_def wlk_cong [OF assms])

section \<open>Storing an entry\<close>

definition same_px :: "nat \<Rightarrow> uint64 \<Rightarrow> uint64 \<Rightarrow> bool" where
  "same_px l va va' \<longleftrightarrow> (\<forall>k\<le>l. PX k va = PX k va')"

lemma pte_at_Suc:
  "pte_at (Suc l) m pt va =
     (if valid m pt (PX (Suc l) va) then pte_at l m (child m pt (PX (Suc l) va)) va else 0)"
  by (simp add: pte_at_def wlk_Suc)

lemma same_px_0: "same_px 0 va va' \<longleftrightarrow> PX 0 va = PX 0 va'"
  by (simp add: same_px_def)

lemma same_px_Suc: "same_px (Suc l) va va' \<longleftrightarrow> PX (Suc l) va = PX (Suc l) va' \<and> same_px l va va'"
  by (auto simp: same_px_def le_Suc_eq)

text \<open>A store to a slot of one page leaves every other page as it is.\<close>

lemma store64_outside:
  assumes "aligned p" and "unat i < 512" and "pageno x \<noteq> pageno p"
  shows "store64 m (p + 8 * i) v x = m x"
proof -
  have "\<not> unat (x - (p + 8 * i)) < 8"
  proof
    assume k: "unat (x - (p + 8 * i)) < 8"
    have "pageno (p + 8 * i + of_nat (unat (x - (p + 8 * i)))) = pageno p"
      using assms k by (intro slot_page)
    then show False using assms(3) by simp
  qed
  then show ?thesis by (simp add: store64_def)
qed

lemma pageno_disjoint:
  assumes "\<And>x. x \<in> A \<Longrightarrow> aligned x" and "\<And>x. x \<in> B \<Longrightarrow> aligned x" and "A \<inter> B = {}"
    and "p \<in> A" and "pageno x \<in> pageno ` B"
  shows "pageno x \<noteq> pageno p"
proof
  assume e: "pageno x = pageno p"
  obtain b where b: "b \<in> B" "pageno x = pageno b" using assms(5) by blast
  have "p = b" using e b assms(1,2,4) by (intro pageno_inj) simp_all
  with b(1) assms(3,4) show False by blast
qed

lemma store_pte_all:
  assumes "pt_wf l m pt S" and "wlk l m pt va \<noteq> 0"
  shows "pt_wf l (store64 m (wlk l m pt va) v) pt S \<and>
    pte_at l (store64 m (wlk l m pt va) v) pt va' =
      (if same_px l va va' then v else pte_at l m pt va') \<and>
    wlk l (store64 m (wlk l m pt va) v) pt va' = wlk l m pt va'"
  using assms
proof (induction l arbitrary: pt S)
  case 0
  then have pt: "aligned pt" "pt \<noteq> 0" by simp_all
  then have "pt + 8 * PX 0 va' \<noteq> 0" using slot_nonzero PX_lt by blast
  with pt 0 show ?case
    by (auto simp: pte_at_def same_px_0 load64_store64_same load_slot_other PX_lt)
next
  case (Suc l)
  note wf = Suc.prems(1) and nz = Suc.prems(2)
  let ?i = "PX (Suc l) va" and ?a = "wlk (Suc l) m pt va"
  let ?m = "store64 m ?a v"
  obtain F where F: "pt_node (pt_wf l m) m pt F S" using wf by auto
  note D = pt_nodeD [OF F]
  let ?c = "child m pt ?i"
  have v: "valid m pt ?i" and a: "?a = wlk l m ?c va" "wlk l m ?c va \<noteq> 0"
    using nz by (auto simp: wlk_Suc split: if_splits)
  have c: "pt_wf l m ?c (F ?i)" using D(4) v PX_lt by blast
  obtain p where p: "p \<in> F ?i" "aligned p" "?a = p + 8 * PX 0 va"
    using wlk_slot [OF c a(2)] a(1) by auto
  have out: "?m x = m x" if "pageno x \<noteq> pageno p" for x
    unfolding p(3) using p(2) PX_lt that by (rule store64_outside)
  have al: "aligned x" if "x \<in> S" for x using pt_wf_aligned [OF wf that] ..
  have rt: "valid ?m pt i = valid m pt i" "child ?m pt i = child m pt i" if "unat i < 512" for i
  proof -
    have "pageno pt \<noteq> pageno p"
      using pageno_inj [OF D(1) p(2)] D(7) [OF PX_lt] p(1) by blast
    then show "valid ?m pt i = valid m pt i" "child ?m pt i = child m pt i"
      using valid_child_cong [OF D(1) that, of m ?m] out by auto
  qed
  have other: "m x = ?m x" if "unat j < 512" "j \<noteq> ?i" "pageno x \<in> pageno ` F j" for j x
  proof -
    have "pageno x \<noteq> pageno p"
    proof (rule pageno_disjoint [of "F ?i" "F j"])
      show "aligned y" if "y \<in> F ?i" for y using al D(8) [OF PX_lt] that by blast
      show "aligned y" if "y \<in> F j" for y using al D(8) [OF \<open>unat j < 512\<close>] that by blast
      show "F ?i \<inter> F j = {}" using that(2) by (intro D(6) PX_lt that(1)) auto
    qed (rule p(1), rule that(3))
    then show ?thesis using out by simp
  qed
  have "pt_node (pt_wf l ?m) ?m pt F S"
    unfolding pt_node_def
  proof (intro conjI allI impI)
    fix i :: uint64 assume i: "unat i < 512"
    show "if valid ?m pt i then pt_wf l ?m (child ?m pt i) (F i) else F i = {}"
    proof (cases "i = ?i")
      case True
      with Suc.IH [OF c a(2)] v rt [OF i] a(1) show ?thesis by simp
    next
      case False
      with D(4,5) [OF i] rt [OF i] other [OF i] show ?thesis
        by (auto intro: pt_wf_cong)
    qed
  qed (use F in \<open>auto simp: pt_node_def\<close>)
  moreover have "wlk (Suc l) ?m pt va' = wlk (Suc l) m pt va' \<and>
      pte_at (Suc l) ?m pt va' = (if same_px (Suc l) va va' then v else pte_at (Suc l) m pt va')"
  proof (cases "PX (Suc l) va' = ?i")
    case True
    with Suc.IH [OF c a(2)] v rt [OF PX_lt, of "Suc l" va] show ?thesis
      unfolding wlk_Suc [of l _ pt va'] pte_at_Suc same_px_Suc True a(1) by simp
  next
    case False
    let ?j = "PX (Suc l) va'"
    have "wlk l ?m (child m pt ?j) va' = wlk l m (child m pt ?j) va'"
      "pte_at l ?m (child m pt ?j) va' = pte_at l m (child m pt ?j) va'" if "valid m pt ?j"
      using wlk_cong [OF D(4) [OF PX_lt that] other [OF PX_lt False]]
        pte_at_cong [OF D(4) [OF PX_lt that] other [OF PX_lt False]] by auto
    with rt [OF PX_lt, of "Suc l" va'] False show ?thesis
      unfolding wlk_Suc [of l _ pt va'] pte_at_Suc same_px_Suc by simp
  qed
  ultimately show ?case by auto
qed

lemmas store_pte = store_pte_all [THEN conjunct1]
  store_pte_all [THEN conjunct2, THEN conjunct1]
  store_pte_all [THEN conjunct2, THEN conjunct2]

section \<open>Allocating intermediate tables\<close>

lemma pt_zero:
  assumes "aligned p" and "p \<noteq> 0" and z: "\<And>x. pageno x = pageno p \<Longrightarrow> m x = 0"
  shows "pt_wf l m p {p}" and "pte_at l m p va = 0"
proof -
  have "load64 m (p + 8 * i) = 0" if "unat i < 512" for i
  proof (rule bit_word_eqI)
    fix n assume "n < LENGTH(64)"
    then have "n div 8 < 8" by (simp add: less_mult_imp_div_less)
    then have "m (p + 8 * i + of_nat (n div 8)) = 0"
      using assms(1) that by (intro z slot_page)
    then show "bit (load64 m (p + 8 * i)) n = bit 0 n" by (simp add: bit_load64)
  qed
  then have v: "load64 m (p + 8 * i) = 0" "\<not> valid m p i" if "unat i < 512" for i
    using that by (simp_all add: valid_def)
  show "pt_wf l m p {p}"
  proof (cases l)
    case (Suc k)
    have "pt_node (pt_wf k m) m p (\<lambda>_. {}) {p}"
      using assms(1,2) v by (simp add: pt_node_def)
    then show ?thesis unfolding Suc pt_wf.simps by blast
  qed (use assms in simp)
  show "pte_at l m p va = 0"
    using v [OF PX_lt] by (cases l) (simp_all add: wlk_Suc pte_at_def)
qed

lemma node_update:
  assumes F: "pt_node (pt_wf l m) m pt F S" and i: "unat i < 512"
    and slots: "\<And>j. unat j < 512 \<Longrightarrow> j \<noteq> i \<Longrightarrow> valid m' pt j = valid m pt j \<and> child m' pt j = child m pt j"
    and v: "valid m' pt i" and sub: "pt_wf l m' (child m' pt i) G"
    and G: "F i \<subseteq> G" "pt \<notin> G" "\<And>j. unat j < 512 \<Longrightarrow> j \<noteq> i \<Longrightarrow> F j \<inter> G = {}"
    and same: "\<And>j x. unat j < 512 \<Longrightarrow> j \<noteq> i \<Longrightarrow> pageno x \<in> pageno ` F j \<Longrightarrow> m x = m' x"
  shows "pt_wf (Suc l) m' pt (S \<union> G)"
    and "PX (Suc l) va \<noteq> i \<Longrightarrow> pte_at (Suc l) m' pt va = pte_at (Suc l) m pt va"
    and "PX (Suc l) va = i \<Longrightarrow> pte_at (Suc l) m' pt va = pte_at l m' (child m' pt i) va"
proof -
  note D = pt_nodeD [OF F]
  have "pt_node (pt_wf l m') m' pt (F(i := G)) (S \<union> G)"
    unfolding pt_node_def
  proof (intro conjI allI impI)
    fix j :: uint64 assume j: "unat j < 512"
    show "if valid m' pt j then pt_wf l m' (child m' pt j) ((F(i := G)) j) else (F(i := G)) j = {}"
    proof (cases "j = i")
      case False
      have "pt_wf l m' c (F j)" if "pt_wf l m c (F j)" for c
        using that by (rule pt_wf_cong) (rule same [OF j False])
      with False slots [OF j False] D(4,5) [OF j] show ?thesis by auto
    qed (use v sub in simp)
    show "pt \<notin> (F(i := G)) j" using D(7) [OF j] G(2) by simp
    show "(F(i := G)) j \<inter> (F(i := G)) k = {}" if "unat k < 512" "j \<noteq> k" for k
      using D(6) [OF j that(1)] G(3) [OF j] G(3) [OF that(1)] that(2) by auto
  next
    show "S \<union> G = insert pt (\<Union>k\<in>{k. unat k < 512}. (F(i := G)) k)"
    proof -
      have "(\<Union>k\<in>{k. unat k < 512}. (F(i := G)) k) = (\<Union>k\<in>{k. unat k < 512}. F k) \<union> G"
        using i G(1) by (auto split: if_splits)
      then show ?thesis using D(9) by auto
    qed
  qed (use D in simp_all)
  then show "pt_wf (Suc l) m' pt (S \<union> G)" by auto
  show "pte_at (Suc l) m' pt va = pte_at (Suc l) m pt va" if n: "PX (Suc l) va \<noteq> i"
  proof -
    let ?j = "PX (Suc l) va"
    have "pte_at l m' (child m pt ?j) va = pte_at l m (child m pt ?j) va" if "valid m pt ?j"
      using D(4) [OF PX_lt that] by (rule pte_at_cong) (rule same [OF PX_lt n])
    with slots [OF PX_lt n] show ?thesis by (simp add: pte_at_Suc)
  qed
  show "pte_at (Suc l) m' pt va = pte_at l m' (child m' pt i) va" if "PX (Suc l) va = i"
    using that v by (simp add: pte_at_Suc)
qed

abbreviation kready :: "'a kmem_scheme \<Rightarrow> bool" where
  "kready s \<equiv> base_ok s \<and> lk_free LkKmem s"

text \<open>
  What \<^verbatim>\<open>walk\<close> with \<^verbatim>\<open>alloc\<close> does: it takes \<open>n\<close> pages from the front of the free list into the table,
  leaves every entry of the table and all memory outside those pages and the table as it was, and
  returns the address of the entry, or 0 when the free list ran out.
\<close>

definition walked ::
    "nat \<Rightarrow> 'a kmem_scheme \<Rightarrow> uint64 list \<Rightarrow> uint64 \<Rightarrow> uint64 set \<Rightarrow> uint64 \<Rightarrow> uint64 \<Rightarrow> 'a kmem_scheme \<Rightarrow> nat \<Rightarrow> bool" where
  "walked l s ps pt S va r t n \<longleftrightarrow>
     (\<exists>m f. t = s\<lparr>pmem := m, freelist := f\<rparr>) \<and> kmem_list t (drop n ps) \<and> n \<le> length ps \<and>
     pt_wf l (pmem t) pt (S \<union> set (take n ps)) \<and>
     (\<forall>va'. pte_at l (pmem t) pt va' = pte_at l (pmem s) pt va') \<and>
     (\<forall>x. pageno x \<notin> pageno ` (S \<union> set (take n ps)) \<longrightarrow> pmem t x = pmem s x) \<and>
     (if r = 0 then n = length ps else r = wlk l (pmem t) pt va)"

text \<open>Linking a fresh page into an empty slot: the memory after \<^verbatim>\<open>kalloc\<close>, \<^verbatim>\<open>memset\<close> and the store.\<close>

definition link_st :: "uint64 \<Rightarrow> uint64 \<Rightarrow> 'a kmem_scheme \<Rightarrow> 'a kmem_scheme" where
  "link_st a p s = (kalloc_st s)\<lparr>pmem :=
     store64 (memset (pmem (kalloc_st s)) p 0 (unat PGSIZE)) a (PA2PTE p OR PTE_V)\<rparr>"

lemma link_st_mem:
  assumes "kmem_list s (p # ps)" and "aligned pt" and "pt \<noteq> p" and "unat i < 512"
  shows "pageno x \<noteq> pageno p \<Longrightarrow> pageno x \<noteq> pageno pt \<Longrightarrow> pmem (link_st (pt + 8 * i) p s) x = pmem s x"
    and "pageno x = pageno p \<Longrightarrow> pmem (link_st (pt + 8 * i) p s) x = 0"
    and "load64 (pmem (link_st (pt + 8 * i) p s)) (pt + 8 * i) = PA2PTE p OR PTE_V"
    and "unat j < 512 \<Longrightarrow> j \<noteq> i \<Longrightarrow>
      load64 (pmem (link_st (pt + 8 * i) p s)) (pt + 8 * j) = load64 (pmem s) (pt + 8 * j)"
proof -
  have p: "freelist s = p" "p \<noteq> 0" "aligned p" using assms(1) by (auto simp: kmem_list_def page_ok_def)
  have pg: "pageno pt \<noteq> pageno p" using assms(2,3) p(3) pageno_inj by blast
  let ?m0 = "memset (pmem (kalloc_st s)) p 0 (unat PGSIZE)"
  have m0: "?m0 x = pmem s x" if "pageno x \<noteq> pageno p" for x
    using that p by (simp add: kalloc_st_def memset_other_page)
  have m1: "pmem (link_st (pt + 8 * i) p s) = store64 ?m0 (pt + 8 * i) (PA2PTE p OR PTE_V)"
    by (simp add: link_st_def)
  have out: "pmem (link_st (pt + 8 * i) p s) x = ?m0 x" if "pageno x \<noteq> pageno pt" for x
    unfolding m1 using assms(2,4) that by (rule store64_outside)
  show "pmem (link_st (pt + 8 * i) p s) x = pmem s x" if "pageno x \<noteq> pageno p" "pageno x \<noteq> pageno pt"
    using out [OF that(2)] m0 [OF that(1)] by simp
  show "pmem (link_st (pt + 8 * i) p s) x = 0" if "pageno x = pageno p"
    using out [of x] that pg p(3) by (simp add: memset_eq PGSIZE_def in_page_iff)
  show "load64 (pmem (link_st (pt + 8 * i) p s)) (pt + 8 * i) = PA2PTE p OR PTE_V"
    by (simp add: m1 load64_store64_same)
  show "load64 (pmem (link_st (pt + 8 * i) p s)) (pt + 8 * j) = load64 (pmem s) (pt + 8 * j)"
    if "unat j < 512" "j \<noteq> i"
  proof -
    have "load64 ?m0 (pt + 8 * j) = load64 (pmem s) (pt + 8 * j)"
      using assms(2) that(1) pg by (intro load_slot_cong m0) auto
    with that assms show ?thesis by (simp add: m1 load_slot_other)
  qed
qed

lemma kmem_list_link:
  assumes "kmem_list s (p # ps)" and "aligned pt" and "unat i < 512" and "pt \<notin> set (p # ps)"
  shows "kmem_list (link_st (pt + 8 * i) p s) ps"
proof -
  have ok: "aligned q \<and> q \<noteq> 0" if "q \<in> set (p # ps)" for q
    using km.pool_pages [OF assms(1)] that by (auto simp: page_ok_def)
  have "load64 (pmem (link_st (pt + 8 * i) p s)) (q + 8 * 0) = load64 (pmem (kalloc_st s)) (q + 8 * 0)"
    if q: "q \<in> set ps" for q
  proof -
    have "q \<noteq> p" "q \<noteq> pt" using assms(1,4) q by (auto simp: kmem_list_def)
    then show ?thesis
      using ok q assms(2,3) load64_memset_other_page [of p q "pmem (kalloc_st s)" 0]
      by (simp add: link_st_def load_slot_other [where j = 0, simplified])
  qed
  then have "flist (pmem (link_st (pt + 8 * i) p s)) f ps = flist (pmem (kalloc_st s)) f ps" for f
    by (intro flist_cong) simp
  with kmem_list_kalloc [OF assms(1)] show ?thesis
    by (simp add: kmem_list_def link_st_def)
qed

lemma walk_loop_missing:
  assumes "kready s" and "kmem_list s ps" and "\<not> valid (pmem s) pt (PX (Suc l) va)"
  shows "walk_loop (Suc l) pt va True s =
    (case ps of [] \<Rightarrow> Ok 0 s | p # _ \<Rightarrow> walk_loop l p va True (link_st (pt + 8 * PX (Suc l) va) p s))"
proof -
  have "kalloc s = Ok (freelist s) (kalloc_st s)" using assms(1) by (simp add: kstep)
  moreover have "load64 (pmem s) (pt + 8 * PX (Suc l) va) AND PTE_V = 0"
    using assms(3) by (simp add: valid_def)
  ultimately show ?thesis
    using assms(2)
    by (cases ps)
      (auto simp: kstep rd64_def zero_page_def wr64_def link_st_def kmem_list_def kalloc_st_def)
qed

lemma walk_loop_present:
  "valid (pmem s) pt (PX (Suc l) va) \<Longrightarrow>
     walk_loop (Suc l) pt va b s = walk_loop l (child (pmem s) pt (PX (Suc l) va)) va b s"
  by (simp add: valid_def child_def kstep rd64_def)

lemma link_valid_child:
  assumes "kmem_list s (p # ps)" and "aligned pt" and "pt \<noteq> p" and "unat i < 512"
  shows "valid (pmem (link_st (pt + 8 * i) p s)) pt i"
    and "child (pmem (link_st (pt + 8 * i) p s)) pt i = p"
proof -
  have p: "aligned p" "p < PHYSTOP" using assms(1) by (auto simp: kmem_list_def page_ok_def)
  have "(PA2PTE p OR PTE_V) AND PTE_V \<noteq> 0"
    unfolding pte_bits by (simp add: bit_or_iff PTE_V_def)
  then show "valid (pmem (link_st (pt + 8 * i) p s)) pt i"
    by (simp add: valid_def link_st_mem(3) [OF assms])
  show "child (pmem (link_st (pt + 8 * i) p s)) pt i = p"
    using PTE2PA_PA2PTE [OF p, of PTE_V] by (simp add: child_def link_st_mem(3) [OF assms] PTE_V_def)
qed

lemma walked_pages:
  assumes "pt_wf l m pt S" and "kmem_list s ps" and "S \<inter> set ps = {}" and "A \<subseteq> S" and "B \<subseteq> S"
    and "A \<inter> B = {}" and "pageno x \<in> pageno ` B"
  shows "pageno x \<notin> pageno ` (A \<union> set (take n ps))"
proof -
  have "aligned y" if "y \<in> S \<union> set ps" for y
    using pt_wf_aligned [OF assms(1)] km.pool_pages [OF assms(2)] that by (auto simp: page_ok_def)
  moreover have "A \<union> set (take n ps) \<subseteq> S \<union> set ps" "B \<subseteq> S \<union> set ps"
    using assms(4,5) by (auto dest: in_set_takeD)
  moreover have "(A \<union> set (take n ps)) \<inter> B = {}"
    using assms(3,5,6) by (auto dest: in_set_takeD)
  ultimately have "pageno x \<noteq> pageno a" if "a \<in> A \<union> set (take n ps)" for a
    using that assms(7) by (intro pageno_disjoint [of "A \<union> set (take n ps)" B]) blast+
  then show ?thesis by blast
qed

lemma walked_up:
  assumes wf: "pt_wf (Suc l) (pmem s) pt S" and F: "pt_node (pt_wf l (pmem s)) (pmem s) pt F S"
    and l: "kmem_list s ps" and dj: "S \<inter> set ps = {}"
    and v: "valid (pmem s) pt (PX (Suc l) va)"
    and w: "walked l s ps (child (pmem s) pt (PX (Suc l) va)) (F (PX (Suc l) va)) va r t n"
  shows "walked (Suc l) s ps pt S va r t n"
proof -
  let ?i = "PX (Suc l) va"
  let ?c = "child (pmem s) pt ?i" and ?G = "F ?i \<union> set (take n ps)"
  note D = pt_nodeD [OF F]
  from w have W: "\<exists>m f. t = s\<lparr>pmem := m, freelist := f\<rparr>" "kmem_list t (drop n ps)" "n \<le> length ps"
    "pt_wf l (pmem t) ?c ?G" "\<And>va'. pte_at l (pmem t) ?c va' = pte_at l (pmem s) ?c va'"
    "\<And>x. pageno x \<notin> pageno ` ?G \<Longrightarrow> pmem t x = pmem s x"
    "if r = 0 then n = length ps else r = wlk l (pmem t) ?c va"
    by (auto simp: walked_def)
  have keep: "pmem s x = pmem t x" if "B \<subseteq> S" "F ?i \<inter> B = {}" "pageno x \<in> pageno ` B" for B x
    using walked_pages [OF wf l dj D(8) [OF PX_lt] that] W(6) by simp
  have root: "pmem s x = pmem t x" if "pageno x = pageno pt" for x
    using keep [of "{pt}"] D(3) D(7) [OF PX_lt] that by auto
  have slots: "valid (pmem t) pt j = valid (pmem s) pt j \<and> child (pmem t) pt j = child (pmem s) pt j"
    if "unat j < 512" for j
    using valid_child_cong [OF D(1) that root] by simp
  have vt: "valid (pmem t) pt ?i" "child (pmem t) pt ?i = ?c" using slots [OF PX_lt] v by simp_all
  have sub: "S \<union> ?G = S \<union> set (take n ps)" using D(8) [OF PX_lt] by blast
  have G: "F j \<inter> ?G = {}" if "unat j < 512" "j \<noteq> ?i" for j
    using D(6) [OF that(1) PX_lt that(2)] D(8) [OF that(1)] dj by (auto dest: in_set_takeD)
  have ptG: "pt \<notin> ?G" using D(3) D(7) [OF PX_lt] dj by (auto dest: in_set_takeD)
  have same: "pmem s x = pmem t x" if "unat j < 512" "j \<noteq> ?i" "pageno x \<in> pageno ` F j" for j x
    using keep [OF D(8) [OF that(1)] D(6) [OF PX_lt that(1) that(2) [symmetric]] that(3)] .
  note up = node_update [OF F PX_lt slots vt(1) W(4) [folded vt(2)] _ ptG G same]
  have "pt_wf (Suc l) (pmem t) pt (S \<union> set (take n ps))"
    using up(1) sub by auto
  moreover have "pte_at (Suc l) (pmem t) pt va' = pte_at (Suc l) (pmem s) pt va'" for va'
  proof (cases "PX (Suc l) va' = ?i")
    case True
    with W(5) [of va'] vt v show ?thesis by (simp add: pte_at_Suc)
  next
    case False
    then show ?thesis by (intro up(2)) auto
  qed
  moreover have "pmem t x = pmem s x" if "pageno x \<notin> pageno ` (S \<union> set (take n ps))" for x
    using that W(6) D(8) [OF PX_lt] by blast
  ultimately show ?thesis
    using W(1-3,7) vt by (simp add: walked_def wlk_Suc)
qed

lemma walked_link:
  assumes l: "kmem_list s (p # ps)" and wf: "pt_wf (Suc l) (pmem s) pt S" and dj: "S \<inter> set (p # ps) = {}"
    and v: "\<not> valid (pmem s) pt (PX (Suc l) va)"
  defines "u \<equiv> link_st (pt + 8 * PX (Suc l) va) p s"
  shows "pt_wf (Suc l) (pmem u) pt (insert p S)"
    and "pte_at (Suc l) (pmem u) pt va' = pte_at (Suc l) (pmem s) pt va'"
proof -
  let ?i = "PX (Suc l) va"
  obtain F where F: "pt_node (pt_wf l (pmem s)) (pmem s) pt F S" using wf by auto
  note D = pt_nodeD [OF F]
  have p: "aligned p" "p \<noteq> 0" "p \<notin> S" "pt \<noteq> p"
    using km.pool_pages [OF l] dj D(3) by (auto simp: page_ok_def)
  note L = link_st_mem [OF l D(1) p(4) PX_lt [of "Suc l" va], folded u_def]
  have vc: "valid (pmem u) pt ?i" "child (pmem u) pt ?i = p"
    using link_valid_child [OF l D(1) p(4) PX_lt] by (simp_all add: u_def)
  have zero: "pt_wf l (pmem u) p {p}" "pte_at l (pmem u) p va' = 0" for va'
    using pt_zero [OF p(1,2) L(2)] by auto
  have slots: "valid (pmem u) pt j = valid (pmem s) pt j \<and> child (pmem u) pt j = child (pmem s) pt j"
    if "unat j < 512" "j \<noteq> ?i" for j
    using L(4) [OF that] by (simp add: valid_def child_def)
  have same: "pmem s x = pmem u x" if "unat j < 512" "j \<noteq> ?i" "pageno x \<in> pageno ` F j" for j x
  proof -
    have al: "aligned y" if "y \<in> S" for y using pt_wf_aligned [OF wf that] ..
    have fj: "aligned y" if "y \<in> F j" for y using al D(8) [OF \<open>unat j < 512\<close>] that by blast
    have "pageno x \<noteq> pageno p"
      using fj p D(8) [OF that(1)] that(3) by (intro pageno_disjoint [of "{p}" "F j"]) auto
    moreover have "pageno x \<noteq> pageno pt"
      using fj D(1) D(7) [OF that(1)] that(3) by (intro pageno_disjoint [of "{pt}" "F j"]) auto
    ultimately show ?thesis using L(1) by simp
  qed
  have F0: "F ?i = {}" using D(5) [OF PX_lt v] .
  have sub: "pt_wf l (pmem u) (child (pmem u) pt ?i) {p}" using zero(1) vc(2) by simp
  have G: "F ?i \<subseteq> {p}" "pt \<notin> {p}" using F0 p(4) by simp_all
  have dj': "F j \<inter> {p} = {}" if "unat j < 512" "j \<noteq> ?i" for j using D(8) [OF that(1)] p(3) by blast
  note up = node_update [OF F PX_lt slots vc(1) sub G dj' same]
  show "pt_wf (Suc l) (pmem u) pt (insert p S)" using up(1) by simp
  show "pte_at (Suc l) (pmem u) pt va' = pte_at (Suc l) (pmem s) pt va'"
  proof (cases "PX (Suc l) va' = ?i")
    case True
    with zero(2) vc v show ?thesis by (simp add: pte_at_Suc)
  next
    case False
    then show ?thesis by (intro up(2)) auto
  qed
qed

lemma walked_link_Suc:
  assumes u: "u = s\<lparr>pmem := pmem u, freelist := freelist u\<rparr>"
    and e: "\<And>va'. pte_at l (pmem u) pt va' = pte_at l (pmem s) pt va'"
    and m: "\<And>x. pageno x \<noteq> pageno p \<Longrightarrow> pageno x \<noteq> pageno pt \<Longrightarrow> pmem u x = pmem s x"
    and w: "walked l u qs pt (insert p S) va r t n" and ps: "ps = p # qs" and pt: "pt \<in> S"
  shows "walked l s ps pt S va r t (Suc n)"
proof -
  from w obtain m' f where "t = u\<lparr>pmem := m', freelist := f\<rparr>" by (auto simp: walked_def)
  then have "t = s\<lparr>pmem := m', freelist := f\<rparr>" by (subst (asm) u) simp
  then have form: "\<exists>m f. t = s\<lparr>pmem := m, freelist := f\<rparr>" by blast
  have S: "insert p S \<union> set (take n qs) = S \<union> set (take (Suc n) ps)" using ps by auto
  have "pmem t x = pmem s x" if "pageno x \<notin> pageno ` (S \<union> set (take (Suc n) ps))" for x
  proof -
    have "pmem t x = pmem u x" using w that unfolding S [symmetric] walked_def by blast
    moreover have "pageno x \<noteq> pageno p" "pageno x \<noteq> pageno pt" using that ps pt by auto
    ultimately show ?thesis using m by simp
  qed
  with w form e show ?thesis
    unfolding walked_def S by (auto simp: ps)
qed

lemma walk_alloc:
  assumes "kready s" and "kmem_list s ps" and "pt_wf l (pmem s) pt S" and "S \<inter> set ps = {}"
  shows "\<exists>r t n. walk_loop l pt va True s = Ok r t \<and> walked l s ps pt S va r t n"
  using assms
proof (induction l arbitrary: s ps pt S)
  case 0
  then have "pt + 8 * PX 0 va \<noteq> 0" using slot_nonzero PX_lt by simp
  moreover have "\<exists>m f. s = s\<lparr>pmem := m, freelist := f\<rparr>"
    by (rule exI [of _ "pmem s"], rule exI [of _ "freelist s"]) simp
  ultimately have "walked 0 s ps pt S va (pt + 8 * PX 0 va) s 0"
    using 0 by (simp add: walked_def)
  then show ?case by (auto simp: kstep)
next
  case (Suc l)
  have present: "\<exists>r t n. walk_loop (Suc l) pt va True u = Ok r t \<and> walked (Suc l) u qs pt T va r t n"
    if u: "kready u" "kmem_list u qs" "pt_wf (Suc l) (pmem u) pt T" "T \<inter> set qs = {}"
      and v: "valid (pmem u) pt (PX (Suc l) va)" for u :: "'a kmem_scheme" and qs T
  proof -
    obtain F where F: "pt_node (pt_wf l (pmem u)) (pmem u) pt F T" using u(3) by auto
    have "F (PX (Suc l) va) \<inter> set qs = {}" using pt_nodeD(8) [OF F PX_lt] u(4) by blast
    then obtain r t n where "walk_loop l (child (pmem u) pt (PX (Suc l) va)) va True u = Ok r t"
      "walked l u qs (child (pmem u) pt (PX (Suc l) va)) (F (PX (Suc l) va)) va r t n"
      using Suc.IH [OF u(1,2) pt_nodeD(4) [OF F PX_lt v]] by blast
    then show ?thesis
      using walked_up [OF u(3) F u(2,4) v] walk_loop_present [OF v] by metis
  qed
  show ?case
  proof (cases "valid (pmem s) pt (PX (Suc l) va)")
    case True
    show ?thesis by (rule present [OF Suc.prems True])
  next
    case False
    note miss = walk_loop_missing [OF Suc.prems(1,2) False]
    show ?thesis
    proof (cases ps)
      case Nil
      have "\<exists>m f. s = s\<lparr>pmem := m, freelist := f\<rparr>"
        by (rule exI [of _ "pmem s"], rule exI [of _ "freelist s"]) simp
      then have "walked (Suc l) s ps pt S va 0 s 0"
        using Suc.prems Nil by (simp add: walked_def)
      then show ?thesis using miss Nil by auto
    next
      case (Cons p qs)
      let ?u = "link_st (pt + 8 * PX (Suc l) va) p s"
      have root: "aligned pt" "pt \<in> S" using pt_wf_root [OF Suc.prems(3)] by auto
      then have pt: "pt \<notin> set (p # qs)" using Suc.prems(4) Cons by blast
      note lk = Suc.prems(2) [unfolded Cons]
      note W = walked_link [OF lk Suc.prems(3) Suc.prems(4) [unfolded Cons] False]
      have form: "?u = s\<lparr>pmem := pmem ?u, freelist := freelist ?u\<rparr>"
        by (simp add: link_st_def kalloc_st_def)
      have "kready ?u" using Suc.prems(1) by (simp add: link_st_def kframe)
      moreover have "kmem_list ?u qs" using kmem_list_link [OF lk root(1) PX_lt pt] .
      moreover have "insert p S \<inter> set qs = {}"
        using Suc.prems(2,4) Cons by (auto simp: kmem_list_def)
      moreover have v: "valid (pmem ?u) pt (PX (Suc l) va)" "child (pmem ?u) pt (PX (Suc l) va) = p"
        using link_valid_child [OF lk root(1) _ PX_lt] pt by auto
      ultimately obtain r t n where rt: "walk_loop (Suc l) pt va True ?u = Ok r t"
        "walked (Suc l) ?u qs pt (insert p S) va r t n"
        using present [OF _ _ W(1)] by blast
      have "walk_loop (Suc l) pt va True s = walk_loop (Suc l) pt va True ?u"
        using miss Cons walk_loop_present [OF v(1)] v(2) by simp
      moreover have "walked (Suc l) s ps pt S va r t (Suc n)"
      proof (rule walked_link_Suc [OF form W(2) _ rt(2) Cons root(2)])
        have "pt \<noteq> p" using pt by simp
        from link_st_mem(1) [OF lk root(1) this PX_lt]
        show "pageno x \<noteq> pageno p \<Longrightarrow> pageno x \<noteq> pageno pt \<Longrightarrow> pmem ?u x = pmem s x" for x .
      qed
      ultimately show ?thesis using rt(1) by auto
    qed
  qed
qed

end
