(* ===== verification/UserMem.thy ===== *)
theory UserMem
  imports Pagetable
begin

text \<open>
  The operations of \<^verbatim>\<open>kernel/vm.c\<close> in terms of the abstraction: \<^verbatim>\<open>mappages\<close> updates the entries of a
  range of pages, \<^verbatim>\<open>copyout\<close> and \<^verbatim>\<open>copyin\<close> write and read the user's view of memory, and \<^verbatim>\<open>uvmcopy\<close>
  gives the child the parent's view.
\<close>

section \<open>Addresses and pages\<close>

lemma PXSHIFT_simps: "PXSHIFT 0 = 12" "PXSHIFT (Suc 0) = 21" "PXSHIFT 2 = 30" "PXSHIFT l = 12 + 9 * l"
  by (simp_all add: PXSHIFT_def PGSHIFT_def)

lemma MAXVA_unat: "unat MAXVA = 2 ^ 38"
  by (simp add: MAXVA_def)

lemma PX_pageno: "unat (PX l va) = pageno va div 512 ^ l mod 512"
proof -
  have "(2::nat) ^ PXSHIFT l = 4096 * 512 ^ l"
    unfolding PXSHIFT_simps(4) power_add power_mult by simp
  then show ?thesis by (simp add: unat_PX pageno_def div_mult2_eq)
qed

lemma PX_same_page: "pageno va = pageno va' \<Longrightarrow> PX l va = PX l va'"
  by (simp add: word_unat_eq_iff PX_pageno)

lemma same_px_page:
  assumes "va < MAXVA" and "va' < MAXVA"
  shows "same_px 2 va va' \<longleftrightarrow> pageno va = pageno va'"
proof
  assume "same_px 2 va va'"
  then have "PX 0 va = PX 0 va'" "PX 1 va = PX 1 va'" "PX 2 va = PX 2 va'"
    by (simp_all add: same_px_def)
  then have e: "pageno va mod 512 = pageno va' mod 512"
    "pageno va div 512 mod 512 = pageno va' div 512 mod 512"
    "pageno va div 512 ^ 2 mod 512 = pageno va' div 512 ^ 2 mod 512"
    using PX_pageno [of 0] PX_pageno [of 1] PX_pageno [of 2] by (metis div_by_1 power_0 power_one_right)+
  have "pageno v div 512 ^ 2 < 512" if "v < MAXVA" for v
  proof -
    have "pageno v < 512 * 512 ^ 2"
      using that by (simp add: pageno_def word_less_nat_alt MAXVA_unat)
    then show ?thesis by (rule less_mult_imp_div_less)
  qed
  then have "pageno va div 512 ^ 2 < 512" "pageno va' div 512 ^ 2 < 512" using assms by blast+
  with e(3) have h: "pageno va div 512 div 512 = pageno va' div 512 div 512"
    by (simp flip: div_mult2_eq)
  have "pageno va div 512 = pageno va' div 512"
    using h e(2) by (metis mult_div_mod_eq)
  with e(1) show "pageno va = pageno va'" by (metis mult_div_mod_eq)
qed (auto simp: same_px_def intro: PX_same_page)

lemma wlk_same_page: "pageno va = pageno va' \<Longrightarrow> wlk l m pt va = wlk l m pt va'"
  by (induction l arbitrary: pt) (simp_all add: wlk_Suc PX_same_page [of va va'])

lemma pte_at_same_page: "pageno va = pageno va' \<Longrightarrow> pte_at l m pt va = pte_at l m pt va'"
  by (simp add: pte_at_def wlk_same_page [of va va'])

lemma MAXVA_PGROUNDDOWN: "MAXVA \<le> PGROUNDDOWN va \<longleftrightarrow> MAXVA \<le> va"
  by (simp add: word_le_nat_alt MAXVA_unat unat_PGROUNDDOWN) linarith

section \<open>Mapping\<close>

definition pt_state :: "'a kmem_scheme \<Rightarrow> uint64 list \<Rightarrow> uint64 \<Rightarrow> uint64 set \<Rightarrow> bool" where
  "pt_state s ps pt S \<longleftrightarrow>
     kready s \<and> kmem_list s ps \<and> pt_wf 2 (pmem s) pt S \<and> S \<inter> set ps = {}"

lemma kmem_list_store:
  assumes "kmem_list s ps" and "aligned p" and "p \<notin> set ps" and "unat i < 512"
  shows "kmem_list (s\<lparr>pmem := store64 (pmem s) (p + 8 * i) v\<rparr>) ps"
proof -
  have "load64 (store64 (pmem s) (p + 8 * i) v) q = load64 (pmem s) q" if "q \<in> set ps" for q
  proof -
    have "aligned q" "q \<noteq> p" using assms that by (auto simp: kmem_list_def page_ok_def)
    then show ?thesis using assms load_slot_other [of p q i 0] by simp
  qed
  then have "flist (store64 (pmem s) (p + 8 * i) v) f ps = flist (pmem s) f ps" for f
    by (rule flist_cong)
  then show ?thesis using assms(1) by (simp add: kmem_list_def)
qed

text \<open>The state after \<^verbatim>\<open>walk(pt, a, 1)\<close> and a store of \<open>v\<close> to the entry it found.\<close>

definition set_pte :: "uint64 \<Rightarrow> uint64 \<Rightarrow> uint64 \<Rightarrow> 'a kmem_scheme \<Rightarrow> 'a kmem_scheme" where
  "set_pte pt a v s = s\<lparr>pmem := store64 (pmem s) (wlk 2 (pmem s) pt a) v\<rparr>"

lemma set_pte:
  assumes "pt_state s ps pt S" and "wlk 2 (pmem s) pt a \<noteq> 0" and "a < MAXVA"
  shows "pt_state (set_pte pt a v s) ps pt S"
    and "va < MAXVA \<Longrightarrow> pte_at 2 (pmem (set_pte pt a v s)) pt va =
      (if pageno va = pageno a then v else pte_at 2 (pmem s) pt va)"
    and "pageno x \<notin> pageno ` S \<Longrightarrow> pmem (set_pte pt a v s) x = pmem s x"
proof -
  have wf: "pt_wf 2 (pmem s) pt S" using assms(1) by (simp add: pt_state_def)
  obtain p where p: "p \<in> S" "aligned p" "wlk 2 (pmem s) pt a = p + 8 * PX 0 a"
    using wlk_slot [OF wf assms(2)] by blast
  have "p \<notin> set ps" using assms(1) p(1) by (auto simp: pt_state_def)
  then have "kmem_list (set_pte pt a v s) ps"
    using assms(1) p PX_lt by (simp add: set_pte_def kmem_list_store pt_state_def)
  then show "pt_state (set_pte pt a v s) ps pt S"
    using assms(1) store_pte(1) [OF wf assms(2)] by (simp add: pt_state_def set_pte_def kframe)
  show "pte_at 2 (pmem (set_pte pt a v s)) pt va =
      (if pageno va = pageno a then v else pte_at 2 (pmem s) pt va)" if "va < MAXVA"
    using store_pte(2) [OF wf assms(2)] same_px_page [OF assms(3) that] by (simp add: set_pte_def)
  show "pmem (set_pte pt a v s) x = pmem s x" if "pageno x \<notin> pageno ` S"
  proof -
    have "pageno x \<noteq> pageno p" using p(1) that by blast
    then show ?thesis using store64_outside [OF p(2) PX_lt] by (simp add: set_pte_def p(3))
  qed
qed

lemma walk_state:
  assumes "pt_state s ps pt S" and "va < MAXVA"
  shows "\<exists>r t n. walk pt va True s = Ok r t \<and> walked 2 s ps pt S va r t n \<and>
    pt_state t (drop n ps) pt (S \<union> set (take n ps))"
proof -
  from assms obtain r t n where w: "walk_loop 2 pt va True s = Ok r t" "walked 2 s ps pt S va r t n"
    using walk_alloc [of s ps 2 pt S va] by (auto simp: pt_state_def)
  moreover from assms(1) w(2) have "pt_state t (drop n ps) pt (S \<union> set (take n ps))"
  proof -
    have "distinct ps" using assms(1) by (simp add: pt_state_def kmem_list_def)
    then have "set (take n ps) \<inter> set (drop n ps) = {}" by (simp add: set_take_disj_set_drop_if_distinct)
    with assms(1) w(2) show ?thesis
      by (auto simp: pt_state_def walked_def kframe dest: in_set_dropD)
  qed
  ultimately show ?thesis
    using assms(2) by (auto simp: walk_def linorder_not_le)
qed

text \<open>
  \<open>grown s ps pt S t n\<close>: going from \<open>s\<close> to \<open>t\<close>, the table at \<open>pt\<close> has taken the first \<open>n\<close> free pages,
  and only its own pages were written.
\<close>

definition grown ::
    "'a kmem_scheme \<Rightarrow> uint64 list \<Rightarrow> uint64 \<Rightarrow> uint64 set \<Rightarrow> 'a kmem_scheme \<Rightarrow> nat \<Rightarrow> bool" where
  "grown s ps pt S t n \<longleftrightarrow> n \<le> length ps \<and> (\<exists>m f. t = s\<lparr>pmem := m, freelist := f\<rparr>) \<and>
     pt_state t (drop n ps) pt (S \<union> set (take n ps)) \<and>
     (\<forall>x. pageno x \<notin> pageno ` (S \<union> set (take n ps)) \<longrightarrow> pmem t x = pmem s x)"

lemma take_add_drop: "set (take n ps) \<union> set (take k (drop n ps)) = set (take (n + k) ps)"
  by (simp add: take_add)

lemma grown_trans:
  assumes "grown s ps pt S t n" and "grown t (drop n ps) pt (S \<union> set (take n ps)) u k"
  shows "grown s ps pt S u (n + k)"
proof -
  have S: "S \<union> set (take n ps) \<union> set (take k (drop n ps)) = S \<union> set (take (n + k) ps)"
    using take_add_drop [of n ps k] by blast
  from assms have "pt_state u (drop (n + k) ps) pt (S \<union> set (take (n + k) ps))"
    unfolding grown_def S by (simp add: add.commute)
  moreover have "pmem u x = pmem s x" if "pageno x \<notin> pageno ` (S \<union> set (take (n + k) ps))" for x
  proof -
    have "pmem u x = pmem t x" using assms(2) that unfolding grown_def S by blast
    moreover have "pageno x \<notin> pageno ` (S \<union> set (take n ps))" using that S by blast
    ultimately show ?thesis using assms(1) unfolding grown_def by simp
  qed
  moreover obtain m f m' f' where "t = s\<lparr>pmem := m, freelist := f\<rparr>" "u = t\<lparr>pmem := m', freelist := f'\<rparr>"
    using assms unfolding grown_def by blast
  then have "u = s\<lparr>pmem := m', freelist := f'\<rparr>" by simp
  moreover have "n \<le> length ps" "k \<le> length ps - n"
    using assms unfolding grown_def by simp_all
  then have "n + k \<le> length ps" by simp
  ultimately show ?thesis unfolding grown_def by blast
qed

lemma grown_walk:
  assumes "pt_state s ps pt S" and "walked 2 s ps pt S va r t n"
    and "pt_state t (drop n ps) pt (S \<union> set (take n ps))"
  shows "grown s ps pt S t n"
  using assms unfolding grown_def walked_def by blast

lemma grown_set_pte:
  assumes "grown s ps pt S t n" and "wlk 2 (pmem t) pt a \<noteq> 0" and "a < MAXVA"
  shows "grown s ps pt S (set_pte pt a v t) n"
proof -
  have st: "pt_state t (drop n ps) pt (S \<union> set (take n ps))" using assms(1) by (simp add: grown_def)
  obtain m f where "t = s\<lparr>pmem := m, freelist := f\<rparr>" using assms(1) by (auto simp: grown_def)
  then have "set_pte pt a v t = s\<lparr>pmem := store64 m (wlk 2 m pt a) v, freelist := f\<rparr>"
    by (simp add: set_pte_def)
  then have "\<exists>m f. set_pte pt a v t = s\<lparr>pmem := m, freelist := f\<rparr>" by blast
  moreover have "pmem (set_pte pt a v t) x = pmem s x"
    if "pageno x \<notin> pageno ` (S \<union> set (take n ps))" for x
    using set_pte(3) [OF st assms(2,3) that] that assms(1) unfolding grown_def by simp
  moreover have "n \<le> length ps" using assms(1) by (simp add: grown_def)
  ultimately show ?thesis unfolding grown_def using set_pte(1) [OF st assms(2,3)] by blast
qed

definition maprange ::
    "(uint64 \<Rightarrow> uint64) \<Rightarrow> uint64 \<Rightarrow> nat \<Rightarrow> uint64 \<Rightarrow> uint64 \<Rightarrow> uint64 \<Rightarrow> uint64" where
  "maprange f a n pa perm va =
     (if pageno a \<le> pageno va \<and> pageno va < pageno a + n
      then PA2PTE (pa + of_nat (pageno va - pageno a) * PGSIZE) OR perm OR PTE_V else f va)"

lemma pageno_next: "aligned a \<Longrightarrow> a < MAXVA \<Longrightarrow> pageno (a + PGSIZE) = Suc (pageno a)"
  using aligned_next(1) [of a] by (simp add: word_less_nat_alt MAXVA_unat pageno_def)

lemma maprange_step:
  assumes "pageno b = Suc (pageno a)"
    and "\<And>va. va < MAXVA \<Longrightarrow> g va = (if pageno va = pageno a then PA2PTE pa OR perm OR PTE_V else f va)"
    and "va < MAXVA"
  shows "maprange g b n (pa + PGSIZE) perm va = maprange f a (Suc n) pa perm va"
proof (cases "pageno va \<le> pageno a")
  case False
  then have "pageno va - pageno a = Suc (pageno va - pageno b)" using assms(1) by simp
  then have "(of_nat (pageno va - pageno a) :: uint64) = 1 + of_nat (pageno va - pageno b)" by simp
  then have "pa + of_nat (pageno va - pageno a) * PGSIZE =
      pa + PGSIZE + of_nat (pageno va - pageno b) * PGSIZE" by (simp add: algebra_simps)
  with False assms show ?thesis by (auto simp: maprange_def add.assoc)
qed (use assms in \<open>auto simp: maprange_def\<close>)

lemma mappages_step:
  assumes "pt_state s ps pt S" and "a < MAXVA" and "\<not> bit (pte_at 2 (pmem s) pt a) 0"
  shows "\<exists>(r::uint64) t k. grown s ps pt S t k \<and>
    mappages_loop pt a lst pa perm s =
      (if r = 0 then Ok (-1) t
       else if a = lst then Ok 0 t else mappages_loop pt (a + PGSIZE) lst (pa + PGSIZE) perm t) \<and>
    (if r = 0 then k = length ps \<and> (\<forall>va. pte_at 2 (pmem t) pt va = pte_at 2 (pmem s) pt va)
     else \<forall>va. va < MAXVA \<longrightarrow> pte_at 2 (pmem t) pt va =
       (if pageno va = pageno a then PA2PTE pa OR perm OR PTE_V else pte_at 2 (pmem s) pt va))"
proof -
  obtain r t k where w: "walk pt a True s = Ok r t" "walked 2 s ps pt S a r t k"
    "pt_state t (drop k ps) pt (S \<union> set (take k ps))"
    using walk_state [OF assms(1,2)] by blast
  note g = grown_walk [OF assms(1) w(2,3)]
  have keep: "pte_at 2 (pmem t) pt va = pte_at 2 (pmem s) pt va" for va
    using w(2) by (simp add: walked_def)
  show ?thesis
  proof (cases "r = 0")
    case True
    then have oom: "mappages_loop pt a lst pa perm s = Ok (-1) t" "k = length ps"
      using w(1,2) by (simp_all add: mappages_loop.simps kstep walked_def)
    show ?thesis
      by (rule exI [of _ r], rule exI [of _ t], rule exI [of _ k]) (use True g keep oom in simp)
  next
    case False
    let ?v = "PA2PTE pa OR perm OR PTE_V"
    let ?u = "set_pte pt a ?v t"
    have r: "r = wlk 2 (pmem t) pt a" using False w(2) by (simp add: walked_def)
    then have nz: "wlk 2 (pmem t) pt a \<noteq> 0" using False by simp
    have "load64 (pmem t) r = pte_at 2 (pmem s) pt a"
      using keep [of a] nz r by (simp add: pte_at_def)
    then have "rd64 r t = Ok (pte_at 2 (pmem s) pt a) t" "wr64 r ?v t = Ok () ?u"
      by (simp_all add: rd64_def wr64_def set_pte_def kstep r)
    then have "mappages_loop pt a lst pa perm s =
        (if a = lst then Ok 0 ?u else mappages_loop pt (a + PGSIZE) lst (pa + PGSIZE) perm ?u)"
      using w(1) False assms(3) by (subst mappages_loop.simps) (simp add: kstep pte_bits)
    moreover have "\<forall>va. va < MAXVA \<longrightarrow> pte_at 2 (pmem ?u) pt va =
       (if pageno va = pageno a then ?v else pte_at 2 (pmem s) pt va)"
      using set_pte(2) [OF w(3) nz assms(2)] keep by simp
    moreover have "grown s ps pt S ?u k" by (rule grown_set_pte [OF g nz assms(2)])
    ultimately show ?thesis using False by (intro exI [of _ r] exI [of _ ?u] exI [of _ k]) simp
  qed
qed

lemma mappages_loop_spec:
  assumes "pt_state s ps pt S" and "aligned a" and "unat a + 4096 * Suc n \<le> 2 ^ 38"
    and "lst = a + of_nat n * PGSIZE"
    and "\<And>va. va < MAXVA \<Longrightarrow> pageno a \<le> pageno va \<Longrightarrow> pageno va \<le> pageno a + n \<Longrightarrow>
      \<not> bit (pte_at 2 (pmem s) pt va) 0"
  shows "\<exists>r t k j. mappages_loop pt a lst pa perm s = Ok r t \<and> grown s ps pt S t k \<and>
    (if r = 0 then j = Suc n else r = -1 \<and> k = length ps \<and> j \<le> n) \<and>
    (\<forall>va. va < MAXVA \<longrightarrow>
      pte_at 2 (pmem t) pt va = maprange (pte_at 2 (pmem s) pt) a j pa perm va)"
  using assms
proof (induction n arbitrary: s ps S a pa)
  case 0
  have a: "a < MAXVA" using "0.prems"(3) by (simp add: word_less_nat_alt MAXVA_unat)
  then have "\<not> bit (pte_at 2 (pmem s) pt a) 0" using "0.prems"(5) by simp
  from mappages_step [OF "0.prems"(1) a this, of lst pa perm]
  obtain r :: uint64 and t k where st: "grown s ps pt S t k"
    "mappages_loop pt a lst pa perm s =
      (if r = 0 then Ok (-1) t
       else if a = lst then Ok 0 t else mappages_loop pt (a + PGSIZE) lst (pa + PGSIZE) perm t)"
    "if r = 0 then k = length ps \<and> (\<forall>va. pte_at 2 (pmem t) pt va = pte_at 2 (pmem s) pt va)
     else \<forall>va. va < MAXVA \<longrightarrow> pte_at 2 (pmem t) pt va =
       (if pageno va = pageno a then PA2PTE pa OR perm OR PTE_V else pte_at 2 (pmem s) pt va)"
    by blast
  have "lst = a" using "0.prems"(4) by simp
  show ?case
  proof (cases "r = 0")
    case True
    show ?thesis
      by (rule exI [of _ "-1"], rule exI [of _ t], rule exI [of _ k], rule exI [of _ 0])
        (use True st in \<open>auto simp: maprange_def\<close>)
  next
    case False
    show ?thesis
      by (rule exI [of _ 0], rule exI [of _ t], rule exI [of _ k], rule exI [of _ 1])
        (use False st \<open>lst = a\<close> in \<open>auto simp: maprange_def\<close>)
  qed
next
  case (Suc n)
  have a: "a < MAXVA" using Suc.prems(3) by (simp add: word_less_nat_alt MAXVA_unat)
  let ?b = "a + PGSIZE"
  have b: "unat ?b = unat a + 4096" "aligned ?b" "pageno ?b = Suc (pageno a)"
    using Suc.prems(2,3) a by (auto intro!: aligned_next pageno_next)
  have "\<not> bit (pte_at 2 (pmem s) pt a) 0" using Suc.prems(5) a by simp
  have "unat (of_nat (Suc n) * PGSIZE) = 4096 * Suc n"
  proof -
    have "of_nat (Suc n) * PGSIZE = of_nat (4096 * Suc n)" by (simp add: PGSIZE_def)
    moreover have "unat (of_nat (4096 * Suc n) :: uint64) = 4096 * Suc n"
      using Suc.prems(3) by (intro unat_of_nat_small) simp
    ultimately show ?thesis by metis
  qed
  then have "a \<noteq> lst" using Suc.prems(4) by auto
  from mappages_step [OF Suc.prems(1) a \<open>\<not> bit (pte_at 2 (pmem s) pt a) 0\<close>, of lst pa perm]
  obtain r :: uint64 and t k where st: "grown s ps pt S t k"
    "mappages_loop pt a lst pa perm s =
      (if r = 0 then Ok (-1) t
       else if a = lst then Ok 0 t else mappages_loop pt (a + PGSIZE) lst (pa + PGSIZE) perm t)"
    "if r = 0 then k = length ps \<and> (\<forall>va. pte_at 2 (pmem t) pt va = pte_at 2 (pmem s) pt va)
     else \<forall>va. va < MAXVA \<longrightarrow> pte_at 2 (pmem t) pt va =
       (if pageno va = pageno a then PA2PTE pa OR perm OR PTE_V else pte_at 2 (pmem s) pt va)"
    by blast
  show ?case
  proof (cases "r = 0")
    case True
    show ?thesis
      by (rule exI [of _ "-1"], rule exI [of _ t], rule exI [of _ k], rule exI [of _ 0])
        (use True st in \<open>auto simp: maprange_def\<close>)
  next
    case False
    then have e: "pte_at 2 (pmem t) pt va =
       (if pageno va = pageno a then PA2PTE pa OR perm OR PTE_V else pte_at 2 (pmem s) pt va)"
      if "va < MAXVA" for va using st(3) that by simp
    have "\<exists>r u i j. mappages_loop pt ?b lst (pa + PGSIZE) perm t = Ok r u \<and>
        grown t (drop k ps) pt (S \<union> set (take k ps)) u i \<and>
        (if r = 0 then j = Suc n else r = -1 \<and> i = length (drop k ps) \<and> j \<le> n) \<and>
        (\<forall>va. va < MAXVA \<longrightarrow>
          pte_at 2 (pmem u) pt va = maprange (pte_at 2 (pmem t) pt) ?b j (pa + PGSIZE) perm va)"
    proof (rule Suc.IH)
      show "pt_state t (drop k ps) pt (S \<union> set (take k ps))" using st(1) by (simp add: grown_def)
      show "lst = ?b + of_nat n * PGSIZE" using Suc.prems(4) by (simp add: algebra_simps)
      show "\<not> bit (pte_at 2 (pmem t) pt va) 0"
        if "va < MAXVA" "pageno ?b \<le> pageno va" "pageno va \<le> pageno ?b + n" for va
        using e [OF that(1)] Suc.prems(5) [OF that(1)] that b(3) by simp
    qed (use b Suc.prems(3) in simp_all)
    then obtain r' u i j where u: "mappages_loop pt ?b lst (pa + PGSIZE) perm t = Ok r' u"
        "grown t (drop k ps) pt (S \<union> set (take k ps)) u i"
        "if r' = 0 then j = Suc n else r' = -1 \<and> i = length (drop k ps) \<and> j \<le> n"
        "\<And>va. va < MAXVA \<Longrightarrow>
          pte_at 2 (pmem u) pt va = maprange (pte_at 2 (pmem t) pt) ?b j (pa + PGSIZE) perm va"
      by blast
    have k: "k \<le> length ps" using st(1) by (simp add: grown_def)
    show ?thesis
      by (rule exI [of _ r'], rule exI [of _ u], rule exI [of _ "k + i"], rule exI [of _ "Suc j"])
        (use k u False st(2) \<open>a \<noteq> lst\<close> grown_trans [OF st(1) u(2)] maprange_step [OF b(3) e] in \<open>simp split: if_splits\<close>)
  qed
qed

text \<open>
  C5: \<^verbatim>\<open>mappages\<close> implements an update of a map from virtual pages to entries. On a well-formed table whose
  entries for the range are not valid it returns 0 and then exactly the entries of the range are the new
  ones, or returns -1 when the free list is exhausted, having set a prefix of them; in both cases the
  table is again well-formed, has grown by pages taken from the free list, and no byte outside it changed.
\<close>

theorem mappages_refines:
  assumes "pt_state s ps pt S" and "va mod PGSIZE = 0" and "0 < n" and "unat va + 4096 * n \<le> 2 ^ 38"
    and "\<And>v. v < MAXVA \<Longrightarrow> pageno va \<le> pageno v \<Longrightarrow> pageno v < pageno va + n \<Longrightarrow>
      pte_at 2 (pmem s) pt v AND PTE_V = 0"
  shows "\<exists>r t k j. mappages pt va (of_nat n * PGSIZE) pa perm s = Ok r t \<and> grown s ps pt S t k \<and>
    (if r = 0 then j = n else r = -1 \<and> k = length ps \<and> j < n) \<and>
    (\<forall>v. v < MAXVA \<longrightarrow>
      pte_at 2 (pmem t) pt v = maprange (pte_at 2 (pmem s) pt) va j pa perm v)"
proof -
  obtain k where k: "n = Suc k" using assms(3) by (cases n) auto
  have sz: "of_nat n * PGSIZE = (of_nat (4096 * n) :: uint64)" by (simp add: PGSIZE_def)
  have u: "unat (of_nat n * PGSIZE :: uint64) = 4096 * n"
    unfolding sz using assms(4) by (intro unat_of_nat_small) simp
  have "(of_nat n * PGSIZE :: uint64) mod PGSIZE = 0" "of_nat n * PGSIZE \<noteq> (0 :: uint64)"
    using u assms(3) aligned_unat [of "of_nat n * PGSIZE"] by (auto simp: aligned_def)
  then have e: "mappages pt va (of_nat n * PGSIZE) pa perm s =
      mappages_loop pt va (va + of_nat k * PGSIZE) pa perm s"
    using assms(2) by (simp add: mappages_def k algebra_simps)
  have "\<exists>r t i j. mappages_loop pt va (va + of_nat k * PGSIZE) pa perm s = Ok r t \<and>
      grown s ps pt S t i \<and> (if r = 0 then j = Suc k else r = -1 \<and> i = length ps \<and> j \<le> k) \<and>
      (\<forall>v. v < MAXVA \<longrightarrow> pte_at 2 (pmem t) pt v = maprange (pte_at 2 (pmem s) pt) va j pa perm v)"
    using assms by (intro mappages_loop_spec) (auto simp: aligned_def k pte_bits)
  then show ?thesis unfolding e unfolding k less_Suc_eq_le .
qed

text \<open>An empty table at 0x80003000 and one free page, in zeroed memory.\<close>

lemma one_page_table: "pt_state one_page [0x80001000] 0x80003000 {0x80003000}"
proof -
  have "pt_wf 2 (pmem one_page) 0x80003000 {0x80003000}"
    by (rule pt_zero) (simp_all add: one_page_def kbase.defs boot_kbase_def aligned_def PGSIZE_def)
  then show ?thesis using one_page_list by (simp add: pt_state_def)
qed

theorem mappages_refines_witness:
  "\<exists>r t k. mappages 0x80003000 0x1000 (of_nat 2 * PGSIZE) 0x80004000 PTE_R one_page = Ok r t \<and>
     grown one_page [0x80001000] 0x80003000 {0x80003000} t k \<and> (r = 0 \<or> r = -1 \<and> k = 1)"
proof -
  have z: "pte_at 2 (pmem one_page) 0x80003000 v = 0" for v
    by (rule pt_zero) (simp_all add: one_page_def kbase.defs boot_kbase_def aligned_def PGSIZE_def)
  have "\<exists>r t k j. mappages 0x80003000 0x1000 (of_nat 2 * PGSIZE) 0x80004000 PTE_R one_page = Ok r t \<and>
     grown one_page [0x80001000] 0x80003000 {0x80003000} t k \<and>
     (if r = 0 then j = 2 else r = -1 \<and> k = length [0x80001000 :: uint64] \<and> j < 2) \<and>
     (\<forall>v. v < MAXVA \<longrightarrow> pte_at 2 (pmem t) 0x80003000 v =
       maprange (pte_at 2 (pmem one_page) 0x80003000) 0x1000 j 0x80004000 PTE_R v)"
    by (rule mappages_refines [OF one_page_table]) (simp_all add: PGSIZE_def z)
  then obtain r t k where
    "mappages 0x80003000 0x1000 (of_nat 2 * PGSIZE) 0x80004000 PTE_R one_page = Ok r t"
    "grown one_page [0x80001000] 0x80003000 {0x80003000} t k" "r = 0 \<or> r = -1 \<and> k = 1"
    by (auto split: if_splits)
  then show ?thesis by blast
qed

section \<open>The user's view of memory\<close>

text \<open>
  \<open>user_ok flags\<close>: the entry of the page of \<open>va\<close> is valid, accessible to the user and has the given
  further bits; \<open>uaddr\<close> is the physical address behind a virtual one, \<open>umem\<close> the byte there.
\<close>

definition user_ok :: "nat set \<Rightarrow> mem \<Rightarrow> uint64 \<Rightarrow> uint64 \<Rightarrow> bool" where
  "user_ok B m pt va \<longleftrightarrow> va < MAXVA \<and> (\<forall>b\<in>{0, 4} \<union> B. bit (pte_at 2 m pt va) b)"

definition uaddr :: "mem \<Rightarrow> uint64 \<Rightarrow> uint64 \<Rightarrow> uint64" where
  "uaddr m pt va = PTE2PA (pte_at 2 m pt va) + (va - PGROUNDDOWN va)"

definition umem :: "mem \<Rightarrow> uint64 \<Rightarrow> uint64 \<Rightarrow> uchar" where
  "umem m pt va = m (uaddr m pt va)"

text \<open>
  \<open>um_ok m pt S\<close>: the table is well-formed, different user pages are backed by different physical
  pages, and none of them is page 0 or a page of the table itself.
\<close>

definition um_ok :: "mem \<Rightarrow> uint64 \<Rightarrow> uint64 set \<Rightarrow> bool" where
  "um_ok m pt S \<longleftrightarrow> pt_wf 2 m pt S \<and>
     (\<forall>v. user_ok {} m pt v \<longrightarrow> PTE2PA (pte_at 2 m pt v) \<notin> insert 0 S) \<and>
     (\<forall>v w. user_ok {} m pt v \<longrightarrow> user_ok {} m pt w \<longrightarrow>
        PTE2PA (pte_at 2 m pt v) = PTE2PA (pte_at 2 m pt w) \<longrightarrow> pageno v = pageno w)"

lemma MAXVA_pageno: "va < MAXVA \<longleftrightarrow> pageno va < 2 ^ 26"
  by (simp add: word_less_nat_alt MAXVA_unat pageno_def) linarith

lemma user_ok_page: "pageno v = pageno w \<Longrightarrow> user_ok B m pt v = user_ok B m pt w"
  using pte_at_same_page [of v w 2 m pt] by (simp add: user_ok_def MAXVA_pageno)

lemma user_ok_mono: "user_ok B m pt v \<Longrightarrow> user_ok {} m pt v"
  by (auto simp: user_ok_def)

lemma uaddr_in_page: "unat (uaddr m pt va - PTE2PA (pte_at 2 m pt va)) = unat va mod 4096"
  by (simp add: uaddr_def page_offset)

lemma pageno_uaddr: "pageno (uaddr m pt va) = pageno (PTE2PA (pte_at 2 m pt va))"
  by (subst in_page_iff [symmetric]) (simp_all add: uaddr_in_page)

lemma PGROUNDDOWN_cong: "pageno v = pageno w \<Longrightarrow> PGROUNDDOWN v = PGROUNDDOWN w"
  by (rule pageno_inj) simp_all

lemma uaddr_diff: "pageno v = pageno w \<Longrightarrow> uaddr m pt w - uaddr m pt v = w - v"
  using pte_at_same_page [of v w 2 m pt] PGROUNDDOWN_cong [of v w] by (simp add: uaddr_def)

lemma pageno_within: "i < 4096 - unat va mod 4096 \<Longrightarrow> pageno (va + of_nat i) = pageno va"
proof -
  assume i: "i < 4096 - unat va mod 4096"
  have "va + of_nat i = PGROUNDDOWN va + of_nat (unat (va - PGROUNDDOWN va) + i)" by simp
  then show ?thesis
    using i pageno_add [of "PGROUNDDOWN va" "unat (va - PGROUNDDOWN va) + i"]
    by (simp only: page_offset aligned_PGROUNDDOWN PGROUNDDOWN_page)
qed

lemma within_page:
  assumes "unat (w - va) < n" and "n \<le> 4096 - unat va mod 4096"
  shows "pageno w = pageno va"
  using pageno_within [of "unat (w - va)" va] assms by simp

text \<open>Writing \<open>bs\<close> behind a virtual address, within its page.\<close>

lemma putbytes_umem:
  assumes ok: "um_ok m pt S" "user_ok {} m pt va" and n: "length bs \<le> 4096 - unat va mod 4096"
  defines "m' \<equiv> putbytes m (uaddr m pt va) bs"
  shows "um_ok m' pt S" and "pte_at 2 m' pt w = pte_at 2 m pt w"
    and "user_ok B m' pt w = user_ok B m pt w"
    and "user_ok {} m pt w \<Longrightarrow>
      umem m' pt w = (if unat (w - va) < length bs then bs ! unat (w - va) else umem m pt w)"
    and "pageno x \<noteq> pageno (uaddr m pt va) \<Longrightarrow> m' x = m x"
proof -
  have wf: "pt_wf 2 m pt S" using ok(1) by (simp add: um_ok_def)
  have out: "m' x = m x" if "pageno x \<noteq> pageno (uaddr m pt va)" for x
  proof -
    have "\<not> unat (x - uaddr m pt va) < length bs"
    proof
      assume *: "unat (x - uaddr m pt va) < length bs"
      let ?i = "unat va mod 4096 + unat (x - uaddr m pt va)"
      have "x = PTE2PA (pte_at 2 m pt va) + of_nat ?i"
        unfolding page_offset [symmetric] by (simp add: uaddr_def)
      moreover have "?i < 4096" using * n by simp
      ultimately have "pageno x = pageno (PTE2PA (pte_at 2 m pt va))"
        using pageno_add [of "PTE2PA (pte_at 2 m pt va)" ?i] aligned_PTE2PA by metis
      then show False using that by (simp add: pageno_uaddr)
    qed
    then show ?thesis by (simp add: m'_def putbytes_def)
  qed
  have base: "PTE2PA (pte_at 2 m pt va) \<notin> S" using ok by (auto simp: um_ok_def)
  have tab: "m x = m' x" if "pageno x \<in> pageno ` S" for x
  proof -
    have "pageno x \<noteq> pageno (PTE2PA (pte_at 2 m pt va))"
      using pt_wf_aligned [OF wf] base that
      by (intro pageno_disjoint [of "{PTE2PA (pte_at 2 m pt va)}" S]) auto
    then show ?thesis using out by (simp add: pageno_uaddr)
  qed
  show pte: "pte_at 2 m' pt w = pte_at 2 m pt w" for w
    by (rule pte_at_cong [OF wf tab])
  show uok: "user_ok B m' pt w = user_ok B m pt w" for B w
    by (simp add: user_ok_def pte)
  show "um_ok m' pt S"
    using ok(1) pt_wf_cong [OF wf tab] unfolding um_ok_def uok pte by blast
  show "umem m' pt w = (if unat (w - va) < length bs then bs ! unat (w - va) else umem m pt w)"
    if "user_ok {} m pt w"
  proof (cases "pageno w = pageno va")
    case True
    have "uaddr m' pt w = uaddr m pt w" by (simp add: uaddr_def pte)
    then show ?thesis
      by (simp add: umem_def) (simp add: m'_def putbytes_def uaddr_diff [OF True [symmetric]])
  next
    case False
    have ne: "\<not> unat (w - va) < length bs" using within_page [OF _ n] False by blast
    have "PTE2PA (pte_at 2 m pt w) \<noteq> PTE2PA (pte_at 2 m pt va)"
      using ok that False unfolding um_ok_def by blast
    then have "pageno (uaddr m pt w) \<noteq> pageno (uaddr m pt va)"
      using pageno_inj [of "PTE2PA (pte_at 2 m pt w)" "PTE2PA (pte_at 2 m pt va)"] by (auto simp: pageno_uaddr)
    then have "m' (uaddr m pt w) = m (uaddr m pt w)" by (rule out)
    with ne show ?thesis by (simp add: umem_def uaddr_def pte)
  qed
  show "m' x = m x" if "pageno x \<noteq> pageno (uaddr m pt va)" using that by (rule out)
qed

section \<open>copyout and copyin\<close>

lemma walk_lookup [kstep]: "va < MAXVA \<Longrightarrow> walk pt va False s = Ok (wlk 2 (pmem s) pt va) s"
  by (simp add: walk_def kstep linorder_not_le)

lemma walkaddr_step [kstep]:
  "walkaddr pt va s = Ok (if user_ok {} (pmem s) pt va then PTE2PA (pte_at 2 (pmem s) pt va) else 0) s"
proof (cases "va < MAXVA")
  case True
  then have "\<not> MAXVA \<le> va" by simp
  with True show ?thesis
    by (simp add: walkaddr_def kstep rd64_def user_ok_def pte_at_def pte_bits)
next
  case False
  then have "MAXVA \<le> va" by simp
  with False show ?thesis by (simp add: walkaddr_def ret_step user_ok_def)
qed

lemma copyout_nil: "copyout pt va [] s = Ok 0 s"
  by (simp add: copyout.simps)

lemma PGROUNDDOWN_less [simp]: "PGROUNDDOWN va < MAXVA \<longleftrightarrow> va < MAXVA"
  using MAXVA_PGROUNDDOWN [of va] by (simp add: linorder_not_le [symmetric])

lemma pte_at_PGROUNDDOWN [simp]: "pte_at l m pt (PGROUNDDOWN va) = pte_at l m pt va"
  by (rule pte_at_same_page) simp

lemma wlk_PGROUNDDOWN [simp]: "wlk l m pt (PGROUNDDOWN va) = wlk l m pt va"
  by (rule wlk_same_page) simp

lemma user_ok_PGROUNDDOWN [simp]: "user_ok B m pt (PGROUNDDOWN va) = user_ok B m pt va"
  by (rule user_ok_page) simp

text \<open>One round of the loops.\<close>

lemma copyout_fault:
  assumes "bs \<noteq> []" and "\<not> user_ok {2} (pmem s) pt va"
  shows "copyout pt va bs s = Ok (-1) s"
  using assms
  by (subst copyout.simps)
    (auto simp: Let_def kstep rd64_def MAXVA_PGROUNDDOWN user_ok_def pte_bits pte_at_def linorder_not_le)

lemma copyout_round:
  assumes "bs \<noteq> []" and "user_ok {2} (pmem s) pt va"
  defines "n \<equiv> min (4096 - unat va mod 4096) (length bs)"
  shows "copyout pt va bs s = copyout pt (PGROUNDDOWN va + PGSIZE) (drop n bs)
    (s\<lparr>pmem := putbytes (pmem s) (uaddr (pmem s) pt va) (take n bs)\<rparr>)"
proof -
  have "va < MAXVA" "\<not> MAXVA \<le> va" "wlk 2 (pmem s) pt va \<noteq> 0" "bit (pte_at 2 (pmem s) pt va) 0"
    "bit (pte_at 2 (pmem s) pt va) 2" "bit (pte_at 2 (pmem s) pt va) 4"
    using assms(2) by (auto simp: user_ok_def pte_at_def)
  then show ?thesis
    using assms(1)
    by (subst copyout.simps)
      (simp add: Let_def kstep rd64_def MAXVA_PGROUNDDOWN pte_bits page_rest n_def uaddr_def
        pte_at_def)
qed

lemma copyin_round:
  assumes "um_ok (pmem s) pt S" and "0 < len"
  shows "copyin pt va len s =
    (if user_ok {} (pmem s) pt va
     then bnd (copyin pt (PGROUNDDOWN va + PGSIZE) (len - min (4096 - unat va mod 4096) len)) (\<lambda>r.
        ret (fst r, getbytes (pmem s) (uaddr (pmem s) pt va) (min (4096 - unat va mod 4096) len) @ snd r)) s
     else Ok (-1, []) s)"
proof -
  have "PTE2PA (pte_at 2 (pmem s) pt va) \<noteq> 0" if "user_ok {} (pmem s) pt va"
    using assms(1) that by (auto simp: um_ok_def)
  then show ?thesis
    using assms(2)
    by (subst copyin.simps) (simp add: Let_def kstep page_rest uaddr_def)
qed

text \<open>The loops: a round handles the bytes of one page, the next starts at the next page.\<close>

definition ubytes :: "mem \<Rightarrow> uint64 \<Rightarrow> uint64 \<Rightarrow> nat \<Rightarrow> uchar list" where
  "ubytes m pt va n = map (\<lambda>i. umem m pt (va + of_nat i)) [0..<n]"

definition uput :: "(uint64 \<Rightarrow> uchar) \<Rightarrow> uint64 \<Rightarrow> uchar list \<Rightarrow> uint64 \<Rightarrow> uchar" where
  "uput f va bs w = (if unat (w - va) < length bs then bs ! unat (w - va) else f w)"

lemma next_round:
  assumes "n = min (4096 - unat va mod 4096) len" and "n < len"
  shows "PGROUNDDOWN va + PGSIZE = va + of_nat n"
proof -
  have "n = 4096 - unat va mod 4096" using assms by simp
  then have "(of_nat n :: uint64) = 4096 - of_nat (unat va mod 4096)" by (simp add: of_nat_diff)
  also have "\<dots> = 4096 - (va - PGROUNDDOWN va)" by (simp only: page_offset [symmetric] of_nat_unat) simp
  finally show ?thesis by (simp add: PGSIZE_def)
qed

lemma user_range_bound:
  assumes "\<And>i. i < len \<Longrightarrow> user_ok B m pt (va + of_nat i)"
  shows "len = 0 \<or> unat va + len \<le> 2 ^ 38"
proof (rule ccontr)
  assume "\<not> ?thesis"
  then have len: "0 < len" "2 ^ 38 < unat va + len" by simp_all
  from assms [OF len(1)] have va: "unat va < 2 ^ 38"
    by (simp add: user_ok_def word_less_nat_alt MAXVA_unat)
  then have "unat (va + of_nat (2 ^ 38 - unat va)) = 2 ^ 38"
    by (simp add: unat_plus_if' unat_of_nat_small)
  moreover have "user_ok B m pt (va + of_nat (2 ^ 38 - unat va))"
    using len va by (intro assms) simp
  ultimately show False by (simp add: user_ok_def word_less_nat_alt MAXVA_unat)
qed

lemma uput_cong: "f w = g w \<Longrightarrow> uput f va bs w = uput g va bs w"
  by (simp add: uput_def)

lemma uput_append:
  assumes "length as + length bs < 2 ^ 64"
  shows "uput (uput f va as) (va + of_nat (length as)) bs w = uput f va (as @ bs) w"
proof -
  let ?d = "unat (w - va)" and ?n = "length as"
  have n: "unat (of_nat ?n :: uint64) = ?n" using assms by (intro unat_of_nat_small) simp
  have e: "w - (va + of_nat ?n) = (w - va) - of_nat ?n" by simp
  show ?thesis
  proof (cases "?n \<le> ?d")
    case True
    then have "of_nat ?n \<le> w - va" using n by (simp add: word_le_nat_alt)
    then have "unat (w - (va + of_nat ?n)) = ?d - ?n" unfolding e by (simp add: unat_sub n)
    with True show ?thesis by (auto simp: uput_def nth_append)
  next
    case False
    then have "w - va < of_nat ?n" using n by (simp add: word_less_nat_alt)
    then have "unat (w - (va + of_nat ?n)) = 2 ^ 64 - (?n - ?d)"
      unfolding e using unat_diff_swap(2) [of "w - va" "of_nat ?n"] n by simp
    with False assms show ?thesis by (auto simp: uput_def nth_append)
  qed
qed

lemma copyout_spec:
  assumes "um_ok (pmem s) pt S" and "\<And>i. i < length bs \<Longrightarrow> user_ok {2} (pmem s) pt (va + of_nat i)"
  shows "\<exists>m. copyout pt va bs s = Ok 0 (s\<lparr>pmem := m\<rparr>) \<and> um_ok m pt S \<and>
    (\<forall>w. pte_at 2 m pt w = pte_at 2 (pmem s) pt w) \<and>
    (\<forall>w. user_ok {} (pmem s) pt w \<longrightarrow> umem m pt w = uput (umem (pmem s) pt) va bs w) \<and>
    (\<forall>x. (\<forall>i<length bs. pageno x \<noteq> pageno (uaddr (pmem s) pt (va + of_nat i))) \<longrightarrow> m x = pmem s x)"
  using assms
proof (induction "length bs" arbitrary: bs va s rule: less_induct)
  case less
  show ?case
  proof (cases "bs = []")
    case True
    with less.prems(1) show ?thesis
      by (intro exI [of _ "pmem s"]) (simp add: copyout_nil uput_def)
  next
    case False
    define n where "n = min (4096 - unat va mod 4096) (length bs)"
    have n: "0 < n" "n \<le> length bs" "n \<le> 4096 - unat va mod 4096" using False by (auto simp: n_def)
    let ?m = "putbytes (pmem s) (uaddr (pmem s) pt va) (take n bs)"
    have ok: "user_ok {2} (pmem s) pt va" using less.prems(2) [of 0] False by simp
    have P: "um_ok ?m pt S" "\<And>w. pte_at 2 ?m pt w = pte_at 2 (pmem s) pt w"
      "\<And>B w. user_ok B ?m pt w = user_ok B (pmem s) pt w"
      "\<And>w. user_ok {} (pmem s) pt w \<Longrightarrow> umem ?m pt w = uput (umem (pmem s) pt) va (take n bs) w"
      "\<And>x. pageno x \<noteq> pageno (uaddr (pmem s) pt va) \<Longrightarrow> ?m x = pmem s x"
      using putbytes_umem [OF less.prems(1) user_ok_mono [OF ok], of "take n bs"]
      using n by (simp_all add: uput_def min_def)
    have bound: "unat va + length bs \<le> 2 ^ 38"
      using user_range_bound [of "length bs", OF less.prems(2)] False by simp
    show ?thesis
    proof (cases "n < length bs")
      case True
      have nx: "PGROUNDDOWN va + PGSIZE = va + of_nat n" by (rule next_round [OF n_def True])
      have lt: "length (drop n bs) < length bs" using False n by simp
      have "user_ok {2} ?m pt (va + of_nat n + of_nat i)" if "i < length (drop n bs)" for i
        using less.prems(2) [of "n + i"] that P(3) by (simp add: add.assoc)
      with less.hyps [OF lt, of "s\<lparr>pmem := ?m\<rparr>" "va + of_nat n"] P(1) obtain m where
        m: "copyout pt (va + of_nat n) (drop n bs) (s\<lparr>pmem := ?m\<rparr>) = Ok 0 (s\<lparr>pmem := m\<rparr>)"
        "um_ok m pt S" "\<And>w. pte_at 2 m pt w = pte_at 2 ?m pt w"
        "\<And>w. user_ok {} ?m pt w \<Longrightarrow> umem m pt w = uput (umem ?m pt) (va + of_nat n) (drop n bs) w"
        "\<And>x. (\<forall>i<length (drop n bs). pageno x \<noteq> pageno (uaddr ?m pt (va + of_nat n + of_nat i))) \<Longrightarrow>
          m x = ?m x"
        by auto
      have "umem m pt w = uput (umem (pmem s) pt) va bs w" if "user_ok {} (pmem s) pt w" for w
      proof -
        have ln: "length (take n bs) = n" using n by simp
        have "umem m pt w = uput (umem ?m pt) (va + of_nat n) (drop n bs) w"
          using m(4) [of w] P(3) that by blast
        also have "\<dots> = uput (uput (umem (pmem s) pt) va (take n bs)) (va + of_nat n) (drop n bs) w"
          by (rule uput_cong, rule P(4) [OF that])
        also have "\<dots> = uput (umem (pmem s) pt) va (take n bs @ drop n bs) w"
          using uput_append [of "take n bs" "drop n bs" "umem (pmem s) pt" va w, unfolded ln] bound n by simp
        also have "\<dots> = uput (umem (pmem s) pt) va bs w" by simp
        finally show ?thesis .
      qed
      moreover have "m x = pmem s x"
        if out: "\<forall>i<length bs. pageno x \<noteq> pageno (uaddr (pmem s) pt (va + of_nat i))" for x
      proof -
        have "pageno x \<noteq> pageno (uaddr ?m pt (va + of_nat n + of_nat i))" if "i < length (drop n bs)" for i
          using out [rule_format, of "n + i"] that P(2) by (simp add: uaddr_def add.assoc)
        then have "m x = ?m x" by (intro m(5)) blast
        also have "\<dots> = pmem s x" using out [rule_format, of 0] False by (intro P(5)) simp
        finally show ?thesis .
      qed
      ultimately show ?thesis
        using copyout_round [OF False ok, folded n_def] nx m(1-3) P(2) by (intro exI [of _ m]) simp
    next
      case all: False
      then have e: "n = length bs" using n by simp
      have "copyout pt va bs s = Ok 0 (s\<lparr>pmem := ?m\<rparr>)"
        using copyout_round [OF False ok, folded n_def] e by (simp add: copyout_nil)
      moreover have "?m x = pmem s x"
        if "\<forall>i<length bs. pageno x \<noteq> pageno (uaddr (pmem s) pt (va + of_nat i))" for x
        using that [rule_format, of 0] False by (intro P(5)) simp
      ultimately show ?thesis using P(1-4) e by (intro exI [of _ ?m]) simp
    qed
  qed
qed

end
