(* ===== verification/Console.thy ===== *)
theory Console
  imports UserMem
begin

text \<open>
  Character output and input: \<^verbatim>\<open>kernel/uart.c\<close>, \<^verbatim>\<open>kernel/console.c\<close>, \<^verbatim>\<open>kernel/printf.c\<close>, and the two
  copy helpers and \<^verbatim>\<open>procdump\<close> of \<^verbatim>\<open>kernel/proc.c\<close> that they use.

  The 16550 UART is hardware. Its state is what the driver can observe: the input bytes waiting in it
  (\<open>uart_in\<close>), the bytes written to its transmit register so far (\<open>uart_sent\<close>), and how many more bytes it
  takes before \<^verbatim>\<open>LSR_TX_IDLE\<close> reads 0 (\<open>tx_room\<close>). Waiting for \<^verbatim>\<open>LSR_TX_IDLE\<close> in \<^verbatim>\<open>uartputc_sync\<close> ends when
  the device has sent a byte. The writes to its other registers are recorded in \<open>uart_regs\<close>.
\<close>

definition UART_TX_BUF_SIZE :: uint64 where "UART_TX_BUF_SIZE = 32"
definition INPUT_BUF_SIZE :: uint where "INPUT_BUF_SIZE = 128"
definition CONSOLE :: nat where "CONSOLE = 1"
definition BACKSPACE :: int where "BACKSPACE = 0x100"

text \<open>
  \<open>kbuf\<close> holds the kernel's local object (a directory entry, an ELF header) that is the target or the
  source of a copy whose other side is a file or the console. \<^verbatim>\<open>devsw\<close> maps a major device number to its
  read and write functions; the console's are the only ones.
\<close>

datatype devfns = ConsoleDev

record kcons = kvm +
  uart_in :: "uchar list"
  uart_sent :: "uchar list"
  tx_room :: nat
  uart_tx_buf :: "nat \<Rightarrow> uchar"
  uart_tx_w :: uint64
  uart_tx_r :: uint64
  panicked :: bool
  cons_buf :: "nat \<Rightarrow> uchar"
  cons_r :: uint
  cons_w :: uint
  cons_e :: uint
  pr_locking :: bool
  kbuf :: "uchar list"
  uart_regs :: "(nat \<times> uchar) list"
  devsw :: "nat \<Rightarrow> devfns option"

section \<open>uart.c\<close>

definition write_THR :: "uchar \<Rightarrow> (unit, 'a kcons_scheme) kmonad" where
  "write_THR c = writes (\<lambda>s. s\<lparr>uart_sent := uart_sent s @ [c], tx_room := tx_room s - 1\<rparr>)"

definition WriteReg :: "nat \<Rightarrow> uchar \<Rightarrow> (unit, 'a kcons_scheme) kmonad" where
  "WriteReg reg v = writes (\<lambda>s. s\<lparr>uart_regs := uart_regs s @ [(reg, v)]\<rparr>)"

definition IER :: nat where "IER = 1"
definition FCR :: nat where "FCR = 2"
definition LCR :: nat where "LCR = 3"

definition uartinit :: "(unit, 'a kcons_scheme) kmonad" where
  "uartinit =
     thn (WriteReg IER 0x00) (
     thn (WriteReg LCR (push_bit 7 1)) (
     thn (WriteReg 0 0x03) (
     thn (WriteReg 1 0x00) (
     thn (WriteReg LCR (push_bit 0 3)) (
     thn (WriteReg FCR (push_bit 0 1 OR push_bit 1 3)) (
     thn (WriteReg IER (push_bit 1 1 OR push_bit 0 1))
         (initlock LkUart ''uart'')))))))"

text \<open>Each round sends one byte, so the loop runs at most \<open>tx_room\<close> times before the device is busy.\<close>

primrec uartstart_loop :: "nat \<Rightarrow> (unit, 'a kcons_scheme) kmonad" where
  "uartstart_loop 0 = ret ()"
| "uartstart_loop (Suc n) =
     bnd (reads (\<lambda>s. uart_tx_w s = uart_tx_r s)) (\<lambda>empty.
     if empty then ret () else
     bnd (reads (\<lambda>s. uart_tx_buf s (unat (uart_tx_r s mod UART_TX_BUF_SIZE)))) (\<lambda>c.
     thn (writes (\<lambda>s. s\<lparr>uart_tx_r := uart_tx_r s + 1\<rparr>)) (
     thn (wakeup ChUartTxR) (
     thn (write_THR c)
         (uartstart_loop n)))))"

definition uartstart :: "(unit, 'a kcons_scheme) kmonad" where
  "uartstart = bnd (reads tx_room) uartstart_loop"

definition uartputc_loop :: "uchar \<Rightarrow> (unit, 'a kcons_scheme) kmonad" where
  "uartputc_loop c =
     bnd (reads (\<lambda>s. uart_tx_w s = uart_tx_r s + UART_TX_BUF_SIZE)) (\<lambda>full.
     thn (mwhen full (sleep ChUartTxR LkUart)) (
     thn (writes (\<lambda>s. s\<lparr>uart_tx_buf :=
            (uart_tx_buf s)(unat (uart_tx_w s mod UART_TX_BUF_SIZE) := c)\<rparr>)) (
     thn (writes (\<lambda>s. s\<lparr>uart_tx_w := uart_tx_w s + 1\<rparr>)) (
     thn uartstart
         (release LkUart)))))"

definition uartputc :: "uchar \<Rightarrow> (unit, 'a kcons_scheme) kmonad" where
  "uartputc c =
     thn (acquire LkUart) (
     bnd (reads panicked) (\<lambda>pk.
     if pk then spin else uartputc_loop c))"

definition uartputc_resume :: "nat \<Rightarrow> bool \<Rightarrow> uchar \<Rightarrow> (unit, 'a kcons_scheme) kmonad" where
  "uartputc_resume p ena c = thn (sleep_resume p ena LkUart) (uartputc_loop c)"

definition uartputc_sync :: "uchar \<Rightarrow> (unit, 'a kcons_scheme) kmonad" where
  "uartputc_sync c =
     thn push_off (
     bnd (reads panicked) (\<lambda>pk.
     if pk then spin else
     thn (write_THR c)
         pop_off))"

text \<open>\<open>None\<close> is the result \<open>-1\<close>.\<close>

definition uartgetc :: "(uchar option, 'a kcons_scheme) kmonad" where
  "uartgetc =
     bnd (reads uart_in) (\<lambda>bs. case bs of
       [] \<Rightarrow> ret None
     | c # cs \<Rightarrow> thn (writes (\<lambda>s. s\<lparr>uart_in := cs\<rparr>)) (ret (Some c)))"

section \<open>consputc\<close>

definition consputc :: "int \<Rightarrow> (unit, 'a kcons_scheme) kmonad" where
  "consputc c =
     (if c = BACKSPACE then
        thn (uartputc_sync 8) (thn (uartputc_sync 0x20) (uartputc_sync 8))
      else uartputc_sync (word_of_int c))"

definition cput :: "uchar \<Rightarrow> (unit, 'a kcons_scheme) kmonad" where
  "cput c = consputc (uint c)"

section \<open>printf.c\<close>

definition cbytes :: "string \<Rightarrow> uchar list" where
  "cbytes = map of_char"

definition digits :: "uchar list" where
  "digits = cbytes ''0123456789abcdef''"

text \<open>
  The loop of \<^verbatim>\<open>printint\<close> stores the digits, least significant first, into \<^verbatim>\<open>char buf[16]\<close>; a store
  past its end is undefined. A base below 2 does not occur.
\<close>

function printint_loop :: "uint64 \<Rightarrow> uint64 \<Rightarrow> uchar list \<Rightarrow> (uchar list, 's) kmonad" where
  "printint_loop base x buf =
     (if base < 2 then undef ''base'' else
      if 16 \<le> length buf then undef ''printint: buf overflow'' else
      let buf' = buf @ [digits ! unat (x mod base)] in
      if x div base = 0 then ret buf' else printint_loop base (x div base) buf')"
  by pat_completeness auto
termination
proof (relation "measure (\<lambda>(base, x, buf). unat x)")
  fix base x :: uint64 and buf buf' :: "uchar list"
  assume a: "\<not> base < 2" "x div base \<noteq> 0"
  have "2 \<le> unat base" using a(1) by (simp add: word_less_nat_alt)
  moreover have "0 < unat x" using a(2) by (cases "x = 0") (auto simp: unat_gt_0)
  ultimately show "((base, x div base, buf'), base, x, buf) \<in> measure (\<lambda>(base, x, buf). unat x)"
    by (simp add: unat_div div_less_dividend)
qed simp

declare printint_loop.simps [simp del]

definition printint :: "uint64 \<Rightarrow> uint64 \<Rightarrow> bool \<Rightarrow> (unit, 'a kcons_scheme) kmonad" where
  "printint xx base sign =
     (let neg = sign \<and> sint xx < 0;
          x = (if neg then - xx else xx) in
      bnd (printint_loop base x []) (\<lambda>buf.
      if neg \<and> 16 \<le> length buf then undef ''printint: buf overflow'' else
      foreach (rev (if neg then buf @ [0x2d] else buf)) cput))"

definition printptr :: "uint64 \<Rightarrow> (unit, 'a kcons_scheme) kmonad" where
  "printptr x =
     thn (cput 0x30) (
     thn (cput 0x78)
         (foreach [0..<16] (\<lambda>i. cput (digits ! unat (drop_bit 60 (push_bit (4 * i) x))))))"

text \<open>
  The arguments after the format: an \<^verbatim>\<open>int\<close>, a \<^verbatim>\<open>uint64\<close> or a string (\<open>None\<close> the null pointer). Fetching an
  argument of another type than the one passed is undefined.
\<close>

datatype parg = AInt "32 word" | ALong uint64 | AStr "uchar list option"

text \<open>What follows a \<^verbatim>\<open>%\<close>: the conversion and the number of further characters it takes.\<close>

datatype conv = CvInt uint64 bool | CvLong uint64 bool | CvPtr | CvStr | CvPct | CvEnd | CvUnknown

definition at0 :: "uchar list \<Rightarrow> nat \<Rightarrow> uchar" where
  "at0 cs i = (if i < length cs then cs ! i else 0)"

definition conversion :: "uchar list \<Rightarrow> conv \<times> nat" where
  "conversion cs =
     (let c0 = at0 cs 0; c1 = at0 cs 1; c2 = at0 cs 2 in
      if c0 = 0x64 then (CvInt 10 True, 0)
      else if c0 = 0x6c \<and> c1 = 0x64 then (CvLong 10 True, 1)
      else if c0 = 0x6c \<and> c1 = 0x6c \<and> c2 = 0x64 then (CvLong 10 True, 2)
      else if c0 = 0x75 then (CvInt 10 False, 0)
      else if c0 = 0x6c \<and> c1 = 0x75 then (CvLong 10 False, 1)
      else if c0 = 0x6c \<and> c1 = 0x6c \<and> c2 = 0x75 then (CvLong 10 False, 2)
      else if c0 = 0x78 then (CvInt 16 False, 0)
      else if c0 = 0x6c \<and> c1 = 0x78 then (CvLong 16 False, 1)
      else if c0 = 0x6c \<and> c1 = 0x6c \<and> c2 = 0x78 then (CvLong 16 False, 2)
      else if c0 = 0x70 then (CvPtr, 0)
      else if c0 = 0x73 then (CvStr, 0)
      else if c0 = 0x25 then (CvPct, 0)
      else if c0 = 0 then (CvEnd, 0)
      else (CvUnknown, 0))"

definition convert :: "conv \<Rightarrow> uchar \<Rightarrow> parg list \<Rightarrow> (parg list, 'a kcons_scheme) kmonad" where
  "convert cv c0 args = (case (cv, args) of
       (CvInt base sign, AInt v # as) \<Rightarrow> thn (printint (scast v) base sign) (ret as)
     | (CvLong base sign, ALong v # as) \<Rightarrow> thn (printint v base sign) (ret as)
     | (CvPtr, ALong v # as) \<Rightarrow> thn (printptr v) (ret as)
     | (CvStr, AStr v # as) \<Rightarrow>
         thn (foreach (case v of None \<Rightarrow> cbytes ''(null)'' | Some cs \<Rightarrow> takeWhile (\<lambda>c. c \<noteq> 0) cs) cput)
             (ret as)
     | (CvPct, _) \<Rightarrow> thn (cput 0x25) (ret args)
     | (CvUnknown, _) \<Rightarrow> thn (cput 0x25) (thn (cput c0) (ret args))
     | _ \<Rightarrow> undef ''va_arg'')"

function printf_loop :: "uchar list \<Rightarrow> parg list \<Rightarrow> (unit, 'a kcons_scheme) kmonad" where
  "printf_loop [] args = ret ()"
| "printf_loop (cx # fmt) args =
     (if cx = 0 then ret ()
      else if cx \<noteq> 0x25 then thn (cput cx) (printf_loop fmt args)
      else
        let (cv, k) = conversion fmt in
        if cv = CvEnd then ret ()
        else bnd (convert cv (at0 fmt 0) args) (printf_loop (drop (Suc k) fmt)))"
  by pat_completeness auto
termination
  by (relation "measure (\<lambda>(fmt, args). length fmt)") auto

definition printf :: "string \<Rightarrow> parg list \<Rightarrow> (unit, 'a kcons_scheme) kmonad" where
  "printf fmt args =
     bnd (reads pr_locking) (\<lambda>locking.
     thn (mwhen locking (acquire LkPr)) (
     thn (printf_loop (cbytes fmt) args)
         (mwhen locking (release LkPr))))"

definition printfinit :: "(unit, 'a kcons_scheme) kmonad" where
  "printfinit =
     thn (initlock LkPr ''pr'')
         (writes (\<lambda>s. s\<lparr>pr_locking := True\<rparr>))"

section \<open>Copying to or from user or kernel memory (kernel/proc.c)\<close>

text \<open>
  \<^verbatim>\<open>either_copyout\<close> and \<^verbatim>\<open>either_copyin\<close> take a flag and an address. Here the flag is the constructor:
  a user virtual address, a kernel (physical) address, or an offset in the caller's local object.
\<close>

datatype eaddr = UserVA uint64 | KernPA uint64 | KernBuf nat

primrec eadd :: "eaddr \<Rightarrow> nat \<Rightarrow> eaddr" where
  "eadd (UserVA a) n = UserVA (a + of_nat n)"
| "eadd (KernPA a) n = KernPA (a + of_nat n)"
| "eadd (KernBuf o') n = KernBuf (o' + n)"

text \<open>Replacing the bytes of a list from an offset; outside the list is outside the C object.\<close>

definition splice :: "'a list \<Rightarrow> nat \<Rightarrow> 'a list \<Rightarrow> 'a list" where
  "splice xs o' ys = take o' xs @ ys @ drop (o' + length ys) xs"

definition either_copyout :: "eaddr \<Rightarrow> uchar list \<Rightarrow> (int, 'a kcons_scheme) kmonad" where
  "either_copyout dst src =
     bnd myproc (\<lambda>p. case dst of
       UserVA va \<Rightarrow> (case p of
           None \<Rightarrow> undef ''null proc''
         | Some i \<Rightarrow> bnd (get_proc i) (\<lambda>pr. copyout (p_pagetable pr) va src))
     | KernPA pa \<Rightarrow> thn (writes (\<lambda>s. s\<lparr>pmem := putbytes (pmem s) pa src\<rparr>)) (ret 0)
     | KernBuf o' \<Rightarrow>
         bnd (reads kbuf) (\<lambda>b.
         if length b < o' + length src then undef ''kernel buffer overrun'' else
         thn (writes (\<lambda>s. s\<lparr>kbuf := splice b o' src\<rparr>)) (ret 0)))"

definition either_copyin :: "eaddr \<Rightarrow> nat \<Rightarrow> (int \<times> uchar list, 'a kcons_scheme) kmonad" where
  "either_copyin src len =
     bnd myproc (\<lambda>p. case src of
       UserVA va \<Rightarrow> (case p of
           None \<Rightarrow> undef ''null proc''
         | Some i \<Rightarrow> bnd (get_proc i) (\<lambda>pr. copyin (p_pagetable pr) va len))
     | KernPA pa \<Rightarrow> reads (\<lambda>s. (0, getbytes (pmem s) pa len))
     | KernBuf o' \<Rightarrow>
         bnd (reads kbuf) (\<lambda>b.
         if length b < o' + len then undef ''kernel buffer overrun'' else
         ret (0, take len (drop o' b))))"

section \<open>procdump (kernel/proc.c)\<close>

primrec state_name :: "procstate \<Rightarrow> string" where
  "state_name UNUSED = ''unused''"
| "state_name USED = ''used''"
| "state_name SLEEPING = ''sleep ''"
| "state_name RUNNABLE = ''runble''"
| "state_name RUNNING = ''run   ''"
| "state_name ZOMBIE = ''zombie''"

definition procdump :: "(unit, 'a kcons_scheme) kmonad" where
  "procdump =
     thn (printf [CHR 0x0A] [])
         (foreach [0..<NPROC] (\<lambda>p.
            bnd (get_proc p) (\<lambda>pr.
            mwhen (p_state pr \<noteq> UNUSED) (
              thn (printf ''%d %s %s''
                     [AInt (word_of_int (p_pid pr)), AStr (Some (cbytes (state_name (p_state pr)))),
                      AStr (Some (p_name pr))])
                  (printf [CHR 0x0A] [])))))"

section \<open>console.c\<close>

primrec consolewrite_loop :: "eaddr \<Rightarrow> nat \<Rightarrow> nat \<Rightarrow> (nat, 'a kcons_scheme) kmonad" where
  "consolewrite_loop src i 0 = ret i"
| "consolewrite_loop src i (Suc k) =
     bnd (either_copyin (eadd src i) 1) (\<lambda>r.
     if fst r = -1 then ret i
     else thn (uartputc (hd (snd r))) (consolewrite_loop src (Suc i) k))"

definition consolewrite :: "eaddr \<Rightarrow> int \<Rightarrow> (int, 'a kcons_scheme) kmonad" where
  "consolewrite src n = bnd (consolewrite_loop src 0 (nat n)) (\<lambda>i. ret (int i))"

text \<open>
  \<open>n\<close> counts down as in the code; \<open>target\<close> is the number of bytes asked for. A sleeping reader goes on
  with \<open>consoleread_resume\<close>.
\<close>

definition C_D :: uchar where "C_D = 4"
definition C_P :: uchar where "C_P = 16"
definition C_U :: uchar where "C_U = 21"
definition C_H :: uchar where "C_H = 8"

primrec consoleread_loop :: "eaddr \<Rightarrow> nat \<Rightarrow> nat \<Rightarrow> (int, 'a kcons_scheme) kmonad" where
  "consoleread_loop dst target 0 = thn (release LkCons) (ret (int target))"
| "consoleread_loop dst target (Suc n) =
     bnd (reads (\<lambda>s. cons_r s = cons_w s)) (\<lambda>empty.
     if empty then
       bnd myprocx (\<lambda>p. bnd (killed p) (\<lambda>k.
       if k then thn (release LkCons) (ret (-1))
       else thn (sleep ChConsR LkCons) (ret 0)))
     else
       bnd (reads (\<lambda>s. cons_buf s (unat (cons_r s mod INPUT_BUF_SIZE)))) (\<lambda>c.
       thn (writes (\<lambda>s. s\<lparr>cons_r := cons_r s + 1\<rparr>)) (
       if c = C_D then
         thn (mwhen (Suc n < target) (writes (\<lambda>s. s\<lparr>cons_r := cons_r s - 1\<rparr>))) (
         thn (release LkCons)
             (ret (int (target - Suc n))))
       else
         bnd (either_copyout dst [c]) (\<lambda>r.
         if r = -1 then thn (release LkCons) (ret (int (target - Suc n)))
         else if c = 10 then thn (release LkCons) (ret (int (target - n)))
         else consoleread_loop (eadd dst 1) target n))))"

definition consoleread :: "eaddr \<Rightarrow> int \<Rightarrow> (int, 'a kcons_scheme) kmonad" where
  "consoleread dst n = thn (acquire LkCons) (consoleread_loop dst (nat n) (nat n))"

definition consoleread_resume ::
    "nat \<Rightarrow> bool \<Rightarrow> eaddr \<Rightarrow> nat \<Rightarrow> nat \<Rightarrow> (int, 'a kcons_scheme) kmonad" where
  "consoleread_resume p ena dst target n =
     thn (sleep_resume p ena LkCons) (consoleread_loop dst target n)"

primrec kill_line :: "nat \<Rightarrow> (unit, 'a kcons_scheme) kmonad" where
  "kill_line 0 = ret ()"
| "kill_line (Suc n) =
     bnd (reads (\<lambda>s. cons_e s \<noteq> cons_w s \<and>
            cons_buf s (unat ((cons_e s - 1) mod INPUT_BUF_SIZE)) \<noteq> 10)) (\<lambda>more.
     if more then
       thn (writes (\<lambda>s. s\<lparr>cons_e := cons_e s - 1\<rparr>)) (
       thn (consputc BACKSPACE)
           (kill_line n))
     else ret ())"

definition cons_store :: "uchar \<Rightarrow> (unit, 'a kcons_scheme) kmonad" where
  "cons_store c =
     thn (consputc (uint c)) (
     thn (writes (\<lambda>s. s\<lparr>cons_buf := (cons_buf s)(unat (cons_e s mod INPUT_BUF_SIZE) := c),
                         cons_e := cons_e s + 1\<rparr>)) (
     bnd (reads (\<lambda>s. c = 10 \<or> c = C_D \<or> cons_e s - cons_r s = INPUT_BUF_SIZE)) (\<lambda>line.
     mwhen line (
       thn (writes (\<lambda>s. s\<lparr>cons_w := cons_e s\<rparr>))
           (wakeup ChConsR)))))"

definition consoleintr :: "uchar \<Rightarrow> (unit, 'a kcons_scheme) kmonad" where
  "consoleintr c =
     thn (acquire LkCons) (
     thn (if c = C_P then procdump
          else if c = C_U then bnd (reads (\<lambda>s. unat (cons_e s - cons_w s))) kill_line
          else if c = C_H \<or> c = 0x7f then
            bnd (reads (\<lambda>s. cons_e s \<noteq> cons_w s)) (\<lambda>some.
            mwhen some (
              thn (writes (\<lambda>s. s\<lparr>cons_e := cons_e s - 1\<rparr>))
                  (consputc BACKSPACE)))
          else
            bnd (reads (\<lambda>s. cons_e s - cons_r s < INPUT_BUF_SIZE)) (\<lambda>space.
            mwhen (c \<noteq> 0 \<and> space) (cons_store (if c = 13 then 10 else c))))
         (release LkCons))"

definition consoleinit :: "(unit, 'a kcons_scheme) kmonad" where
  "consoleinit =
     thn (initlock LkCons ''cons'') (
     thn uartinit
         (writes (\<lambda>s. s\<lparr>devsw := (devsw s)(CONSOLE := Some ConsoleDev)\<rparr>)))"

text \<open>
  \<^verbatim>\<open>uartintr\<close> is in \<^verbatim>\<open>kernel/uart.c\<close>. Each round takes one byte from the device, so the bytes waiting and
  one more bound the number of rounds.
\<close>

primrec uartintr_loop :: "nat \<Rightarrow> (unit, 'a kcons_scheme) kmonad" where
  "uartintr_loop 0 = ret ()"
| "uartintr_loop (Suc n) =
     bnd uartgetc (\<lambda>c. case c of
       None \<Rightarrow> ret ()
     | Some c \<Rightarrow> thn (consoleintr c) (uartintr_loop n))"

definition uartintr :: "(unit, 'a kcons_scheme) kmonad" where
  "uartintr =
     thn (bnd (reads (\<lambda>s. length (uart_in s))) uartintr_loop) (
     thn (acquire LkUart) (
     thn uartstart
         (release LkUart)))"

end
