(* ===== verification/Bio.thy ===== *)
theory Bio
  imports Console
begin

text \<open>
  \<^verbatim>\<open>kernel/bio.c\<close>: the buffer cache, a circular doubly linked list of \<^verbatim>\<open>NBUF\<close> buffers in order of last use.
  Index \<open>NBUF\<close> of \<open>bufs\<close> is \<^verbatim>\<open>bcache.head\<close>; \<open>b_prev\<close> and \<open>b_next\<close> are the links.

  \<open>disk_rw\<close> is what a call of \<^verbatim>\<open>virtio_disk_rw\<close> does between call and return as the calling thread
  sees it: the thread sleeps until the device has finished, and then the block and the buffer agree; the
  driver itself is in theory Virtio. The
  disk is a function from the first sector of a block to the bytes of the block. Every write also goes to
  \<open>dtrace\<close>, so that the states a crash can leave on the disk are the effects of the prefixes of the trace.
\<close>

definition BSIZE :: nat where "BSIZE = 1024"

record buf =
  b_valid :: bool
  b_disk :: bool
  b_dev :: uint
  b_blockno :: uint
  b_refcnt :: uint
  b_prev :: nat
  b_next :: nat
  b_data :: "uchar list"

record kbio = kcons +
  bufs :: "nat \<Rightarrow> buf"
  disk :: "uint64 \<Rightarrow> uchar list"
  dtrace :: "(uint64 \<times> uchar list) list"

abbreviation bhead :: nat where "bhead \<equiv> NBUF"

definition get_buf :: "nat \<Rightarrow> (buf, 'a kbio_scheme) kmonad" where
  "get_buf b = reads (\<lambda>s. bufs s b)"

definition upd_buf :: "nat \<Rightarrow> (buf \<Rightarrow> buf) \<Rightarrow> (unit, 'a kbio_scheme) kmonad" where
  "upd_buf b f = writes (\<lambda>s. s\<lparr>bufs := (bufs s)(b := f (bufs s b))\<rparr>)"

section \<open>The disk\<close>

text \<open>The first sector of a block: \<^verbatim>\<open>b->blockno * (BSIZE / 512)\<close> is computed in 32 bits and then widened.\<close>

definition sector :: "uint \<Rightarrow> uint64" where
  "sector bno = ucast (bno * of_nat (BSIZE div 512))"

definition disk_rw :: "nat \<Rightarrow> bool \<Rightarrow> (unit, 'a kbio_scheme) kmonad" where
  "disk_rw b write =
     bnd (get_buf b) (\<lambda>bf.
     if write then
       writes (\<lambda>s. s\<lparr>disk := (disk s)(sector (b_blockno bf) := b_data bf),
                      dtrace := dtrace s @ [(sector (b_blockno bf), b_data bf)]\<rparr>)
     else bnd (reads (\<lambda>s. disk s (sector (b_blockno bf)))) (\<lambda>d. upd_buf b (\<lambda>bf. bf\<lparr>b_data := d\<rparr>)))"

section \<open>Operations\<close>

definition binit1 :: "nat \<Rightarrow> (unit, 'a kbio_scheme) kmonad" where
  "binit1 b =
     bnd (get_buf bhead) (\<lambda>h.
     thn (upd_buf b (\<lambda>bf. bf\<lparr>b_next := b_next h\<rparr>)) (
     thn (upd_buf b (\<lambda>bf. bf\<lparr>b_prev := bhead\<rparr>)) (
     thn (initsleeplock (SlBuf b) ''buffer'') (
     thn (upd_buf (b_next h) (\<lambda>bf. bf\<lparr>b_prev := b\<rparr>))
         (upd_buf bhead (\<lambda>bf. bf\<lparr>b_next := b\<rparr>))))))"

definition binit :: "(unit, 'a kbio_scheme) kmonad" where
  "binit =
     thn (initlock LkBcache ''bcache'') (
     thn (upd_buf bhead (\<lambda>bf. bf\<lparr>b_prev := bhead\<rparr>)) (
     thn (upd_buf bhead (\<lambda>bf. bf\<lparr>b_next := bhead\<rparr>))
         (foreach [0..<NBUF] binit1)))"

text \<open>
  The two scans of \<^verbatim>\<open>bget\<close> follow the links until they reach the head. There are \<open>NBUF + 1\<close> nodes, so a scan that
  has not met the head after that many steps goes round a cycle without it, for ever.
\<close>

primrec bscan :: "(buf \<Rightarrow> nat) \<Rightarrow> (buf \<Rightarrow> bool) \<Rightarrow> nat \<Rightarrow> nat \<Rightarrow> (nat option, 'a kbio_scheme) kmonad" where
  "bscan link hit 0 b = spin"
| "bscan link hit (Suc n) b =
     (if b = bhead then ret None else
      bnd (get_buf b) (\<lambda>bf.
      if hit bf then ret (Some b) else bscan link hit n (link bf)))"

definition bget :: "uint \<Rightarrow> uint \<Rightarrow> (nat, 'a kbio_scheme) kmonad" where
  "bget dev blockno =
     thn (acquire LkBcache) (
     bnd (get_buf bhead) (\<lambda>h.
     bnd (bscan b_next (\<lambda>bf. b_dev bf = dev \<and> b_blockno bf = blockno) (Suc (Suc NBUF)) (b_next h)) (\<lambda>r.
     case r of
       Some b \<Rightarrow>
         thn (upd_buf b (\<lambda>bf. bf\<lparr>b_refcnt := b_refcnt bf + 1\<rparr>)) (
         thn (release LkBcache) (
         thn (acquiresleep (SlBuf b))
             (ret b)))
     | None \<Rightarrow>
         bnd (bscan b_prev (\<lambda>bf. b_refcnt bf = 0) (Suc (Suc NBUF)) (b_prev h)) (\<lambda>r2.
         case r2 of
           Some b \<Rightarrow>
             thn (upd_buf b (\<lambda>bf. bf\<lparr>b_dev := dev\<rparr>)) (
             thn (upd_buf b (\<lambda>bf. bf\<lparr>b_blockno := blockno\<rparr>)) (
             thn (upd_buf b (\<lambda>bf. bf\<lparr>b_valid := False\<rparr>)) (
             thn (upd_buf b (\<lambda>bf. bf\<lparr>b_refcnt := 1\<rparr>)) (
             thn (release LkBcache) (
             thn (acquiresleep (SlBuf b))
                 (ret b))))))
         | None \<Rightarrow> panic ''bget: no buffers''))))"

definition bread :: "uint \<Rightarrow> uint \<Rightarrow> (nat, 'a kbio_scheme) kmonad" where
  "bread dev blockno =
     bnd (bget dev blockno) (\<lambda>b.
     bnd (get_buf b) (\<lambda>bf.
     thn (mwhen (\<not> b_valid bf) (
            thn (disk_rw b False)
                (upd_buf b (\<lambda>bf. bf\<lparr>b_valid := True\<rparr>))))
         (ret b)))"

definition bwrite :: "nat \<Rightarrow> (unit, 'a kbio_scheme) kmonad" where
  "bwrite b =
     bnd (holdingsleep (SlBuf b)) (\<lambda>h.
     if \<not> h then panic ''bwrite'' else disk_rw b True)"

text \<open>Moving a buffer to the front of the list.\<close>

definition bmove :: "nat \<Rightarrow> (unit, 'a kbio_scheme) kmonad" where
  "bmove b =
     bnd (get_buf b) (\<lambda>bf.
     thn (upd_buf (b_next bf) (\<lambda>x. x\<lparr>b_prev := b_prev bf\<rparr>)) (
     thn (upd_buf (b_prev bf) (\<lambda>x. x\<lparr>b_next := b_next bf\<rparr>)) (
     bnd (get_buf bhead) (\<lambda>h.
     thn (upd_buf b (\<lambda>x. x\<lparr>b_next := b_next h\<rparr>)) (
     thn (upd_buf b (\<lambda>x. x\<lparr>b_prev := bhead\<rparr>)) (
     thn (upd_buf (b_next h) (\<lambda>x. x\<lparr>b_prev := b\<rparr>))
         (upd_buf bhead (\<lambda>x. x\<lparr>b_next := b\<rparr>))))))))"

definition brelse :: "nat \<Rightarrow> (unit, 'a kbio_scheme) kmonad" where
  "brelse b =
     bnd (holdingsleep (SlBuf b)) (\<lambda>h.
     if \<not> h then panic ''brelse'' else
     thn (releasesleep (SlBuf b)) (
     thn (acquire LkBcache) (
     thn (upd_buf b (\<lambda>bf. bf\<lparr>b_refcnt := b_refcnt bf - 1\<rparr>)) (
     bnd (get_buf b) (\<lambda>bf.
     thn (mwhen (b_refcnt bf = 0) (bmove b))
         (release LkBcache))))))"

definition bpin :: "nat \<Rightarrow> (unit, 'a kbio_scheme) kmonad" where
  "bpin b =
     thn (acquire LkBcache) (
     thn (upd_buf b (\<lambda>bf. bf\<lparr>b_refcnt := b_refcnt bf + 1\<rparr>))
         (release LkBcache))"

definition bunpin :: "nat \<Rightarrow> (unit, 'a kbio_scheme) kmonad" where
  "bunpin b =
     thn (acquire LkBcache) (
     thn (upd_buf b (\<lambda>bf. bf\<lparr>b_refcnt := b_refcnt bf - 1\<rparr>))
         (release LkBcache))"

section \<open>The bytes of a buffer\<close>

text \<open>
  Little-endian integers in a buffer's data, read and written through a pointer into it; a pointer outside the
  buffer is undefined.
\<close>

definition le16 :: "uchar list \<Rightarrow> nat \<Rightarrow> ushort" where
  "le16 d o' = ucast (d ! o') OR push_bit 8 (ucast (d ! (o' + 1)))"

definition le32 :: "uchar list \<Rightarrow> nat \<Rightarrow> uint" where
  "le32 d o' = ucast (d ! o') OR push_bit 8 (ucast (d ! (o' + 1))) OR
     push_bit 16 (ucast (d ! (o' + 2))) OR push_bit 24 (ucast (d ! (o' + 3)))"

definition bytes16 :: "ushort \<Rightarrow> uchar list" where
  "bytes16 v = [ucast v, ucast (drop_bit 8 v)]"

definition bytes32 :: "uint \<Rightarrow> uchar list" where
  "bytes32 v = [ucast v, ucast (drop_bit 8 v), ucast (drop_bit 16 v), ucast (drop_bit 24 v)]"

definition put_bytes :: "nat \<Rightarrow> nat \<Rightarrow> uchar list \<Rightarrow> (unit, 'a kbio_scheme) kmonad" where
  "put_bytes b o' bs =
     bnd (get_buf b) (\<lambda>bf.
     if length (b_data bf) < o' + length bs then undef ''buffer overrun''
     else upd_buf b (\<lambda>bf. bf\<lparr>b_data := splice (b_data bf) o' bs\<rparr>))"

definition get_bytes :: "nat \<Rightarrow> nat \<Rightarrow> nat \<Rightarrow> (uchar list, 'a kbio_scheme) kmonad" where
  "get_bytes b o' n =
     bnd (get_buf b) (\<lambda>bf.
     if length (b_data bf) < o' + n then undef ''buffer overrun''
     else ret (take n (drop o' (b_data bf))))"

definition get32 :: "nat \<Rightarrow> nat \<Rightarrow> (uint, 'a kbio_scheme) kmonad" where
  "get32 b o' = bnd (get_bytes b o' 4) (\<lambda>d. ret (le32 d 0))"

end
