(* ===== verification/Virtio.thy ===== *)
theory Virtio
  imports Bio
begin

text \<open>
  \<^verbatim>\<open>kernel/virtio_disk.c\<close>: the driver of the virtio block device. The three rings that driver and device share
  are fields of the state (\<open>vdesc\<close>, the \<open>avail\<close> and the \<open>used\<close> fields). Addresses in descriptors name
  the object they point to. \<^verbatim>\<open>virtio_disk_rw\<close> always sleeps, since the device cannot finish before the lock
  is released; the rest of the function is \<open>virtio_disk_rw_resume\<close>. The device is hardware: \<open>vregs\<close> is what
  its registers read as, \<open>vresponse\<close> what a register holds after a write.
\<close>

definition NUM :: nat where "NUM = 8"

datatype daddr = DNull | DOps nat | DData nat | DStatus nat

record virtq_desc =
  vd_addr :: daddr
  vd_len :: uint
  vd_flags :: ushort
  vd_next :: ushort

record virtio_blk_req =
  vq_type :: uint
  vq_reserved :: uint
  vq_sector :: uint64

definition VRING_DESC_F_NEXT :: ushort where "VRING_DESC_F_NEXT = 1"
definition VRING_DESC_F_WRITE :: ushort where "VRING_DESC_F_WRITE = 2"
definition VIRTIO_BLK_T_IN :: uint where "VIRTIO_BLK_T_IN = 0"
definition VIRTIO_BLK_T_OUT :: uint where "VIRTIO_BLK_T_OUT = 1"

definition VIRTIO_MMIO_MAGIC_VALUE :: nat where "VIRTIO_MMIO_MAGIC_VALUE = 0x000"
definition VIRTIO_MMIO_VERSION :: nat where "VIRTIO_MMIO_VERSION = 0x004"
definition VIRTIO_MMIO_DEVICE_ID :: nat where "VIRTIO_MMIO_DEVICE_ID = 0x008"
definition VIRTIO_MMIO_VENDOR_ID :: nat where "VIRTIO_MMIO_VENDOR_ID = 0x00c"
definition VIRTIO_MMIO_DEVICE_FEATURES :: nat where "VIRTIO_MMIO_DEVICE_FEATURES = 0x010"
definition VIRTIO_MMIO_DRIVER_FEATURES :: nat where "VIRTIO_MMIO_DRIVER_FEATURES = 0x020"
definition VIRTIO_MMIO_QUEUE_SEL :: nat where "VIRTIO_MMIO_QUEUE_SEL = 0x030"
definition VIRTIO_MMIO_QUEUE_NUM_MAX :: nat where "VIRTIO_MMIO_QUEUE_NUM_MAX = 0x034"
definition VIRTIO_MMIO_QUEUE_NUM :: nat where "VIRTIO_MMIO_QUEUE_NUM = 0x038"
definition VIRTIO_MMIO_QUEUE_READY :: nat where "VIRTIO_MMIO_QUEUE_READY = 0x044"
definition VIRTIO_MMIO_QUEUE_NOTIFY :: nat where "VIRTIO_MMIO_QUEUE_NOTIFY = 0x050"
definition VIRTIO_MMIO_INTERRUPT_STATUS :: nat where "VIRTIO_MMIO_INTERRUPT_STATUS = 0x060"
definition VIRTIO_MMIO_INTERRUPT_ACK :: nat where "VIRTIO_MMIO_INTERRUPT_ACK = 0x064"
definition VIRTIO_MMIO_STATUS :: nat where "VIRTIO_MMIO_STATUS = 0x070"
definition VIRTIO_MMIO_QUEUE_DESC_LOW :: nat where "VIRTIO_MMIO_QUEUE_DESC_LOW = 0x080"
definition VIRTIO_MMIO_QUEUE_DESC_HIGH :: nat where "VIRTIO_MMIO_QUEUE_DESC_HIGH = 0x084"
definition VIRTIO_MMIO_DRIVER_DESC_LOW :: nat where "VIRTIO_MMIO_DRIVER_DESC_LOW = 0x090"
definition VIRTIO_MMIO_DRIVER_DESC_HIGH :: nat where "VIRTIO_MMIO_DRIVER_DESC_HIGH = 0x094"
definition VIRTIO_MMIO_DEVICE_DESC_LOW :: nat where "VIRTIO_MMIO_DEVICE_DESC_LOW = 0x0a0"
definition VIRTIO_MMIO_DEVICE_DESC_HIGH :: nat where "VIRTIO_MMIO_DEVICE_DESC_HIGH = 0x0a4"
definition VIRTIO_CONFIG_S_ACKNOWLEDGE :: uint where "VIRTIO_CONFIG_S_ACKNOWLEDGE = 1"
definition VIRTIO_CONFIG_S_DRIVER :: uint where "VIRTIO_CONFIG_S_DRIVER = 2"
definition VIRTIO_CONFIG_S_DRIVER_OK :: uint where "VIRTIO_CONFIG_S_DRIVER_OK = 4"
definition VIRTIO_CONFIG_S_FEATURES_OK :: uint where "VIRTIO_CONFIG_S_FEATURES_OK = 8"

record kvirtio = kbio +
  vdesc :: "nat \<Rightarrow> virtq_desc"
  avail_idx :: ushort
  avail_ring :: "nat \<Rightarrow> ushort"
  used_idx_dev :: ushort
  used_ring :: "nat \<Rightarrow> uint"
  vfree :: "nat \<Rightarrow> bool"
  used_idx :: ushort
  info_b :: "nat \<Rightarrow> nat option"
  info_status :: "nat \<Rightarrow> uchar"
  vops :: "nat \<Rightarrow> virtio_blk_req"
  vq_pages :: "uint64 \<times> uint64 \<times> uint64"
  vregs :: "nat \<Rightarrow> uint"
  vresponse :: "nat \<Rightarrow> uint \<Rightarrow> uint"

definition rdreg :: "nat \<Rightarrow> (uint, 'a kvirtio_scheme) kmonad" where
  "rdreg r = reads (\<lambda>s. vregs s r)"

definition wrreg :: "nat \<Rightarrow> uint \<Rightarrow> (unit, 'a kvirtio_scheme) kmonad" where
  "wrreg r v = writes (\<lambda>s. s\<lparr>vregs := (vregs s)(r := vresponse s r v)\<rparr>)"

definition clear_features :: "uint \<Rightarrow> uint" where
  "clear_features f = foldl (\<lambda>f b. f AND NOT (push_bit b 1)) f [5, 7, 11, 12, 27, 29, 28]"

text \<open>\<^verbatim>\<open>virtio_disk_init\<close>: finding the device and negotiating, then the queue.\<close>

definition virtio_probe :: "(unit, 'a kvirtio_scheme) kmonad" where
  "virtio_probe =
     bnd (rdreg VIRTIO_MMIO_MAGIC_VALUE) (\<lambda>magic.
     bnd (rdreg VIRTIO_MMIO_VERSION) (\<lambda>version.
     bnd (rdreg VIRTIO_MMIO_DEVICE_ID) (\<lambda>device.
     bnd (rdreg VIRTIO_MMIO_VENDOR_ID) (\<lambda>vendor.
     if magic \<noteq> 0x74726976 \<or> version \<noteq> 2 \<or> device \<noteq> 2 \<or> vendor \<noteq> 0x554d4551
     then panic ''could not find virtio disk'' else ret ()))))"

definition virtio_negotiate :: "(uint, 'a kvirtio_scheme) kmonad" where
  "virtio_negotiate =
     thn (wrreg VIRTIO_MMIO_STATUS 0) (
     thn (wrreg VIRTIO_MMIO_STATUS VIRTIO_CONFIG_S_ACKNOWLEDGE) (
     thn (wrreg VIRTIO_MMIO_STATUS (VIRTIO_CONFIG_S_ACKNOWLEDGE OR VIRTIO_CONFIG_S_DRIVER)) (
     bnd (rdreg VIRTIO_MMIO_DEVICE_FEATURES) (\<lambda>features.
     thn (wrreg VIRTIO_MMIO_DRIVER_FEATURES (clear_features features)) (
     thn (wrreg VIRTIO_MMIO_STATUS
            (VIRTIO_CONFIG_S_ACKNOWLEDGE OR VIRTIO_CONFIG_S_DRIVER OR VIRTIO_CONFIG_S_FEATURES_OK)) (
     bnd (rdreg VIRTIO_MMIO_STATUS) (\<lambda>status.
     if status AND VIRTIO_CONFIG_S_FEATURES_OK = 0 then panic ''virtio disk FEATURES_OK unset''
     else ret status)))))))"

definition virtio_queue :: "(unit, 'a kvirtio_scheme) kmonad" where
  "virtio_queue =
     thn (wrreg VIRTIO_MMIO_QUEUE_SEL 0) (
     bnd (rdreg VIRTIO_MMIO_QUEUE_READY) (\<lambda>ready.
     if ready \<noteq> 0 then panic ''virtio disk should not be ready'' else
     bnd (rdreg VIRTIO_MMIO_QUEUE_NUM_MAX) (\<lambda>mx.
     if mx = 0 then panic ''virtio disk has no queue 0''
     else if mx < of_nat NUM then panic ''virtio disk max queue too short'' else
     bnd kalloc (\<lambda>desc.
     bnd kalloc (\<lambda>avail.
     bnd kalloc (\<lambda>used.
     if desc = 0 \<or> avail = 0 \<or> used = 0 then panic ''virtio disk kalloc'' else
     thn (writes (\<lambda>s. s\<lparr>vq_pages := (desc, avail, used)\<rparr>)) (
     thn (zero_page desc) (
     thn (zero_page avail) (
     thn (zero_page used) (
     thn (writes (\<lambda>s. s\<lparr>vdesc := (\<lambda>_. \<lparr>vd_addr = DNull, vd_len = 0, vd_flags = 0, vd_next = 0\<rparr>),
            avail_idx := 0, avail_ring := (\<lambda>_. 0), used_idx_dev := 0, used_ring := (\<lambda>_. 0)\<rparr>)) (
     thn (wrreg VIRTIO_MMIO_QUEUE_NUM (of_nat NUM)) (
     thn (wrreg VIRTIO_MMIO_QUEUE_DESC_LOW (ucast desc)) (
     thn (wrreg VIRTIO_MMIO_QUEUE_DESC_HIGH (ucast (drop_bit 32 desc))) (
     thn (wrreg VIRTIO_MMIO_DRIVER_DESC_LOW (ucast avail)) (
     thn (wrreg VIRTIO_MMIO_DRIVER_DESC_HIGH (ucast (drop_bit 32 avail))) (
     thn (wrreg VIRTIO_MMIO_DEVICE_DESC_LOW (ucast used)) (
     thn (wrreg VIRTIO_MMIO_DEVICE_DESC_HIGH (ucast (drop_bit 32 used))) (
     thn (wrreg VIRTIO_MMIO_QUEUE_READY 1)
         (foreach [0..<NUM] (\<lambda>i. writes (\<lambda>s. s\<lparr>vfree := (vfree s)(i := True)\<rparr>)))))))))))))))))))))"

definition virtio_disk_init :: "(unit, 'a kvirtio_scheme) kmonad" where
  "virtio_disk_init =
     thn (initlock LkDisk ''virtio_disk'') (
     thn virtio_probe (
     bnd virtio_negotiate (\<lambda>status.
     thn virtio_queue
         (wrreg VIRTIO_MMIO_STATUS (status OR VIRTIO_CONFIG_S_DRIVER_OK)))))"

section \<open>Descriptors\<close>

primrec alloc_desc_loop :: "nat list \<Rightarrow> (nat option, 'a kvirtio_scheme) kmonad" where
  "alloc_desc_loop [] = ret None"
| "alloc_desc_loop (i # is) =
     bnd (reads (\<lambda>s. vfree s i)) (\<lambda>free.
     if free then thn (writes (\<lambda>s. s\<lparr>vfree := (vfree s)(i := False)\<rparr>)) (ret (Some i))
     else alloc_desc_loop is)"

definition alloc_desc :: "(nat option, 'a kvirtio_scheme) kmonad" where
  "alloc_desc = alloc_desc_loop [0..<NUM]"

definition upd_desc :: "nat \<Rightarrow> (virtq_desc \<Rightarrow> virtq_desc) \<Rightarrow> (unit, 'a kvirtio_scheme) kmonad" where
  "upd_desc i f = writes (\<lambda>s. s\<lparr>vdesc := (vdesc s)(i := f (vdesc s i))\<rparr>)"

definition free_desc :: "nat \<Rightarrow> (unit, 'a kvirtio_scheme) kmonad" where
  "free_desc i =
     (if NUM \<le> i then panic ''free_desc 1'' else
      bnd (reads (\<lambda>s. vfree s i)) (\<lambda>free.
      if free then panic ''free_desc 2'' else
      thn (upd_desc i (\<lambda>_. \<lparr>vd_addr = DNull, vd_len = 0, vd_flags = 0, vd_next = 0\<rparr>)) (
      thn (writes (\<lambda>s. s\<lparr>vfree := (vfree s)(i := True)\<rparr>))
          (wakeup ChDiskFree))))"

text \<open>
  A chain that visits a descriptor twice frees it twice, which panics; so \<open>NUM + 1\<close> rounds are enough.
\<close>

primrec free_chain_loop :: "nat \<Rightarrow> nat \<Rightarrow> (unit, 'a kvirtio_scheme) kmonad" where
  "free_chain_loop 0 i = panic ''free_desc 2''"
| "free_chain_loop (Suc n) i =
     bnd (reads (\<lambda>s. vdesc s i)) (\<lambda>d.
     thn (free_desc i)
         (if vd_flags d AND VRING_DESC_F_NEXT \<noteq> 0 then free_chain_loop n (unat (vd_next d)) else ret ()))"

definition free_chain :: "nat \<Rightarrow> (unit, 'a kvirtio_scheme) kmonad" where
  "free_chain i = free_chain_loop (Suc NUM) i"

primrec alloc3_loop :: "nat \<Rightarrow> nat list \<Rightarrow> (nat list option, 'a kvirtio_scheme) kmonad" where
  "alloc3_loop 0 idx = ret (Some idx)"
| "alloc3_loop (Suc k) idx =
     bnd alloc_desc (\<lambda>r. case r of
       None \<Rightarrow> thn (foreach idx free_desc) (ret None)
     | Some i \<Rightarrow> alloc3_loop k (idx @ [i]))"

definition alloc3_desc :: "(nat list option, 'a kvirtio_scheme) kmonad" where
  "alloc3_desc = alloc3_loop 3 []"

section \<open>Requests\<close>

definition virtio_format :: "nat \<Rightarrow> bool \<Rightarrow> nat list \<Rightarrow> (unit, 'a kvirtio_scheme) kmonad" where
  "virtio_format b write idx =
     bnd (get_buf b) (\<lambda>bf.
     thn (writes (\<lambda>s. s\<lparr>vops := (vops s)(idx ! 0 :=
            \<lparr>vq_type = (if write then VIRTIO_BLK_T_OUT else VIRTIO_BLK_T_IN), vq_reserved = 0,
             vq_sector = sector (b_blockno bf)\<rparr>)\<rparr>)) (
     thn (upd_desc (idx ! 0) (\<lambda>_. \<lparr>vd_addr = DOps (idx ! 0), vd_len = 16,
            vd_flags = VRING_DESC_F_NEXT, vd_next = of_nat (idx ! 1)\<rparr>)) (
     thn (upd_desc (idx ! 1) (\<lambda>_. \<lparr>vd_addr = DData b, vd_len = of_nat BSIZE,
            vd_flags = (if write then 0 else VRING_DESC_F_WRITE) OR VRING_DESC_F_NEXT,
            vd_next = of_nat (idx ! 2)\<rparr>)) (
     thn (writes (\<lambda>s. s\<lparr>info_status := (info_status s)(idx ! 0 := 0xff)\<rparr>)) (
     thn (upd_desc (idx ! 2) (\<lambda>_. \<lparr>vd_addr = DStatus (idx ! 0), vd_len = 1,
            vd_flags = VRING_DESC_F_WRITE, vd_next = 0\<rparr>)) (
     thn (upd_buf b (\<lambda>bf. bf\<lparr>b_disk := True\<rparr>)) (
     thn (writes (\<lambda>s. s\<lparr>info_b := (info_b s)(idx ! 0 := Some b)\<rparr>)) (
     thn (writes (\<lambda>s. s\<lparr>avail_ring := (avail_ring s)(unat (avail_idx s) mod NUM := of_nat (idx ! 0))\<rparr>)) (
     thn (writes (\<lambda>s. s\<lparr>avail_idx := avail_idx s + 1\<rparr>))
         (wrreg VIRTIO_MMIO_QUEUE_NOTIFY 0))))))))))"

definition virtio_wait :: "nat \<Rightarrow> nat \<Rightarrow> (unit, 'a kvirtio_scheme) kmonad" where
  "virtio_wait b i =
     bnd (get_buf b) (\<lambda>bf.
     thn (mwhen (b_disk bf) (sleep (ChBuf b) LkDisk)) (
     thn (writes (\<lambda>s. s\<lparr>info_b := (info_b s)(i := None)\<rparr>)) (
     thn (free_chain i)
         (release LkDisk))))"

definition virtio_disk_rw_loop :: "nat \<Rightarrow> bool \<Rightarrow> (unit, 'a kvirtio_scheme) kmonad" where
  "virtio_disk_rw_loop b write =
     bnd alloc3_desc (\<lambda>r. case r of
       None \<Rightarrow> sleep ChDiskFree LkDisk
     | Some idx \<Rightarrow> thn (virtio_format b write idx) (virtio_wait b (idx ! 0)))"

definition virtio_disk_rw :: "nat \<Rightarrow> bool \<Rightarrow> (unit, 'a kvirtio_scheme) kmonad" where
  "virtio_disk_rw b write = thn (acquire LkDisk) (virtio_disk_rw_loop b write)"

text \<open>A thread that waited for descriptors tries again; one that waited for its request goes on after it.\<close>

definition virtio_disk_rw_retry :: "nat \<Rightarrow> bool \<Rightarrow> nat \<Rightarrow> bool \<Rightarrow> (unit, 'a kvirtio_scheme) kmonad" where
  "virtio_disk_rw_retry p ena b write = thn (sleep_resume p ena LkDisk) (virtio_disk_rw_loop b write)"

definition virtio_disk_rw_resume :: "nat \<Rightarrow> bool \<Rightarrow> nat \<Rightarrow> nat \<Rightarrow> (unit, 'a kvirtio_scheme) kmonad" where
  "virtio_disk_rw_resume p ena b i = thn (sleep_resume p ena LkDisk) (virtio_wait b i)"

section \<open>The interrupt\<close>

text \<open>The device adds at most \<open>2 ^ 16 - 1\<close> entries before the indices meet again.\<close>

primrec virtio_intr_loop :: "nat \<Rightarrow> (unit, 'a kvirtio_scheme) kmonad" where
  "virtio_intr_loop 0 = ret ()"
| "virtio_intr_loop (Suc n) =
     bnd (reads (\<lambda>s. used_ring s (unat (used_idx s) mod NUM))) (\<lambda>id.
     if NUM \<le> unat id then undef ''info overrun'' else
     bnd (reads (\<lambda>s. info_status s (unat id))) (\<lambda>status.
     if status \<noteq> 0 then panic ''virtio_disk_intr status'' else
     bnd (reads (\<lambda>s. info_b s (unat id))) (\<lambda>r. case r of
       None \<Rightarrow> undef ''null buf''
     | Some b \<Rightarrow>
         thn (upd_buf b (\<lambda>bf. bf\<lparr>b_disk := False\<rparr>)) (
         thn (wakeup (ChBuf b)) (
         thn (writes (\<lambda>s. s\<lparr>used_idx := used_idx s + 1\<rparr>))
             (virtio_intr_loop n))))))"

definition virtio_disk_intr :: "(unit, 'a kvirtio_scheme) kmonad" where
  "virtio_disk_intr =
     thn (acquire LkDisk) (
     bnd (rdreg VIRTIO_MMIO_INTERRUPT_STATUS) (\<lambda>st.
     thn (wrreg VIRTIO_MMIO_INTERRUPT_ACK (st AND 3)) (
     thn (bnd (reads (\<lambda>s. unat (used_idx_dev s - used_idx s))) virtio_intr_loop)
         (release LkDisk))))"

end
