(* ===== verification/Log.thy ===== *)
theory Log
  imports Virtio
begin

text \<open>
  \<^verbatim>\<open>kernel/log.c\<close>: the redo log that makes the block writes of a group of system calls atomic with respect to
  crashes. The in-memory header \<^verbatim>\<open>log.lh\<close> is the count \<open>lh_n\<close> and the \<^verbatim>\<open>LOGSIZE\<close> block numbers \<open>lh_block\<close>;
  on disk they are little-endian 32-bit integers in the header block.
\<close>

record klog = kvirtio +
  log_start :: uint
  log_size :: int
  log_outstanding :: int
  log_committing :: bool
  log_dev :: uint
  lh_n :: int
  lh_block :: "uint list"

definition upd_lh_block :: "nat \<Rightarrow> uint \<Rightarrow> (unit, 'a klog_scheme) kmonad" where
  "upd_lh_block i v =
     bnd (reads lh_block) (\<lambda>bl.
     if length bl \<le> i then undef ''lh.block overrun''
     else writes (\<lambda>s. s\<lparr>lh_block := bl[i := v]\<rparr>))"

definition install_trans1 :: "bool \<Rightarrow> nat \<Rightarrow> (unit, 'a klog_scheme) kmonad" where
  "install_trans1 recovering tail =
     bnd (reads (\<lambda>s. (log_dev s, log_start s, lh_block s))) (\<lambda>(dev, start, bl).
     if length bl \<le> tail then undef ''lh.block overrun'' else
     bnd (bread dev (start + of_nat tail + 1)) (\<lambda>lbuf.
     bnd (bread dev (bl ! tail)) (\<lambda>dbuf.
     bnd (get_bytes lbuf 0 BSIZE) (\<lambda>d.
     thn (put_bytes dbuf 0 d) (
     thn (bwrite dbuf) (
     thn (mwhen (\<not> recovering) (bunpin dbuf)) (
     thn (brelse lbuf)
         (brelse dbuf))))))))"

definition install_trans :: "bool \<Rightarrow> (unit, 'a klog_scheme) kmonad" where
  "install_trans recovering =
     bnd (reads lh_n) (\<lambda>n. foreach [0..<nat n] (install_trans1 recovering))"

definition read_head :: "(unit, 'a klog_scheme) kmonad" where
  "read_head =
     bnd (reads (\<lambda>s. (log_dev s, log_start s))) (\<lambda>(dev, start).
     bnd (bread dev start) (\<lambda>b.
     bnd (get32 b 0) (\<lambda>n.
     thn (writes (\<lambda>s. s\<lparr>lh_n := sint n\<rparr>)) (
     thn (foreach [0..<nat (sint n)] (\<lambda>i. bnd (get32 b (4 + 4 * i)) (upd_lh_block i)))
         (brelse b)))))"

definition write_head :: "(unit, 'a klog_scheme) kmonad" where
  "write_head =
     bnd (reads (\<lambda>s. (log_dev s, log_start s))) (\<lambda>(dev, start).
     bnd (bread dev start) (\<lambda>b.
     bnd (reads lh_n) (\<lambda>n.
     thn (put_bytes b 0 (bytes32 (word_of_int n))) (
     thn (foreach [0..<nat n] (\<lambda>i.
            bnd (reads lh_block) (\<lambda>bl.
            if length bl \<le> i then undef ''lh.block overrun''
            else put_bytes b (4 + 4 * i) (bytes32 (bl ! i))))) (
     thn (bwrite b)
         (brelse b))))))"

definition recover_from_log :: "(unit, 'a klog_scheme) kmonad" where
  "recover_from_log =
     thn read_head (
     thn (install_trans True) (
     thn (writes (\<lambda>s. s\<lparr>lh_n := 0\<rparr>))
         write_head))"

definition initlog :: "uint \<Rightarrow> uint \<Rightarrow> uint \<Rightarrow> (unit, 'a klog_scheme) kmonad" where
  "initlog dev logstart nlog =
     (if BSIZE \<le> 4 + 4 * LOGSIZE then panic ''initlog: too big logheader'' else
      thn (initlock LkLog ''log'') (
      thn (writes (\<lambda>s. s\<lparr>log_start := logstart\<rparr>)) (
      thn (writes (\<lambda>s. s\<lparr>log_size := sint nlog\<rparr>)) (
      thn (writes (\<lambda>s. s\<lparr>log_dev := dev\<rparr>))
          recover_from_log))))"

text \<open>\<open>begin_op_resume\<close> is another turn of the loop of \<^verbatim>\<open>begin_op\<close> after \<^verbatim>\<open>sleep\<close>.\<close>

definition begin_op_loop :: "(unit, 'a klog_scheme) kmonad" where
  "begin_op_loop =
     bnd (reads (\<lambda>s. (log_committing s, lh_n s, log_outstanding s))) (\<lambda>(committing, n, outs).
     if committing then sleep ChLog LkLog
     else if int LOGSIZE < n + (outs + 1) * int MAXOPBLOCKS then sleep ChLog LkLog
     else
       thn (writes (\<lambda>s. s\<lparr>log_outstanding := log_outstanding s + 1\<rparr>))
           (release LkLog))"

definition begin_op :: "(unit, 'a klog_scheme) kmonad" where
  "begin_op = thn (acquire LkLog) begin_op_loop"

definition begin_op_resume :: "nat \<Rightarrow> bool \<Rightarrow> (unit, 'a klog_scheme) kmonad" where
  "begin_op_resume p ena = thn (sleep_resume p ena LkLog) begin_op_loop"

definition write_log1 :: "nat \<Rightarrow> (unit, 'a klog_scheme) kmonad" where
  "write_log1 tail =
     bnd (reads (\<lambda>s. (log_dev s, log_start s, lh_block s))) (\<lambda>(dev, start, bl).
     if length bl \<le> tail then undef ''lh.block overrun'' else
     bnd (bread dev (start + of_nat tail + 1)) (\<lambda>to.
     bnd (bread dev (bl ! tail)) (\<lambda>from.
     bnd (get_bytes from 0 BSIZE) (\<lambda>d.
     thn (put_bytes to 0 d) (
     thn (bwrite to) (
     thn (brelse from)
         (brelse to)))))))"

definition write_log :: "(unit, 'a klog_scheme) kmonad" where
  "write_log = bnd (reads lh_n) (\<lambda>n. foreach [0..<nat n] write_log1)"

definition commit :: "(unit, 'a klog_scheme) kmonad" where
  "commit =
     bnd (reads lh_n) (\<lambda>n.
     mwhen (0 < n) (
       thn write_log (
       thn write_head (
       thn (install_trans False) (
       thn (writes (\<lambda>s. s\<lparr>lh_n := 0\<rparr>))
           write_head)))))"

definition end_op :: "(unit, 'a klog_scheme) kmonad" where
  "end_op =
     thn (acquire LkLog) (
     thn (writes (\<lambda>s. s\<lparr>log_outstanding := log_outstanding s - 1\<rparr>)) (
     bnd (reads log_committing) (\<lambda>committing.
     if committing then panic ''log.committing'' else
     bnd (reads log_outstanding) (\<lambda>outs.
     if outs = 0 then
       thn (writes (\<lambda>s. s\<lparr>log_committing := True\<rparr>)) (
       thn (release LkLog) (
       thn commit (
       thn (acquire LkLog) (
       thn (writes (\<lambda>s. s\<lparr>log_committing := False\<rparr>)) (
       thn (wakeup ChLog)
           (release LkLog))))))
     else
       thn (wakeup ChLog)
           (release LkLog)))))"

text \<open>The loop of \<^verbatim>\<open>log_write\<close> looks for the block among the logged ones; \<open>i = n\<close> when it is not there.\<close>

primrec absorb :: "uint list \<Rightarrow> uint \<Rightarrow> nat \<Rightarrow> nat \<Rightarrow> nat" where
  "absorb bl bno i 0 = i"
| "absorb bl bno i (Suc k) = (if bl ! i = bno then i else absorb bl bno (Suc i) k)"

definition log_write :: "nat \<Rightarrow> (unit, 'a klog_scheme) kmonad" where
  "log_write b =
     thn (acquire LkLog) (
     bnd (reads (\<lambda>s. (lh_n s, log_size s, log_outstanding s, lh_block s))) (\<lambda>(n, sz, outs, bl).
     if int LOGSIZE \<le> n \<or> sz - 1 \<le> n then panic ''too big a transaction''
     else if outs < 1 then panic ''log_write outside of trans''
     else
       bnd (get_buf b) (\<lambda>bf.
       let i = absorb bl (b_blockno bf) 0 (nat n) in
       thn (upd_lh_block i (b_blockno bf)) (
       thn (mwhen (int i = n) (
              thn (bpin b)
                  (writes (\<lambda>s. s\<lparr>lh_n := lh_n s + 1\<rparr>))))
           (release LkLog)))))"

end
