(* ===== verification/FS.thy ===== *)
theory FS
  imports Log
begin

text \<open>
  \<^verbatim>\<open>kernel/fs.c\<close>: block allocation, inodes, file contents, directories and path names. The inode table is
  \<open>inodes\<close>, indexed by position; \<open>sb\<close> is the in-memory superblock. On-disk structures are read and
  written as the bytes of their buffers, with the layout of \<^verbatim>\<open>kernel/fs.h\<close>. Path names are byte lists without
  the terminating NUL.
\<close>

section \<open>Layout (kernel/fs.h, kernel/file.h, kernel/stat.h)\<close>

definition ROOTINO :: uint where "ROOTINO = 1"
definition FSMAGIC :: uint where "FSMAGIC = 0x10203040"
definition NDIRECT :: nat where "NDIRECT = 12"
definition NINDIRECT :: nat where "NINDIRECT = BSIZE div 4"
definition MAXFILE :: nat where "MAXFILE = NDIRECT + NINDIRECT"
definition DINODE_SIZE :: nat where "DINODE_SIZE = 64"
definition IPB :: nat where "IPB = BSIZE div DINODE_SIZE"
definition BPB :: nat where "BPB = BSIZE * 8"
definition DIRSIZ :: nat where "DIRSIZ = 14"
definition DIRENT_SIZE :: nat where "DIRENT_SIZE = 16"
definition T_DIR :: ushort where "T_DIR = 1"
definition T_FILE :: ushort where "T_FILE = 2"
definition T_DEVICE :: ushort where "T_DEVICE = 3"

record superblock =
  sb_magic :: uint
  sb_size :: uint
  sb_nblocks :: uint
  sb_ninodes :: uint
  sb_nlog :: uint
  sb_logstart :: uint
  sb_inodestart :: uint
  sb_bmapstart :: uint

record inode =
  i_dev :: uint
  i_inum :: uint
  i_ref :: int
  i_valid :: bool
  i_type :: ushort
  i_major :: ushort
  i_minor :: ushort
  i_nlink :: ushort
  i_size :: uint
  i_addrs :: "uint list"

record dinode =
  di_type :: ushort
  di_major :: ushort
  di_minor :: ushort
  di_nlink :: ushort
  di_size :: uint
  di_addrs :: "uint list"

record dirent =
  de_inum :: ushort
  de_name :: "uchar list"

record stat =
  st_dev :: uint
  st_ino :: uint
  st_type :: ushort
  st_nlink :: ushort
  st_size :: uint64

definition IBLOCK :: "uint \<Rightarrow> superblock \<Rightarrow> uint" where
  "IBLOCK i sb = i div of_nat IPB + sb_inodestart sb"

definition BBLOCK :: "uint \<Rightarrow> superblock \<Rightarrow> uint" where
  "BBLOCK b sb = b div of_nat BPB + sb_bmapstart sb"

definition dec_superblock :: "uchar list \<Rightarrow> superblock" where
  "dec_superblock d = \<lparr>sb_magic = le32 d 0, sb_size = le32 d 4, sb_nblocks = le32 d 8,
     sb_ninodes = le32 d 12, sb_nlog = le32 d 16, sb_logstart = le32 d 20,
     sb_inodestart = le32 d 24, sb_bmapstart = le32 d 28\<rparr>"

definition dec_dinode :: "uchar list \<Rightarrow> dinode" where
  "dec_dinode d = \<lparr>di_type = le16 d 0, di_major = le16 d 2, di_minor = le16 d 4, di_nlink = le16 d 6,
     di_size = le32 d 8, di_addrs = map (\<lambda>i. le32 d (12 + 4 * i)) [0..<NDIRECT + 1]\<rparr>"

definition enc_dinode :: "dinode \<Rightarrow> uchar list" where
  "enc_dinode i = bytes16 (di_type i) @ bytes16 (di_major i) @ bytes16 (di_minor i) @
     bytes16 (di_nlink i) @ bytes32 (di_size i) @ concat (map bytes32 (di_addrs i))"

definition dec_dirent :: "uchar list \<Rightarrow> dirent" where
  "dec_dirent d = \<lparr>de_inum = le16 d 0, de_name = take DIRSIZ (drop 2 d)\<rparr>"

definition enc_dirent :: "dirent \<Rightarrow> uchar list" where
  "enc_dirent de = bytes16 (de_inum de) @ de_name de"

record kfs = klog +
  sb :: superblock
  inodes :: "nat \<Rightarrow> inode"

definition get_inode :: "nat \<Rightarrow> (inode, 'a kfs_scheme) kmonad" where
  "get_inode i = reads (\<lambda>s. inodes s i)"

definition upd_inode :: "nat \<Rightarrow> (inode \<Rightarrow> inode) \<Rightarrow> (unit, 'a kfs_scheme) kmonad" where
  "upd_inode i f = writes (\<lambda>s. s\<lparr>inodes := (inodes s)(i := f (inodes s i))\<rparr>)"

section \<open>Blocks\<close>

definition readsb :: "uint \<Rightarrow> (unit, 'a kfs_scheme) kmonad" where
  "readsb dev =
     bnd (bread dev 1) (\<lambda>bp.
     bnd (get_bytes bp 0 32) (\<lambda>d.
     thn (writes (\<lambda>s. s\<lparr>sb := dec_superblock d\<rparr>))
         (brelse bp)))"

definition fsinit :: "uint \<Rightarrow> (unit, 'a kfs_scheme) kmonad" where
  "fsinit dev =
     thn (readsb dev) (
     bnd (reads sb) (\<lambda>b.
     if sb_magic b \<noteq> FSMAGIC then panic ''invalid file system''
     else initlog dev (sb_logstart b) (sb_nlog b)))"

definition bzero :: "uint \<Rightarrow> uint \<Rightarrow> (unit, 'a kfs_scheme) kmonad" where
  "bzero dev bno =
     bnd (bread dev bno) (\<lambda>bp.
     thn (put_bytes bp 0 (replicate BSIZE 0)) (
     thn (log_write bp)
         (brelse bp)))"

definition bit_mask :: "nat \<Rightarrow> uchar" where
  "bit_mask bi = push_bit (bi mod 8) 1"

text \<open>
  The inner loop of \<^verbatim>\<open>balloc\<close>: the first \<^verbatim>\<open>bi\<close> below the bound whose bit is clear. The outer loop's \<^verbatim>\<open>int b\<close>
  overflows, which is undefined, on a disk of more than \<open>2 ^ 31\<close> blocks.
\<close>

definition first_clear :: "uchar list \<Rightarrow> nat \<Rightarrow> nat option" where
  "first_clear d n = find (\<lambda>bi. d ! (bi div 8) AND bit_mask bi = 0) [0..<n]"

function balloc_loop :: "uint \<Rightarrow> nat \<Rightarrow> superblock \<Rightarrow> (uint, 'a kfs_scheme) kmonad" where
  "balloc_loop dev b sbk =
     (if unat (sb_size sbk) \<le> b then
        thn (printf (''balloc: out of blocks'' @ [CHR 0x0A]) []) (ret 0)
      else if 2 ^ 31 \<le> b then undef ''int overflow''
      else
        bnd (bread dev (BBLOCK (of_nat b) sbk)) (\<lambda>bp.
        bnd (get_bytes bp 0 BSIZE) (\<lambda>d.
        case first_clear d (min BPB (unat (sb_size sbk) - b)) of
          Some bi \<Rightarrow>
            thn (put_bytes bp (bi div 8) [d ! (bi div 8) OR bit_mask bi]) (
            thn (log_write bp) (
            thn (brelse bp) (
            thn (bzero dev (of_nat (b + bi)))
                (ret (of_nat (b + bi))))))
        | None \<Rightarrow> thn (brelse bp) (balloc_loop dev (b + BPB) sbk))))"
  by pat_completeness auto
termination
  by (relation "measure (\<lambda>(dev, b, sbk). unat (sb_size sbk) - b)") (auto simp: BPB_def BSIZE_def)

declare balloc_loop.simps [simp del]

definition balloc :: "uint \<Rightarrow> (uint, 'a kfs_scheme) kmonad" where
  "balloc dev = bnd (reads sb) (balloc_loop dev 0)"

definition bfree :: "uint \<Rightarrow> uint \<Rightarrow> (unit, 'a kfs_scheme) kmonad" where
  "bfree dev b =
     bnd (reads sb) (\<lambda>sbk.
     bnd (bread dev (BBLOCK b sbk)) (\<lambda>bp.
     let bi = unat b mod BPB in
     bnd (get_bytes bp (bi div 8) 1) (\<lambda>d.
     if hd d AND bit_mask bi = 0 then panic ''freeing free block'' else
     thn (put_bytes bp (bi div 8) [hd d AND NOT (bit_mask bi)]) (
     thn (log_write bp)
         (brelse bp)))))"

section \<open>Inodes\<close>

definition iinit :: "(unit, 'a kfs_scheme) kmonad" where
  "iinit =
     thn (initlock LkItable ''itable'')
         (foreach [0..<NINODE] (\<lambda>i. initsleeplock (SlInode i) ''inode''))"

text \<open>The scan of \<^verbatim>\<open>iget\<close>: the entry of the inode, or the first empty slot.\<close>

primrec iget_scan :: "uint \<Rightarrow> uint \<Rightarrow> nat option \<Rightarrow> nat list \<Rightarrow> (nat + nat option, 'a kfs_scheme) kmonad" where
  "iget_scan dev inum slot [] = ret (Inr slot)"
| "iget_scan dev inum slot (i # is) =
     bnd (get_inode i) (\<lambda>ip.
     if 0 < i_ref ip \<and> i_dev ip = dev \<and> i_inum ip = inum then ret (Inl i)
     else iget_scan dev inum (if slot = None \<and> i_ref ip = 0 then Some i else slot) is)"

definition iget :: "uint \<Rightarrow> uint \<Rightarrow> (nat, 'a kfs_scheme) kmonad" where
  "iget dev inum =
     thn (acquire LkItable) (
     bnd (iget_scan dev inum None [0..<NINODE]) (\<lambda>r. case r of
       Inl i \<Rightarrow>
         thn (upd_inode i (\<lambda>ip. ip\<lparr>i_ref := i_ref ip + 1\<rparr>)) (
         thn (release LkItable)
             (ret i))
     | Inr None \<Rightarrow> panic ''iget: no inodes''
     | Inr (Some i) \<Rightarrow>
         thn (upd_inode i (\<lambda>ip. ip\<lparr>i_dev := dev\<rparr>)) (
         thn (upd_inode i (\<lambda>ip. ip\<lparr>i_inum := inum\<rparr>)) (
         thn (upd_inode i (\<lambda>ip. ip\<lparr>i_ref := 1\<rparr>)) (
         thn (upd_inode i (\<lambda>ip. ip\<lparr>i_valid := False\<rparr>)) (
         thn (release LkItable)
             (ret i)))))))"

definition dinode_off :: "uint \<Rightarrow> nat" where
  "dinode_off inum = DINODE_SIZE * (unat inum mod IPB)"

text \<open>The loop of \<^verbatim>\<open>ialloc\<close> over the inode numbers from 1 up.\<close>

primrec ialloc_loop :: "uint \<Rightarrow> ushort \<Rightarrow> superblock \<Rightarrow> nat list \<Rightarrow> (nat option, 'a kfs_scheme) kmonad" where
  "ialloc_loop dev type sbk [] = thn (printf (''ialloc: no inodes'' @ [CHR 0x0A]) []) (ret None)"
| "ialloc_loop dev type sbk (inum # inums) =
     bnd (bread dev (IBLOCK (of_nat inum) sbk)) (\<lambda>bp.
     bnd (get_bytes bp (dinode_off (of_nat inum)) DINODE_SIZE) (\<lambda>d.
     if le16 d 0 = 0 then
       thn (put_bytes bp (dinode_off (of_nat inum)) (replicate DINODE_SIZE 0)) (
       thn (put_bytes bp (dinode_off (of_nat inum)) (bytes16 type)) (
       thn (log_write bp) (
       thn (brelse bp)
           (bnd (iget dev (of_nat inum)) (\<lambda>i. ret (Some i))))))
     else thn (brelse bp) (ialloc_loop dev type sbk inums)))"

definition ialloc :: "uint \<Rightarrow> ushort \<Rightarrow> (nat option, 'a kfs_scheme) kmonad" where
  "ialloc dev type = bnd (reads sb) (\<lambda>sbk. ialloc_loop dev type sbk [1..<unat (sb_ninodes sbk)])"

definition to_dinode :: "inode \<Rightarrow> dinode" where
  "to_dinode ip = \<lparr>di_type = i_type ip, di_major = i_major ip, di_minor = i_minor ip,
     di_nlink = i_nlink ip, di_size = i_size ip, di_addrs = i_addrs ip\<rparr>"

definition iupdate :: "nat \<Rightarrow> (unit, 'a kfs_scheme) kmonad" where
  "iupdate i =
     bnd (reads sb) (\<lambda>sbk.
     bnd (get_inode i) (\<lambda>ip.
     bnd (bread (i_dev ip) (IBLOCK (i_inum ip) sbk)) (\<lambda>bp.
     thn (put_bytes bp (dinode_off (i_inum ip)) (enc_dinode (to_dinode ip))) (
     thn (log_write bp)
         (brelse bp)))))"

definition idup :: "nat \<Rightarrow> (nat, 'a kfs_scheme) kmonad" where
  "idup i =
     thn (acquire LkItable) (
     thn (upd_inode i (\<lambda>ip. ip\<lparr>i_ref := i_ref ip + 1\<rparr>)) (
     thn (release LkItable)
         (ret i)))"

definition from_dinode :: "dinode \<Rightarrow> inode \<Rightarrow> inode" where
  "from_dinode d ip = ip\<lparr>i_type := di_type d, i_major := di_major d, i_minor := di_minor d,
     i_nlink := di_nlink d, i_size := di_size d, i_addrs := di_addrs d\<rparr>"

definition ilock :: "nat \<Rightarrow> (unit, 'a kfs_scheme) kmonad" where
  "ilock i =
     bnd (get_inode i) (\<lambda>ip0.
     if i_ref ip0 < 1 then panic ''ilock'' else
     thn (acquiresleep (SlInode i)) (
     bnd (get_inode i) (\<lambda>ip.
     mwhen (\<not> i_valid ip) (
       bnd (reads sb) (\<lambda>sbk.
       bnd (bread (i_dev ip) (IBLOCK (i_inum ip) sbk)) (\<lambda>bp.
       bnd (get_bytes bp (dinode_off (i_inum ip)) DINODE_SIZE) (\<lambda>d.
       thn (upd_inode i (from_dinode (dec_dinode d))) (
       thn (brelse bp) (
       thn (upd_inode i (\<lambda>ip. ip\<lparr>i_valid := True\<rparr>)) (
       bnd (get_inode i) (\<lambda>ip.
       if i_type ip = 0 then panic ''ilock: no type'' else ret ())))))))))))"

definition iunlock :: "nat \<Rightarrow> (unit, 'a kfs_scheme) kmonad" where
  "iunlock i =
     bnd (holdingsleep (SlInode i)) (\<lambda>h.
     bnd (get_inode i) (\<lambda>ip.
     if \<not> h \<or> i_ref ip < 1 then panic ''iunlock'' else releasesleep (SlInode i)))"

section \<open>Inode content\<close>

text \<open>
  The indirect part of \<^verbatim>\<open>bmap\<close>: the entry \<open>bn\<close> of the indirect block \<open>a\<close>, allocated when it is 0.
\<close>

definition bmap_indirect :: "uint \<Rightarrow> uint \<Rightarrow> nat \<Rightarrow> (uint, 'a kfs_scheme) kmonad" where
  "bmap_indirect dev a bn =
     bnd (bread dev a) (\<lambda>bp.
     bnd (get32 bp (4 * bn)) (\<lambda>addr.
     if addr = 0 then
       bnd (balloc dev) (\<lambda>addr.
       thn (mwhen (addr \<noteq> 0) (
              thn (put_bytes bp (4 * bn) (bytes32 addr))
                  (log_write bp))) (
       thn (brelse bp)
           (ret addr)))
     else thn (brelse bp) (ret addr)))"

definition bmap :: "nat \<Rightarrow> nat \<Rightarrow> (uint, 'a kfs_scheme) kmonad" where
  "bmap i bn =
     bnd (get_inode i) (\<lambda>ip.
     if bn < NDIRECT then
       if i_addrs ip ! bn = 0 then
         bnd (balloc (i_dev ip)) (\<lambda>addr.
         if addr = 0 then ret 0 else
         thn (upd_inode i (\<lambda>ip. ip\<lparr>i_addrs := (i_addrs ip)[bn := addr]\<rparr>))
             (ret addr))
       else ret (i_addrs ip ! bn)
     else if bn - NDIRECT < NINDIRECT then
       if i_addrs ip ! NDIRECT = 0 then
         bnd (balloc (i_dev ip)) (\<lambda>addr.
         if addr = 0 then ret 0 else
         thn (upd_inode i (\<lambda>ip. ip\<lparr>i_addrs := (i_addrs ip)[NDIRECT := addr]\<rparr>))
             (bmap_indirect (i_dev ip) addr (bn - NDIRECT)))
       else bmap_indirect (i_dev ip) (i_addrs ip ! NDIRECT) (bn - NDIRECT)
     else panic ''bmap: out of range'')"

definition itrunc :: "nat \<Rightarrow> (unit, 'a kfs_scheme) kmonad" where
  "itrunc i =
     thn (foreach [0..<NDIRECT] (\<lambda>k.
            bnd (get_inode i) (\<lambda>ip.
            mwhen (i_addrs ip ! k \<noteq> 0) (
              thn (bfree (i_dev ip) (i_addrs ip ! k))
                  (upd_inode i (\<lambda>ip. ip\<lparr>i_addrs := (i_addrs ip)[k := 0]\<rparr>)))))) (
     thn (bnd (get_inode i) (\<lambda>ip.
          mwhen (i_addrs ip ! NDIRECT \<noteq> 0) (
            bnd (bread (i_dev ip) (i_addrs ip ! NDIRECT)) (\<lambda>bp.
            thn (foreach [0..<NINDIRECT] (\<lambda>j.
                   bnd (get32 bp (4 * j)) (\<lambda>a.
                   mwhen (a \<noteq> 0) (bfree (i_dev ip) a)))) (
            thn (brelse bp) (
            thn (bfree (i_dev ip) (i_addrs ip ! NDIRECT))
                (upd_inode i (\<lambda>ip. ip\<lparr>i_addrs := (i_addrs ip)[NDIRECT := 0]\<rparr>))))))))  (
     thn (upd_inode i (\<lambda>ip. ip\<lparr>i_size := 0\<rparr>))
         (iupdate i)))"

definition iput :: "nat \<Rightarrow> (unit, 'a kfs_scheme) kmonad" where
  "iput i =
     thn (acquire LkItable) (
     bnd (get_inode i) (\<lambda>ip.
     thn (mwhen (i_ref ip = 1 \<and> i_valid ip \<and> i_nlink ip = 0) (
            thn (acquiresleep (SlInode i)) (
            thn (release LkItable) (
            thn (itrunc i) (
            thn (upd_inode i (\<lambda>ip. ip\<lparr>i_type := 0\<rparr>)) (
            thn (iupdate i) (
            thn (upd_inode i (\<lambda>ip. ip\<lparr>i_valid := False\<rparr>)) (
            thn (releasesleep (SlInode i))
                (acquire LkItable))))))))) (
     thn (upd_inode i (\<lambda>ip. ip\<lparr>i_ref := i_ref ip - 1\<rparr>))
         (release LkItable))))"

definition iunlockput :: "nat \<Rightarrow> (unit, 'a kfs_scheme) kmonad" where
  "iunlockput i = thn (iunlock i) (iput i)"

definition stati :: "nat \<Rightarrow> (stat, 'a kfs_scheme) kmonad" where
  "stati i =
     bnd (get_inode i) (\<lambda>ip.
     ret \<lparr>st_dev = i_dev ip, st_ino = i_inum ip, st_type = i_type ip, st_nlink = i_nlink ip,
          st_size = ucast (i_size ip)\<rparr>)"

text \<open>
  \<^verbatim>\<open>readi\<close> and \<^verbatim>\<open>writei\<close> check that \<^verbatim>\<open>off + n\<close> does not wrap around before they start; then the loops count
  without overflow. \<open>tot\<close> bytes are done, and each round handles the part of one block.
\<close>

definition chunk :: "nat \<Rightarrow> nat \<Rightarrow> nat" where
  "chunk left off = min left (BSIZE - off mod BSIZE)"

lemma chunk_pos: "0 < left \<Longrightarrow> 0 < chunk left off"
  by (simp add: chunk_def BSIZE_def)

function readi_loop :: "nat \<Rightarrow> eaddr \<Rightarrow> nat \<Rightarrow> nat \<Rightarrow> nat \<Rightarrow> (int, 'a kfs_scheme) kmonad" where
  "readi_loop i dst off tot n =
     (if n \<le> tot then ret (int tot) else
      bnd (bmap i (off div BSIZE)) (\<lambda>addr.
      if addr = 0 then ret (int tot) else
      bnd (get_inode i) (\<lambda>ip.
      bnd (bread (i_dev ip) addr) (\<lambda>bp.
      let m = chunk (n - tot) off in
      bnd (get_bytes bp (off mod BSIZE) m) (\<lambda>d.
      bnd (either_copyout dst d) (\<lambda>r.
      if r = -1 then thn (brelse bp) (ret (-1))
      else thn (brelse bp) (readi_loop i (eadd dst m) (off + m) (tot + m) n)))))))"
  by pat_completeness auto
termination
  by (relation "measure (\<lambda>(i, dst, off, tot, n). n - tot)")
    (auto intro!: diff_less_mono2 simp: chunk_pos)

declare readi_loop.simps [simp del]

definition readi :: "nat \<Rightarrow> eaddr \<Rightarrow> uint \<Rightarrow> uint \<Rightarrow> (int, 'a kfs_scheme) kmonad" where
  "readi i dst off n =
     bnd (get_inode i) (\<lambda>ip.
     if i_size ip < off \<or> off + n < off then ret 0 else
     let n' = (if i_size ip < off + n then i_size ip - off else n) in
     readi_loop i dst (unat off) 0 (unat n'))"

text \<open>The loop of \<^verbatim>\<open>writei\<close> returns the count and the final offset.\<close>

function writei_loop :: "nat \<Rightarrow> eaddr \<Rightarrow> nat \<Rightarrow> nat \<Rightarrow> nat \<Rightarrow> (nat \<times> nat, 'a kfs_scheme) kmonad" where
  "writei_loop i src off tot n =
     (if n \<le> tot then ret (tot, off) else
      bnd (bmap i (off div BSIZE)) (\<lambda>addr.
      if addr = 0 then ret (tot, off) else
      bnd (get_inode i) (\<lambda>ip.
      bnd (bread (i_dev ip) addr) (\<lambda>bp.
      let m = chunk (n - tot) off in
      bnd (either_copyin src m) (\<lambda>r.
      thn (put_bytes bp (off mod BSIZE) (snd r)) (
      if fst r = -1 then thn (brelse bp) (ret (tot, off))
      else
        thn (log_write bp) (
        thn (brelse bp)
            (writei_loop i (eadd src m) (off + m) (tot + m) n))))))))"
  by pat_completeness auto
termination
  by (relation "measure (\<lambda>(i, src, off, tot, n). n - tot)")
    (auto intro!: diff_less_mono2 simp: chunk_pos)

declare writei_loop.simps [simp del]

definition writei :: "nat \<Rightarrow> eaddr \<Rightarrow> uint \<Rightarrow> uint \<Rightarrow> (int, 'a kfs_scheme) kmonad" where
  "writei i src off n =
     bnd (get_inode i) (\<lambda>ip.
     if i_size ip < off \<or> off + n < off then ret (-1)
     else if MAXFILE * BSIZE < unat (off + n) then ret (-1)
     else
       bnd (writei_loop i src (unat off) 0 (unat n)) (\<lambda>(tot, off').
       bnd (get_inode i) (\<lambda>ip.
       thn (mwhen (unat (i_size ip) < off') (upd_inode i (\<lambda>ip. ip\<lparr>i_size := of_nat off'\<rparr>))) (
       thn (iupdate i)
           (ret (int tot))))))"

section \<open>Directories\<close>

definition namecmp :: "uchar list \<Rightarrow> uchar list \<Rightarrow> int" where
  "namecmp s t = strncmp (at0 s) (at0 t) DIRSIZ"

text \<open>
  The local \<^verbatim>\<open>struct dirent de\<close> is the kernel buffer; its bytes are all written before they are read.
\<close>

definition new_kbuf :: "nat \<Rightarrow> (unit, 'a kcons_scheme) kmonad" where
  "new_kbuf n = writes (\<lambda>s. s\<lparr>kbuf := replicate n 0\<rparr>)"

definition read_dirent :: "nat \<Rightarrow> nat \<Rightarrow> string \<Rightarrow> (dirent, 'a kfs_scheme) kmonad" where
  "read_dirent dp off msg =
     bnd (readi dp (KernBuf 0) (of_nat off) (of_nat DIRENT_SIZE)) (\<lambda>r.
     if r \<noteq> int DIRENT_SIZE then panic msg else reads (\<lambda>s. dec_dirent (kbuf s)))"

definition dir_offs :: "uint \<Rightarrow> nat list" where
  "dir_offs sz = map (\<lambda>k. DIRENT_SIZE * k) [0..<(unat sz + 15) div DIRENT_SIZE]"

primrec dirlookup_loop :: "nat \<Rightarrow> uchar list \<Rightarrow> nat list \<Rightarrow> ((nat \<times> nat) option, 'a kfs_scheme) kmonad" where
  "dirlookup_loop dp name [] = ret None"
| "dirlookup_loop dp name (off # offs) =
     bnd (read_dirent dp off ''dirlookup read'') (\<lambda>de.
     if de_inum de = 0 then dirlookup_loop dp name offs
     else if namecmp name (de_name de) = 0 then
       bnd (get_inode dp) (\<lambda>d.
       bnd (iget (i_dev d) (ucast (de_inum de))) (\<lambda>i. ret (Some (i, off))))
     else dirlookup_loop dp name offs)"

text \<open>The result is the inode and the offset that the code stores through \<^verbatim>\<open>poff\<close>.\<close>

definition dirlookup :: "nat \<Rightarrow> uchar list \<Rightarrow> ((nat \<times> nat) option, 'a kfs_scheme) kmonad" where
  "dirlookup dp name =
     bnd (get_inode dp) (\<lambda>d.
     if i_type d \<noteq> T_DIR then panic ''dirlookup not DIR'' else
     thn (new_kbuf DIRENT_SIZE)
         (dirlookup_loop dp name (dir_offs (i_size d))))"

text \<open>The offset at which \<^verbatim>\<open>dirlink\<close>'s search for an empty entry stops.\<close>

primrec empty_dirent :: "nat \<Rightarrow> nat \<Rightarrow> nat list \<Rightarrow> (nat, 'a kfs_scheme) kmonad" where
  "empty_dirent dp last_off [] = ret last_off"
| "empty_dirent dp last_off (off # offs) =
     bnd (read_dirent dp off ''dirlink read'') (\<lambda>de.
     if de_inum de = 0 then ret off else empty_dirent dp (off + DIRENT_SIZE) offs)"

text \<open>\<^verbatim>\<open>strncpy(de.name, name, DIRSIZ)\<close> on byte lists.\<close>

definition dirent_name :: "uchar list \<Rightarrow> uchar list" where
  "dirent_name name = (let s = take DIRSIZ (takeWhile (\<lambda>c. c \<noteq> 0) name) in
     s @ replicate (DIRSIZ - length s) 0)"

definition dirlink :: "nat \<Rightarrow> uchar list \<Rightarrow> uint \<Rightarrow> (int, 'a kfs_scheme) kmonad" where
  "dirlink dp name inum =
     bnd (dirlookup dp name) (\<lambda>r. case r of
       Some (ip, _) \<Rightarrow> thn (iput ip) (ret (-1))
     | None \<Rightarrow>
         thn (new_kbuf DIRENT_SIZE) (
         bnd (get_inode dp) (\<lambda>d.
         bnd (empty_dirent dp 0 (dir_offs (i_size d))) (\<lambda>off.
         thn (writes (\<lambda>s. s\<lparr>kbuf := enc_dirent \<lparr>de_inum = ucast inum, de_name = dirent_name name\<rparr>\<rparr>)) (
         bnd (writei dp (KernBuf 0) (of_nat off) (of_nat DIRENT_SIZE)) (\<lambda>r.
         if r \<noteq> int DIRENT_SIZE then ret (-1) else ret 0))))))"

section \<open>Paths\<close>

abbreviation slash :: uchar where "slash \<equiv> 0x2f"

text \<open>The rest of the path and the new contents of \<^verbatim>\<open>char name[DIRSIZ]\<close>; \<open>None\<close> when no element is left.\<close>

definition skipelem :: "uchar list \<Rightarrow> uchar list \<Rightarrow> (uchar list \<times> uchar list) option" where
  "skipelem path name =
     (let p = dropWhile (\<lambda>c. c = slash) path in
      if p = [] then None else
      let s = takeWhile (\<lambda>c. c \<noteq> slash) p;
          rest = dropWhile (\<lambda>c. c \<noteq> slash) p;
          name' = (if DIRSIZ \<le> length s then splice name 0 (take DIRSIZ s)
                   else splice name 0 (s @ [0])) in
      Some (dropWhile (\<lambda>c. c = slash) rest, name'))"

lemma skipelem_shorter: "skipelem path name = Some (path', name') \<Longrightarrow> length path' < length path"
proof -
  assume "skipelem path name = Some (path', name')"
  then have ne: "dropWhile (\<lambda>c. c = slash) path \<noteq> []"
    and p: "path' = dropWhile (\<lambda>c. c = slash) (dropWhile (\<lambda>c. c \<noteq> slash) (dropWhile (\<lambda>c. c = slash) path))"
    by (auto simp: skipelem_def Let_def split: if_splits)
  obtain x xs where x: "dropWhile (\<lambda>c. c = slash) path = x # xs" using ne by (cases "dropWhile (\<lambda>c. c = slash) path") auto
  then have "x \<noteq> slash" using hd_dropWhile [OF ne] by simp
  then have "length (dropWhile (\<lambda>c. c \<noteq> slash) (x # xs)) \<le> length xs"
    by (simp add: length_dropWhile_le)
  then have "length path' \<le> length xs" using p x length_dropWhile_le le_trans by metis
  also have "\<dots> < length path" using x length_dropWhile_le [of "\<lambda>c. c = slash" path] by simp
  finally show ?thesis .
qed

function namex_loop :: "nat \<Rightarrow> uchar list \<Rightarrow> bool \<Rightarrow> uchar list \<Rightarrow>
    ((nat \<times> uchar list) option, 'a kfs_scheme) kmonad" where
  "namex_loop ip path nameiparent name =
     (case skipelem path name of
        None \<Rightarrow>
          if nameiparent then thn (iput ip) (ret None) else ret (Some (ip, name))
      | Some (path', name') \<Rightarrow>
          thn (ilock ip) (
          bnd (get_inode ip) (\<lambda>d.
          if i_type d \<noteq> T_DIR then thn (iunlockput ip) (ret None)
          else if nameiparent \<and> path' = [] then thn (iunlock ip) (ret (Some (ip, name')))
          else
            bnd (dirlookup ip name') (\<lambda>r. case r of
              None \<Rightarrow> thn (iunlockput ip) (ret None)
            | Some (next', _) \<Rightarrow>
                thn (iunlockput ip)
                    (namex_loop next' path' nameiparent name')))))"
  by pat_completeness auto
termination
  by (relation "measure (\<lambda>(ip, path, np, name). length path)") (auto dest: skipelem_shorter)

declare namex_loop.simps [simp del]

definition namex :: "uchar list \<Rightarrow> bool \<Rightarrow> uchar list \<Rightarrow> ((nat \<times> uchar list) option, 'a kfs_scheme) kmonad" where
  "namex path nameiparent name =
     bnd (if path \<noteq> [] \<and> hd path = slash then iget ROOTDEV ROOTINO
          else bnd myprocx (\<lambda>p. bnd (get_proc p) (\<lambda>pr. case p_cwd pr of
                 None \<Rightarrow> undef ''null cwd''
               | Some c \<Rightarrow> idup c)))
         (\<lambda>ip. namex_loop ip path nameiparent name)"

definition namei :: "uchar list \<Rightarrow> (nat option, 'a kfs_scheme) kmonad" where
  "namei path = bnd (namex path False (replicate DIRSIZ 0)) (\<lambda>r. ret (map_option fst r))"

definition nameiparent :: "uchar list \<Rightarrow> ((nat \<times> uchar list) option, 'a kfs_scheme) kmonad" where
  "nameiparent path = namex path True (replicate DIRSIZ 0)"

end
