(* ===== verification/File.thy ===== *)
theory File
  imports FS
begin

text \<open>
  \<^verbatim>\<open>kernel/file.c\<close> and \<^verbatim>\<open>kernel/pipe.c\<close>: open files and pipes. A pipe lives in a page from \<^verbatim>\<open>kalloc\<close>; \<open>pipes\<close>
  maps the address of the page to the structure in it. A reader or writer that sleeps goes on with the
  \<open>_resume\<close> definition of the function, whose parameters are its locals.
\<close>

datatype ftype = FD_NONE | FD_PIPE | FD_INODE | FD_DEVICE

record filestruct =
  f_type :: ftype
  f_ref :: int
  f_readable :: bool
  f_writable :: bool
  f_pipe :: uint64
  f_ip :: nat
  f_off :: uint
  f_major :: ushort

definition PIPESIZE :: uint where "PIPESIZE = 512"

record pipe =
  pi_data :: "nat \<Rightarrow> uchar"
  pi_nread :: uint
  pi_nwrite :: uint
  pi_readopen :: bool
  pi_writeopen :: bool

text \<open>\<open>stat_pad\<close> is what the four bytes of padding in \<^verbatim>\<open>struct stat\<close> happen to hold on the stack.\<close>

record kfile = kfs +
  files :: "nat \<Rightarrow> filestruct"
  pipes :: "uint64 \<Rightarrow> pipe"
  stat_pad :: "uchar list"

definition get_file :: "nat \<Rightarrow> (filestruct, 'a kfile_scheme) kmonad" where
  "get_file f = reads (\<lambda>s. files s f)"

definition upd_file :: "nat \<Rightarrow> (filestruct \<Rightarrow> filestruct) \<Rightarrow> (unit, 'a kfile_scheme) kmonad" where
  "upd_file f g = writes (\<lambda>s. s\<lparr>files := (files s)(f := g (files s f))\<rparr>)"

definition get_pipe :: "uint64 \<Rightarrow> (pipe, 'a kfile_scheme) kmonad" where
  "get_pipe pi = reads (\<lambda>s. pipes s pi)"

definition upd_pipe :: "uint64 \<Rightarrow> (pipe \<Rightarrow> pipe) \<Rightarrow> (unit, 'a kfile_scheme) kmonad" where
  "upd_pipe pi g = writes (\<lambda>s. s\<lparr>pipes := (pipes s)(pi := g (pipes s pi))\<rparr>)"

section \<open>The file table\<close>

definition fileinit :: "(unit, 'a kfile_scheme) kmonad" where
  "fileinit = initlock LkFtable ''ftable''"

primrec filealloc_loop :: "nat list \<Rightarrow> (nat option, 'a kfile_scheme) kmonad" where
  "filealloc_loop [] = thn (release LkFtable) (ret None)"
| "filealloc_loop (f # fs) =
     bnd (get_file f) (\<lambda>fl.
     if f_ref fl = 0 then
       thn (upd_file f (\<lambda>fl. fl\<lparr>f_ref := 1\<rparr>)) (
       thn (release LkFtable)
           (ret (Some f)))
     else filealloc_loop fs)"

definition filealloc :: "(nat option, 'a kfile_scheme) kmonad" where
  "filealloc = thn (acquire LkFtable) (filealloc_loop [0..<NFILE])"

definition filedup :: "nat \<Rightarrow> (nat, 'a kfile_scheme) kmonad" where
  "filedup f =
     thn (acquire LkFtable) (
     bnd (get_file f) (\<lambda>fl.
     if f_ref fl < 1 then panic ''filedup'' else
     thn (upd_file f (\<lambda>fl. fl\<lparr>f_ref := f_ref fl + 1\<rparr>)) (
     thn (release LkFtable)
         (ret f))))"

section \<open>Pipes\<close>

definition pipeclose :: "uint64 \<Rightarrow> bool \<Rightarrow> (unit, 'a kfile_scheme) kmonad" where
  "pipeclose pi writable =
     thn (acquire (LkPipe pi)) (
     thn (if writable then
            thn (upd_pipe pi (\<lambda>p. p\<lparr>pi_writeopen := False\<rparr>)) (wakeup (ChPipeRead pi))
          else
            thn (upd_pipe pi (\<lambda>p. p\<lparr>pi_readopen := False\<rparr>)) (wakeup (ChPipeWrite pi))) (
     bnd (get_pipe pi) (\<lambda>p.
     if \<not> pi_readopen p \<and> \<not> pi_writeopen p then
       thn (release (LkPipe pi))
           (kfree pi)
     else release (LkPipe pi))))"

definition pipe_full :: "pipe \<Rightarrow> bool" where
  "pipe_full p \<longleftrightarrow> pi_nwrite p = pi_nread p + PIPESIZE"

definition pipe_put :: "uchar \<Rightarrow> pipe \<Rightarrow> pipe" where
  "pipe_put c p = p\<lparr>pi_data := (pi_data p)(unat (pi_nwrite p mod PIPESIZE) := c),
     pi_nwrite := pi_nwrite p + 1\<rparr>"

definition pipe_head :: "pipe \<Rightarrow> uchar" where
  "pipe_head p = pi_data p (unat (pi_nread p mod PIPESIZE))"

definition pipewrite_end :: "uint64 \<Rightarrow> nat \<Rightarrow> (int, 'a kfile_scheme) kmonad" where
  "pipewrite_end pi i =
     thn (wakeup (ChPipeRead pi)) (
     thn (release (LkPipe pi))
         (ret (int i)))"

text \<open>The loop of \<^verbatim>\<open>pipewrite\<close> with \<open>i\<close> bytes written and \<open>k = n - i\<close> left.\<close>

primrec pipewrite_loop :: "nat \<Rightarrow> uint64 \<Rightarrow> uint64 \<Rightarrow> nat \<Rightarrow> nat \<Rightarrow> (int, 'a kfile_scheme) kmonad" where
  "pipewrite_loop pr pi addr i 0 = pipewrite_end pi i"
| "pipewrite_loop pr pi addr i (Suc k) =
     bnd (get_pipe pi) (\<lambda>p.
     bnd (if \<not> pi_readopen p then ret True else killed pr) (\<lambda>stop.
     if stop then thn (release (LkPipe pi)) (ret (-1))
     else if pipe_full p then
       thn (wakeup (ChPipeRead pi))
           (thn (sleep (ChPipeWrite pi) (LkPipe pi)) (ret 0))
     else
       bnd (get_proc pr) (\<lambda>pc.
       bnd (copyin (p_pagetable pc) (addr + of_nat i) 1) (\<lambda>r.
       if fst r = -1 then pipewrite_end pi i
       else
         thn (upd_pipe pi (pipe_put (hd (snd r))))
             (pipewrite_loop pr pi addr (Suc i) k)))))"

definition pipewrite :: "uint64 \<Rightarrow> uint64 \<Rightarrow> int \<Rightarrow> (int, 'a kfile_scheme) kmonad" where
  "pipewrite pi addr n =
     bnd myprocx (\<lambda>pr.
     thn (acquire (LkPipe pi))
         (pipewrite_loop pr pi addr 0 (nat n)))"

definition pipewrite_resume ::
    "nat \<Rightarrow> bool \<Rightarrow> uint64 \<Rightarrow> uint64 \<Rightarrow> nat \<Rightarrow> nat \<Rightarrow> (int, 'a kfile_scheme) kmonad" where
  "pipewrite_resume pr ena pi addr i k =
     thn (sleep_resume pr ena (LkPipe pi)) (pipewrite_loop pr pi addr i k)"

primrec piperead_copy :: "nat \<Rightarrow> uint64 \<Rightarrow> uint64 \<Rightarrow> nat \<Rightarrow> nat \<Rightarrow> (nat, 'a kfile_scheme) kmonad" where
  "piperead_copy pr pi addr i 0 = ret i"
| "piperead_copy pr pi addr i (Suc k) =
     bnd (get_pipe pi) (\<lambda>p.
     if pi_nread p = pi_nwrite p then ret i else
     thn (upd_pipe pi (\<lambda>p. p\<lparr>pi_nread := pi_nread p + 1\<rparr>)) (
     bnd (get_proc pr) (\<lambda>pc.
     bnd (copyout (p_pagetable pc) (addr + of_nat i) [pipe_head p]) (\<lambda>r.
     if r = -1 then ret i else piperead_copy pr pi addr (Suc i) k))))"

definition piperead_loop :: "nat \<Rightarrow> uint64 \<Rightarrow> uint64 \<Rightarrow> nat \<Rightarrow> (int, 'a kfile_scheme) kmonad" where
  "piperead_loop pr pi addr n =
     bnd (get_pipe pi) (\<lambda>p.
     if pi_nread p = pi_nwrite p \<and> pi_writeopen p then
       bnd (killed pr) (\<lambda>k.
       if k then thn (release (LkPipe pi)) (ret (-1))
       else thn (sleep (ChPipeRead pi) (LkPipe pi)) (ret 0))
     else
       bnd (piperead_copy pr pi addr 0 n) (\<lambda>i.
       thn (wakeup (ChPipeWrite pi)) (
       thn (release (LkPipe pi))
           (ret (int i)))))"

definition piperead :: "uint64 \<Rightarrow> uint64 \<Rightarrow> int \<Rightarrow> (int, 'a kfile_scheme) kmonad" where
  "piperead pi addr n =
     bnd myprocx (\<lambda>pr.
     thn (acquire (LkPipe pi))
         (piperead_loop pr pi addr (nat n)))"

definition piperead_resume ::
    "nat \<Rightarrow> bool \<Rightarrow> uint64 \<Rightarrow> uint64 \<Rightarrow> nat \<Rightarrow> (int, 'a kfile_scheme) kmonad" where
  "piperead_resume pr ena pi addr n =
     thn (sleep_resume pr ena (LkPipe pi)) (piperead_loop pr pi addr n)"

section \<open>Files\<close>

definition fileclose :: "nat \<Rightarrow> (unit, 'a kfile_scheme) kmonad" where
  "fileclose f =
     thn (acquire LkFtable) (
     bnd (get_file f) (\<lambda>fl.
     if f_ref fl < 1 then panic ''fileclose'' else
     thn (upd_file f (\<lambda>fl. fl\<lparr>f_ref := f_ref fl - 1\<rparr>)) (
     bnd (get_file f) (\<lambda>ff.
     if 0 < f_ref ff then release LkFtable else
     thn (upd_file f (\<lambda>fl. fl\<lparr>f_ref := 0\<rparr>)) (
     thn (upd_file f (\<lambda>fl. fl\<lparr>f_type := FD_NONE\<rparr>)) (
     thn (release LkFtable) (
     if f_type ff = FD_PIPE then pipeclose (f_pipe ff) (f_writable ff)
     else if f_type ff = FD_INODE \<or> f_type ff = FD_DEVICE then
       thn begin_op (
       thn (iput (f_ip ff))
           end_op)
     else ret ())))))))"

text \<open>
  \<^verbatim>\<open>pipealloc\<close> stores the two files through its pointer arguments; here they are the result, \<open>None\<close> for \<open>-1\<close>.
\<close>

definition pipealloc_bad :: "nat option \<Rightarrow> nat option \<Rightarrow> ((nat \<times> nat) option, 'a kfile_scheme) kmonad" where
  "pipealloc_bad f0 f1 =
     thn (case f0 of None \<Rightarrow> ret () | Some f \<Rightarrow> fileclose f) (
     thn (case f1 of None \<Rightarrow> ret () | Some f \<Rightarrow> fileclose f)
         (ret None))"

definition pipealloc :: "((nat \<times> nat) option, 'a kfile_scheme) kmonad" where
  "pipealloc =
     bnd filealloc (\<lambda>r0. case r0 of
       None \<Rightarrow> pipealloc_bad None None
     | Some f0 \<Rightarrow>
     bnd filealloc (\<lambda>r1. case r1 of
       None \<Rightarrow> pipealloc_bad (Some f0) None
     | Some f1 \<Rightarrow>
     bnd kalloc (\<lambda>pi.
     if pi = 0 then pipealloc_bad (Some f0) (Some f1) else
     thn (upd_pipe pi (\<lambda>p. p\<lparr>pi_readopen := True, pi_writeopen := True, pi_nwrite := 0, pi_nread := 0\<rparr>)) (
     thn (initlock (LkPipe pi) ''pipe'') (
     thn (upd_file f0 (\<lambda>f. f\<lparr>f_type := FD_PIPE, f_readable := True, f_writable := False, f_pipe := pi\<rparr>)) (
     thn (upd_file f1 (\<lambda>f. f\<lparr>f_type := FD_PIPE, f_readable := False, f_writable := True, f_pipe := pi\<rparr>))
         (ret (Some (f0, f1)))))))))"

definition bytes64 :: "uint64 \<Rightarrow> uchar list" where
  "bytes64 v = bytes32 (ucast v) @ bytes32 (ucast (drop_bit 32 v))"

definition enc_stat :: "uchar list \<Rightarrow> stat \<Rightarrow> uchar list" where
  "enc_stat pad st = bytes32 (st_dev st) @ bytes32 (st_ino st) @ bytes16 (st_type st) @
     bytes16 (st_nlink st) @ pad @ bytes64 (st_size st)"

definition filestat :: "nat \<Rightarrow> uint64 \<Rightarrow> (int, 'a kfile_scheme) kmonad" where
  "filestat f addr =
     bnd myprocx (\<lambda>p.
     bnd (get_file f) (\<lambda>fl.
     if f_type fl = FD_INODE \<or> f_type fl = FD_DEVICE then
       thn (ilock (f_ip fl)) (
       bnd (stati (f_ip fl)) (\<lambda>st.
       thn (iunlock (f_ip fl)) (
       bnd (reads stat_pad) (\<lambda>pad.
       bnd (get_proc p) (\<lambda>pr.
       bnd (copyout (p_pagetable pr) addr (enc_stat pad st)) (\<lambda>r.
       if r < 0 then ret (-1) else ret 0))))))
     else ret (-1)))"

text \<open>The device a file's major number selects, if there is one.\<close>

definition device :: "filestruct \<Rightarrow> (devfns option, 'a kfile_scheme) kmonad" where
  "device fl =
     (if sint (f_major fl) < 0 \<or> int NDEV \<le> sint (f_major fl) then ret None
      else reads (\<lambda>s. devsw s (unat (f_major fl))))"

definition fileread :: "nat \<Rightarrow> uint64 \<Rightarrow> int \<Rightarrow> (int, 'a kfile_scheme) kmonad" where
  "fileread f addr n =
     bnd (get_file f) (\<lambda>fl.
     if \<not> f_readable fl then ret (-1) else
     case f_type fl of
       FD_PIPE \<Rightarrow> piperead (f_pipe fl) addr n
     | FD_DEVICE \<Rightarrow>
         bnd (device fl) (\<lambda>d. case d of
           None \<Rightarrow> ret (-1)
         | Some ConsoleDev \<Rightarrow> consoleread (UserVA addr) n)
     | FD_INODE \<Rightarrow>
         thn (ilock (f_ip fl)) (
         bnd (readi (f_ip fl) (UserVA addr) (f_off fl) (word_of_int n)) (\<lambda>r.
         thn (mwhen (0 < r) (upd_file f (\<lambda>fl. fl\<lparr>f_off := f_off fl + word_of_int r\<rparr>))) (
         thn (iunlock (f_ip fl))
             (ret r))))
     | FD_NONE \<Rightarrow> panic ''fileread'')"

definition filewrite_max :: nat where
  "filewrite_max = (MAXOPBLOCKS - 1 - 1 - 2) div 2 * BSIZE"

function filewrite_loop :: "nat \<Rightarrow> uint64 \<Rightarrow> nat \<Rightarrow> nat \<Rightarrow> (nat, 'a kfile_scheme) kmonad" where
  "filewrite_loop f addr i n =
     (if n \<le> i then ret i else
      let n1 = min (n - i) filewrite_max in
      thn begin_op (
      bnd (get_file f) (\<lambda>fl.
      thn (ilock (f_ip fl)) (
      bnd (writei (f_ip fl) (UserVA (addr + of_nat i)) (f_off fl) (of_nat n1)) (\<lambda>r.
      thn (mwhen (0 < r) (upd_file f (\<lambda>fl. fl\<lparr>f_off := f_off fl + word_of_int r\<rparr>))) (
      thn (iunlock (f_ip fl)) (
      thn end_op (
      if r \<noteq> int n1 then ret i else filewrite_loop f addr (i + n1) n))))))))"
  by pat_completeness auto
termination
  by (relation "measure (\<lambda>(f, addr, i, n). n - i)")
    (auto simp: filewrite_max_def MAXOPBLOCKS_def BSIZE_def)

declare filewrite_loop.simps [simp del]

definition filewrite :: "nat \<Rightarrow> uint64 \<Rightarrow> int \<Rightarrow> (int, 'a kfile_scheme) kmonad" where
  "filewrite f addr n =
     bnd (get_file f) (\<lambda>fl.
     if \<not> f_writable fl then ret (-1) else
     case f_type fl of
       FD_PIPE \<Rightarrow> pipewrite (f_pipe fl) addr n
     | FD_DEVICE \<Rightarrow>
         bnd (device fl) (\<lambda>d. case d of
           None \<Rightarrow> ret (-1)
         | Some ConsoleDev \<Rightarrow> consolewrite (UserVA addr) n)
     | FD_INODE \<Rightarrow>
         bnd (filewrite_loop f addr 0 (nat n)) (\<lambda>i.
         ret (if int i = n then n else -1))
     | FD_NONE \<Rightarrow> panic ''filewrite'')"

end
