(* ===== verification/Proc.thy ===== *)
theory Proc
  imports File
begin

text \<open>
  The rest of \<^verbatim>\<open>kernel/proc.c\<close>: creating, duplicating, ending and collecting processes. The trapframe of a
  process is a page of physical memory; its fields are 64-bit words at the offsets of \<^verbatim>\<open>struct trapframe\<close>.
  The addresses of functions that the kernel stores (\<^verbatim>\<open>forkret\<close>, \<^verbatim>\<open>usertrap\<close> and the trap vectors) are fixed
  when the kernel is linked and are constant fields of the state.
\<close>

definition TF_kernel_satp :: uint64 where "TF_kernel_satp = 0"
definition TF_kernel_sp :: uint64 where "TF_kernel_sp = 8"
definition TF_kernel_trap :: uint64 where "TF_kernel_trap = 16"
definition TF_epc :: uint64 where "TF_epc = 24"
definition TF_kernel_hartid :: uint64 where "TF_kernel_hartid = 32"
definition TF_sp :: uint64 where "TF_sp = 48"
definition TF_a0 :: uint64 where "TF_a0 = 112"
definition TF_a1 :: uint64 where "TF_a1 = 120"
definition TF_a7 :: uint64 where "TF_a7 = 168"
definition TF_size :: nat where "TF_size = 288"

record kproc = kfile +
  sym_forkret :: uint64
  sym_usertrap :: uint64
  sym_kernelvec :: uint64
  sym_uservec :: uint64
  sym_userret :: uint64
  forkret_first :: bool
  ticks :: uint

definition tf_get :: "nat \<Rightarrow> uint64 \<Rightarrow> (uint64, 'a kmem_scheme) kmonad" where
  "tf_get p o' = bnd (get_proc p) (\<lambda>pr. rd64 (p_trapframe pr + o'))"

definition tf_set :: "nat \<Rightarrow> uint64 \<Rightarrow> uint64 \<Rightarrow> (unit, 'a kmem_scheme) kmonad" where
  "tf_set p o' v = bnd (get_proc p) (\<lambda>pr. wr64 (p_trapframe pr + o') v)"

definition procinit :: "(unit, 'a kmem_scheme) kmonad" where
  "procinit =
     thn (initlock LkPid ''nextpid'') (
     thn (initlock LkWait ''wait_lock'')
         (foreach [0..<NPROC] (\<lambda>p.
            thn (initlock (LkProc p) ''proc'')
                (upd_proc p (\<lambda>pr. pr\<lparr>p_state := UNUSED, p_kstack := KSTACK p\<rparr>)))))"

definition cpuid :: "(nat, 'a kbase_scheme) kmonad" where
  "cpuid = reads hart"

definition allocpid :: "(int, 'a kbase_scheme) kmonad" where
  "allocpid =
     thn (acquire LkPid) (
     bnd (reads nextpid) (\<lambda>pid.
     if 2 ^ 31 - 1 \<le> pid then undef ''int overflow'' else
     thn (writes (\<lambda>s. s\<lparr>nextpid := nextpid s + 1\<rparr>)) (
     thn (release LkPid)
         (ret pid))))"

definition proc_pagetable :: "nat \<Rightarrow> (uint64, 'a kvm_scheme) kmonad" where
  "proc_pagetable p =
     bnd uvmcreate (\<lambda>pagetable.
     if pagetable = 0 then ret 0 else
     bnd (reads trampoline) (\<lambda>tr.
     bnd (mappages pagetable TRAMPOLINE PGSIZE tr (PTE_R OR PTE_X)) (\<lambda>r.
     if r < 0 then thn (uvmfree pagetable 0) (ret 0) else
     bnd (get_proc p) (\<lambda>pr.
     bnd (mappages pagetable TRAPFRAME PGSIZE (p_trapframe pr) (PTE_R OR PTE_W)) (\<lambda>r.
     if r < 0 then
       thn (uvmunmap pagetable TRAMPOLINE 1 False) (
       thn (uvmfree pagetable 0)
           (ret 0))
     else ret pagetable)))))"

definition proc_freepagetable :: "uint64 \<Rightarrow> uint64 \<Rightarrow> (unit, 'a kmem_scheme) kmonad" where
  "proc_freepagetable pagetable sz =
     thn (uvmunmap pagetable TRAMPOLINE 1 False) (
     thn (uvmunmap pagetable TRAPFRAME 1 False)
         (uvmfree pagetable sz))"

definition freeproc :: "nat \<Rightarrow> (unit, 'a kmem_scheme) kmonad" where
  "freeproc p =
     bnd (get_proc p) (\<lambda>pr.
     thn (mwhen (p_trapframe pr \<noteq> 0) (kfree (p_trapframe pr))) (
     thn (upd_proc p (\<lambda>pr. pr\<lparr>p_trapframe := 0\<rparr>)) (
     thn (mwhen (p_pagetable pr \<noteq> 0) (proc_freepagetable (p_pagetable pr) (p_sz pr)))
         (upd_proc p (\<lambda>pr. pr\<lparr>p_pagetable := 0, p_sz := 0, p_pid := 0, p_parent := None,
            p_name := (p_name pr)[0 := 0], p_chan := None, p_killed := False, p_xstate := 0,
            p_state := UNUSED\<rparr>)))))"

text \<open>The search of \<^verbatim>\<open>allocproc\<close> leaves with the lock of the process it found held.\<close>

primrec find_unused :: "nat list \<Rightarrow> (nat option, 'a kbase_scheme) kmonad" where
  "find_unused [] = ret None"
| "find_unused (p # ps) =
     thn (acquire (LkProc p)) (
     bnd (get_proc p) (\<lambda>pr.
     if p_state pr = UNUSED then ret (Some p)
     else thn (release (LkProc p)) (find_unused ps)))"

definition allocproc_fail :: "nat \<Rightarrow> (nat option, 'a kmem_scheme) kmonad" where
  "allocproc_fail p =
     thn (freeproc p) (
     thn (release (LkProc p))
         (ret None))"

definition allocproc :: "(nat option, 'a kproc_scheme) kmonad" where
  "allocproc =
     bnd (find_unused [0..<NPROC]) (\<lambda>r. case r of
       None \<Rightarrow> ret None
     | Some p \<Rightarrow>
         bnd allocpid (\<lambda>pid.
         thn (upd_proc p (\<lambda>pr. pr\<lparr>p_pid := pid\<rparr>)) (
         thn (upd_proc p (\<lambda>pr. pr\<lparr>p_state := USED\<rparr>)) (
         bnd kalloc (\<lambda>tf.
         thn (upd_proc p (\<lambda>pr. pr\<lparr>p_trapframe := tf\<rparr>)) (
         if tf = 0 then allocproc_fail p else
         bnd (proc_pagetable p) (\<lambda>pt.
         thn (upd_proc p (\<lambda>pr. pr\<lparr>p_pagetable := pt\<rparr>)) (
         if pt = 0 then allocproc_fail p else
         bnd (reads sym_forkret) (\<lambda>fr.
         thn (upd_proc p (\<lambda>pr. pr\<lparr>p_context :=
                zero_context\<lparr>ctx_ra := fr, ctx_sp := p_kstack pr + PGSIZE\<rparr>\<rparr>))
             (ret (Some p)))))))))))"

definition initcode :: "uchar list" where
  "initcode = [
     0x17, 0x05, 0x00, 0x00, 0x13, 0x05, 0x45, 0x02,
     0x97, 0x05, 0x00, 0x00, 0x93, 0x85, 0x35, 0x02,
     0x93, 0x08, 0x70, 0x00, 0x73, 0x00, 0x00, 0x00,
     0x93, 0x08, 0x20, 0x00, 0x73, 0x00, 0x00, 0x00,
     0xef, 0xf0, 0x9f, 0xff, 0x2f, 0x69, 0x6e, 0x69,
     0x74, 0x00, 0x00, 0x24, 0x00, 0x00, 0x00, 0x00,
     0x00, 0x00, 0x00, 0x00]"

text \<open>\<^verbatim>\<open>safestrcpy(p->name, s, sizeof(p->name))\<close> on byte lists.\<close>

definition set_name :: "uchar list \<Rightarrow> uchar list \<Rightarrow> uchar list" where
  "set_name src old = splice old 0 (take 15 (takeWhile (\<lambda>c. c \<noteq> 0) src) @ [0])"

definition userinit :: "(unit, 'a kproc_scheme) kmonad" where
  "userinit =
     bnd allocproc (\<lambda>r.
     thn (writes (\<lambda>s. s\<lparr>initproc := r\<rparr>)) (
     case r of
       None \<Rightarrow> undef ''null proc''
     | Some p \<Rightarrow>
         bnd (get_proc p) (\<lambda>pr.
         thn (uvmfirst (p_pagetable pr) initcode) (
         thn (upd_proc p (\<lambda>pr. pr\<lparr>p_sz := PGSIZE\<rparr>)) (
         thn (tf_set p TF_epc 0) (
         thn (tf_set p TF_sp PGSIZE) (
         thn (upd_proc p (\<lambda>pr. pr\<lparr>p_name := set_name (cbytes ''initcode'') (p_name pr)\<rparr>)) (
         bnd (namei [slash]) (\<lambda>ip.
         thn (upd_proc p (\<lambda>pr. pr\<lparr>p_cwd := ip\<rparr>)) (
         thn (upd_proc p (\<lambda>pr. pr\<lparr>p_state := RUNNABLE\<rparr>))
             (release (LkProc p)))))))))))) "

definition growproc :: "32 word \<Rightarrow> (int, 'a kmem_scheme) kmonad" where
  "growproc n =
     bnd myprocx (\<lambda>p.
     bnd (get_proc p) (\<lambda>pr.
     let sz = p_sz pr in
     if 0 < sint n then
       bnd (uvmalloc (p_pagetable pr) sz (sz + scast n) PTE_W) (\<lambda>sz'.
       if sz' = 0 then ret (-1) else
       thn (upd_proc p (\<lambda>pr. pr\<lparr>p_sz := sz'\<rparr>)) (ret 0))
     else if sint n < 0 then
       bnd (uvmdealloc (p_pagetable pr) sz (sz + scast n)) (\<lambda>sz'.
       thn (upd_proc p (\<lambda>pr. pr\<lparr>p_sz := sz'\<rparr>)) (ret 0))
     else thn (upd_proc p (\<lambda>pr. pr\<lparr>p_sz := sz\<rparr>)) (ret 0)))"

definition fork_files :: "nat \<Rightarrow> nat \<Rightarrow> (unit, 'a kproc_scheme) kmonad" where
  "fork_files p np = foreach [0..<NOFILE] (\<lambda>i.
     bnd (get_proc p) (\<lambda>pr. case p_ofile pr ! i of
       None \<Rightarrow> ret ()
     | Some f \<Rightarrow> bnd (filedup f) (\<lambda>f. upd_proc np (\<lambda>pr. pr\<lparr>p_ofile := (p_ofile pr)[i := Some f]\<rparr>))))"

definition fork :: "(int, 'a kproc_scheme) kmonad" where
  "fork =
     bnd myprocx (\<lambda>p.
     bnd allocproc (\<lambda>r. case r of
       None \<Rightarrow> ret (-1)
     | Some np \<Rightarrow>
         bnd (get_proc p) (\<lambda>pr.
         bnd (get_proc np) (\<lambda>npr.
         bnd (uvmcopy (p_pagetable pr) (p_pagetable npr) (p_sz pr)) (\<lambda>c.
         if c < 0 then
           thn (freeproc np) (
           thn (release (LkProc np))
               (ret (-1)))
         else
           thn (upd_proc np (\<lambda>x. x\<lparr>p_sz := p_sz pr\<rparr>)) (
           thn (writes (\<lambda>s. s\<lparr>pmem := putbytes (pmem s) (p_trapframe npr)
                  (getbytes (pmem s) (p_trapframe pr) TF_size)\<rparr>)) (
           thn (tf_set np TF_a0 0) (
           thn (fork_files p np) (
           case p_cwd pr of
             None \<Rightarrow> undef ''null cwd''
           | Some c \<Rightarrow>
               bnd (idup c) (\<lambda>c.
               thn (upd_proc np (\<lambda>x. x\<lparr>p_cwd := Some c\<rparr>)) (
               thn (upd_proc np (\<lambda>x. x\<lparr>p_name := set_name (p_name pr) (p_name x)\<rparr>)) (
               bnd (get_proc np) (\<lambda>x.
               thn (release (LkProc np)) (
               thn (acquire LkWait) (
               thn (upd_proc np (\<lambda>x. x\<lparr>p_parent := Some p\<rparr>)) (
               thn (release LkWait) (
               thn (acquire (LkProc np)) (
               thn (upd_proc np (\<lambda>x. x\<lparr>p_state := RUNNABLE\<rparr>)) (
               thn (release (LkProc np))
                   (ret (p_pid x)))))))))))))))))))))"

definition reparent :: "nat \<Rightarrow> (unit, 'a kbase_scheme) kmonad" where
  "reparent p = foreach [0..<NPROC] (\<lambda>pp.
     bnd (get_proc pp) (\<lambda>pr.
     mwhen (p_parent pr = Some p) (
       bnd (reads initproc) (\<lambda>ini.
       thn (upd_proc pp (\<lambda>pr. pr\<lparr>p_parent := ini\<rparr>))
           (case ini of None \<Rightarrow> ret () | Some i \<Rightarrow> wakeup (ChProc i))))))"

text \<open>
  \<^verbatim>\<open>wakeup(p->parent)\<close> with a null parent wakes nobody: no process sleeps on a null channel.
\<close>

definition exit_files :: "nat \<Rightarrow> (unit, 'a kproc_scheme) kmonad" where
  "exit_files p = foreach [0..<NOFILE] (\<lambda>fd.
     bnd (get_proc p) (\<lambda>pr. case p_ofile pr ! fd of
       None \<Rightarrow> ret ()
     | Some f \<Rightarrow>
         thn (fileclose f)
             (upd_proc p (\<lambda>pr. pr\<lparr>p_ofile := (p_ofile pr)[fd := None]\<rparr>))))"

definition exit :: "int \<Rightarrow> (unit, 'a kproc_scheme) kmonad" where
  "exit status =
     bnd myprocx (\<lambda>p.
     bnd (reads initproc) (\<lambda>ini.
     if ini = Some p then panic ''init exiting'' else
     thn (exit_files p) (
     thn begin_op (
     bnd (get_proc p) (\<lambda>pr.
     thn (case p_cwd pr of None \<Rightarrow> undef ''null cwd'' | Some c \<Rightarrow> iput c) (
     thn end_op (
     thn (upd_proc p (\<lambda>pr. pr\<lparr>p_cwd := None\<rparr>)) (
     thn (acquire LkWait) (
     thn (reparent p) (
     bnd (get_proc p) (\<lambda>pr.
     thn (case p_parent pr of None \<Rightarrow> ret () | Some q \<Rightarrow> wakeup (ChProc q)) (
     thn (acquire (LkProc p)) (
     thn (upd_proc p (\<lambda>pr. pr\<lparr>p_xstate := status\<rparr>)) (
     thn (upd_proc p (\<lambda>pr. pr\<lparr>p_state := ZOMBIE\<rparr>)) (
     thn (release LkWait) (
     thn sched
         (panic ''zombie exit'')))))))))))))))))"

text \<open>
  The scan of \<^verbatim>\<open>wait\<close>: \<open>Inl\<close> the return value when a child has been collected or the copy failed, \<open>Inr\<close> whether
  there are children.
\<close>

primrec wait_scan :: "nat \<Rightarrow> uint64 \<Rightarrow> bool \<Rightarrow> nat list \<Rightarrow> (int + bool, 'a kproc_scheme) kmonad" where
  "wait_scan p addr havekids [] = ret (Inr havekids)"
| "wait_scan p addr havekids (pp # pps) =
     bnd (get_proc pp) (\<lambda>c.
     if p_parent c \<noteq> Some p then wait_scan p addr havekids pps else
     thn (acquire (LkProc pp)) (
     bnd (get_proc pp) (\<lambda>c.
     if p_state c = ZOMBIE then
       bnd (get_proc p) (\<lambda>pr.
       bnd (if addr \<noteq> 0 then copyout (p_pagetable pr) addr (bytes32 (word_of_int (p_xstate c))) else ret 0) (\<lambda>r.
       if r < 0 then
         thn (release (LkProc pp)) (
         thn (release LkWait)
             (ret (Inl (-1))))
       else
         thn (freeproc pp) (
         thn (release (LkProc pp)) (
         thn (release LkWait)
             (ret (Inl (p_pid c)))))))
     else
       thn (release (LkProc pp))
           (wait_scan p addr True pps))))"

definition wait_loop :: "nat \<Rightarrow> uint64 \<Rightarrow> (int, 'a kproc_scheme) kmonad" where
  "wait_loop p addr =
     bnd (wait_scan p addr False [0..<NPROC]) (\<lambda>r. case r of
       Inl v \<Rightarrow> ret v
     | Inr havekids \<Rightarrow>
         bnd (if \<not> havekids then ret True else killed p) (\<lambda>stop.
         if stop then thn (release LkWait) (ret (-1))
         else thn (sleep (ChProc p) LkWait) (ret 0)))"

definition wait :: "uint64 \<Rightarrow> (int, 'a kproc_scheme) kmonad" where
  "wait addr =
     bnd myprocx (\<lambda>p.
     thn (acquire LkWait)
         (wait_loop p addr))"

definition wait_resume :: "nat \<Rightarrow> bool \<Rightarrow> uint64 \<Rightarrow> (int, 'a kproc_scheme) kmonad" where
  "wait_resume p ena addr = thn (sleep_resume p ena LkWait) (wait_loop p addr)"

end
