(* ===== verification/Exec.thy ===== *)
theory Exec
  imports Proc
begin

text \<open>
  \<^verbatim>\<open>kernel/exec.c\<close>: replacing the image of a process by an ELF file. Header structures are decoded from their
  bytes with the layout of \<^verbatim>\<open>kernel/elf.h\<close>; the argument strings are byte lists.
\<close>

definition ELF_MAGIC :: uint where "ELF_MAGIC = 0x464C457F"
definition ELF_PROG_LOAD :: uint where "ELF_PROG_LOAD = 1"
definition ELFHDR_SIZE :: nat where "ELFHDR_SIZE = 64"
definition PROGHDR_SIZE :: nat where "PROGHDR_SIZE = 56"

definition le64 :: "uchar list \<Rightarrow> nat \<Rightarrow> uint64" where
  "le64 d o' = ucast (le32 d o') OR push_bit 32 (ucast (le32 d (o' + 4)))"

record elfhdr =
  elf_magic :: uint
  elf_entry :: uint64
  elf_phoff :: uint64
  elf_phnum :: ushort

record proghdr =
  ph_type :: uint
  ph_flags :: uint
  ph_off :: uint64
  ph_vaddr :: uint64
  ph_filesz :: uint64
  ph_memsz :: uint64

definition dec_elfhdr :: "uchar list \<Rightarrow> elfhdr" where
  "dec_elfhdr d = \<lparr>elf_magic = le32 d 0, elf_entry = le64 d 24, elf_phoff = le64 d 32, elf_phnum = le16 d 56\<rparr>"

definition dec_proghdr :: "uchar list \<Rightarrow> proghdr" where
  "dec_proghdr d = \<lparr>ph_type = le32 d 0, ph_flags = le32 d 4, ph_off = le64 d 8, ph_vaddr = le64 d 16,
     ph_filesz = le64 d 32, ph_memsz = le64 d 40\<rparr>"

definition flags2perm :: "uint \<Rightarrow> uint64" where
  "flags2perm flags =
     (if flags AND 1 \<noteq> 0 then PTE_X else 0) OR (if flags AND 2 \<noteq> 0 then PTE_W else 0)"

text \<open>\<open>i\<close> and \<open>sz\<close> are \<^verbatim>\<open>uint\<close>s; the counter does not wrap around before a read past the end of the file fails.\<close>

function loadseg_loop :: "uint64 \<Rightarrow> uint64 \<Rightarrow> nat \<Rightarrow> uint \<Rightarrow> nat \<Rightarrow> nat \<Rightarrow> (int, 'a kproc_scheme) kmonad" where
  "loadseg_loop pagetable va ip offset i sz =
     (if sz \<le> i then ret 0 else
      bnd (walkaddr pagetable (va + of_nat i)) (\<lambda>pa.
      if pa = 0 then panic ''loadseg: address should exist'' else
      let n = min (sz - i) (unat PGSIZE) in
      bnd (readi ip (KernPA pa) (offset + of_nat i) (of_nat n)) (\<lambda>r.
      if r \<noteq> int n then ret (-1)
      else loadseg_loop pagetable va ip offset (i + unat PGSIZE) sz)))"
  by pat_completeness auto
termination
  by (relation "measure (\<lambda>(pt, va, ip, off, i, sz). sz - i)") (auto simp: PGSIZE_def)

declare loadseg_loop.simps [simp del]

definition loadseg :: "uint64 \<Rightarrow> uint64 \<Rightarrow> nat \<Rightarrow> uint \<Rightarrow> uint \<Rightarrow> (int, 'a kproc_scheme) kmonad" where
  "loadseg pagetable va ip offset sz = loadseg_loop pagetable va ip offset 0 (unat sz)"

definition exec_bad :: "uint64 \<Rightarrow> uint64 \<Rightarrow> nat option \<Rightarrow> (int, 'a kproc_scheme) kmonad" where
  "exec_bad pagetable sz ip =
     thn (mwhen (pagetable \<noteq> 0) (proc_freepagetable pagetable sz)) (
     thn (case ip of None \<Rightarrow> ret () | Some i \<Rightarrow> thn (iunlockput i) end_op)
         (ret (-1)))"

text \<open>
  The loop over the program headers: \<open>k\<close> are left, \<open>off\<close> is the offset of the next. The result is whether
  all were loaded, and the size reached.
\<close>

primrec exec_load :: "uint64 \<Rightarrow> nat \<Rightarrow> nat \<Rightarrow> uint \<Rightarrow> uint64 \<Rightarrow> (bool \<times> uint64, 'a kproc_scheme) kmonad" where
  "exec_load pagetable ip 0 off sz = ret (True, sz)"
| "exec_load pagetable ip (Suc k) off sz =
     thn (new_kbuf PROGHDR_SIZE) (
     bnd (readi ip (KernBuf 0) off (of_nat PROGHDR_SIZE)) (\<lambda>r.
     if r \<noteq> int PROGHDR_SIZE then ret (False, sz) else
     bnd (reads (\<lambda>s. dec_proghdr (kbuf s))) (\<lambda>ph.
     if ph_type ph \<noteq> ELF_PROG_LOAD then exec_load pagetable ip k (off + of_nat PROGHDR_SIZE) sz
     else if ph_memsz ph < ph_filesz ph then ret (False, sz)
     else if ph_vaddr ph + ph_memsz ph < ph_vaddr ph then ret (False, sz)
     else if ph_vaddr ph mod PGSIZE \<noteq> 0 then ret (False, sz)
     else
       bnd (uvmalloc pagetable sz (ph_vaddr ph + ph_memsz ph) (flags2perm (ph_flags ph))) (\<lambda>sz1.
       if sz1 = 0 then ret (False, sz) else
       bnd (loadseg pagetable (ph_vaddr ph) ip (ucast (ph_off ph)) (ucast (ph_filesz ph))) (\<lambda>r.
       if r < 0 then ret (False, sz1)
       else exec_load pagetable ip k (off + of_nat PROGHDR_SIZE) sz1)))))"

text \<open>
  Pushing the argument strings. The result is the stack pointer and the list of string addresses; \<open>None\<close> is a
  jump to \<^verbatim>\<open>bad\<close>.
\<close>

definition align16 :: "uint64 \<Rightarrow> uint64" where
  "align16 sp = sp - sp mod 16"

primrec push_args :: "uint64 \<Rightarrow> uint64 \<Rightarrow> uchar list list \<Rightarrow> uint64 list \<Rightarrow> uint64 \<Rightarrow>
    ((uint64 \<times> uint64 list) option, 'a kproc_scheme) kmonad" where
  "push_args pagetable stackbase [] ustack sp = ret (Some (sp, ustack))"
| "push_args pagetable stackbase (a # as) ustack sp =
     (if MAXARG \<le> length ustack then ret None else
      let sp' = align16 (sp - of_nat (length a + 1)) in
      if sp' < stackbase then ret None else
      bnd (copyout pagetable sp' (a @ [0])) (\<lambda>r.
      if r < 0 then ret None else push_args pagetable stackbase as (ustack @ [sp']) sp'))"

definition last_elem :: "uchar list \<Rightarrow> uchar list" where
  "last_elem path = foldl (\<lambda>l i. if path ! i = slash then drop (Suc i) path else l) path [0..<length path]"

definition exec_commit :: "nat \<Rightarrow> uchar list \<Rightarrow> uint64 \<Rightarrow> uint64 \<Rightarrow> uint64 \<Rightarrow> uint64 \<Rightarrow> uint64 \<Rightarrow>
    (unit, 'a kproc_scheme) kmonad" where
  "exec_commit p path pagetable sz entry sp oldsz =
     thn (tf_set p TF_a1 sp) (
     thn (upd_proc p (\<lambda>pr. pr\<lparr>p_name := set_name (last_elem path) (p_name pr)\<rparr>)) (
     bnd (get_proc p) (\<lambda>pr.
     thn (upd_proc p (\<lambda>pr. pr\<lparr>p_pagetable := pagetable\<rparr>)) (
     thn (upd_proc p (\<lambda>pr. pr\<lparr>p_sz := sz\<rparr>)) (
     thn (tf_set p TF_epc entry) (
     thn (tf_set p TF_sp sp)
         (proc_freepagetable (p_pagetable pr) oldsz)))))))"

definition exec_stack :: "nat \<Rightarrow> uchar list \<Rightarrow> uchar list list \<Rightarrow> uint64 \<Rightarrow> uint64 \<Rightarrow> uint64 \<Rightarrow>
    (int, 'a kproc_scheme) kmonad" where
  "exec_stack p path argv pagetable entry sz0 =
     bnd (get_proc p) (\<lambda>pr.
     let sz = PGROUNDUP sz0 in
     bnd (uvmalloc pagetable sz (sz + of_nat (USERSTACK + 1) * PGSIZE) PTE_W) (\<lambda>sz1.
     if sz1 = 0 then exec_bad pagetable sz None else
     thn (uvmclear pagetable (sz1 - of_nat (USERSTACK + 1) * PGSIZE)) (
     let stackbase = sz1 - of_nat USERSTACK * PGSIZE in
     bnd (push_args pagetable stackbase argv [] sz1) (\<lambda>r. case r of
       None \<Rightarrow> exec_bad pagetable sz1 None
     | Some (sp, ustack) \<Rightarrow>
         if MAXARG \<le> length ustack then undef ''ustack overrun'' else
         let sp' = align16 (sp - of_nat ((length ustack + 1) * 8)) in
         if sp' < stackbase then exec_bad pagetable sz1 None else
         bnd (copyout pagetable sp' (concat (map bytes64 (ustack @ [0])))) (\<lambda>r.
         if r < 0 then exec_bad pagetable sz1 None else
         thn (exec_commit p path pagetable sz1 entry sp' (p_sz pr))
             (ret (int (length ustack))))))))"

definition exec :: "uchar list \<Rightarrow> uchar list list \<Rightarrow> (int, 'a kproc_scheme) kmonad" where
  "exec path argv =
     bnd myprocx (\<lambda>p.
     thn begin_op (
     bnd (namei path) (\<lambda>r. case r of
       None \<Rightarrow> thn end_op (ret (-1))
     | Some ip \<Rightarrow>
         thn (ilock ip) (
         thn (new_kbuf ELFHDR_SIZE) (
         bnd (readi ip (KernBuf 0) 0 (of_nat ELFHDR_SIZE)) (\<lambda>r.
         if r \<noteq> int ELFHDR_SIZE then exec_bad 0 0 (Some ip) else
         bnd (reads (\<lambda>s. dec_elfhdr (kbuf s))) (\<lambda>elf.
         if elf_magic elf \<noteq> ELF_MAGIC then exec_bad 0 0 (Some ip) else
         bnd (proc_pagetable p) (\<lambda>pagetable.
         if pagetable = 0 then exec_bad 0 0 (Some ip) else
         bnd (exec_load pagetable ip (unat (elf_phnum elf)) (ucast (elf_phoff elf)) 0) (\<lambda>(ok, sz).
         if \<not> ok then exec_bad pagetable sz (Some ip) else
         thn (iunlockput ip) (
         thn end_op
             (exec_stack p path argv pagetable (elf_entry elf) sz))))))))))) "

end
