(* ===== verification/Syscall.thy ===== *)
theory Syscall
  imports Exec
begin

text \<open>
  \<^verbatim>\<open>kernel/syscall.c\<close>, \<^verbatim>\<open>kernel/sysproc.c\<close> and \<^verbatim>\<open>kernel/sysfile.c\<close>: fetching system-call arguments from the
  trapframe and user memory, the system calls, and the dispatcher. Results are \<^verbatim>\<open>uint64\<close>s, \<open>-1\<close> being all ones.
\<close>

section \<open>Arguments\<close>

text \<open>\<open>None\<close> is the result \<open>-1\<close>.\<close>

definition fetchaddr :: "uint64 \<Rightarrow> (uint64 option, 'a kproc_scheme) kmonad" where
  "fetchaddr addr =
     bnd myprocx (\<lambda>p.
     bnd (get_proc p) (\<lambda>pr.
     if p_sz pr \<le> addr \<or> p_sz pr < addr + 8 then ret None else
     bnd (copyin (p_pagetable pr) addr 8) (\<lambda>r.
     if fst r \<noteq> 0 then ret None else ret (Some (le64 (snd r) 0)))))"

definition fetchstr :: "uint64 \<Rightarrow> nat \<Rightarrow> (uchar list option, 'a kproc_scheme) kmonad" where
  "fetchstr addr mx =
     bnd myprocx (\<lambda>p.
     bnd (get_proc p) (\<lambda>pr.
     bnd (copyinstr (p_pagetable pr) addr mx) (\<lambda>r.
     ret (map_option (takeWhile (\<lambda>c. c \<noteq> 0)) r))))"

definition argraw :: "nat \<Rightarrow> (uint64, 'a kproc_scheme) kmonad" where
  "argraw n =
     bnd myprocx (\<lambda>p.
     if n \<le> 5 then tf_get p (TF_a0 + 8 * of_nat n) else panic ''argraw'')"

definition argint :: "nat \<Rightarrow> (32 word, 'a kproc_scheme) kmonad" where
  "argint n = bnd (argraw n) (\<lambda>v. ret (ucast v))"

definition argaddr :: "nat \<Rightarrow> (uint64, 'a kproc_scheme) kmonad" where
  "argaddr n = argraw n"

definition argstr :: "nat \<Rightarrow> nat \<Rightarrow> (uchar list option, 'a kproc_scheme) kmonad" where
  "argstr n mx = bnd (argaddr n) (\<lambda>addr. fetchstr addr mx)"

definition argfd :: "nat \<Rightarrow> ((nat \<times> nat) option, 'a kproc_scheme) kmonad" where
  "argfd n =
     bnd (argint n) (\<lambda>fd.
     if sint fd < 0 \<or> int NOFILE \<le> sint fd then ret None else
     bnd myprocx (\<lambda>p.
     bnd (get_proc p) (\<lambda>pr. case p_ofile pr ! unat fd of
       None \<Rightarrow> ret None
     | Some f \<Rightarrow> ret (Some (unat fd, f)))))"

primrec fdalloc_loop :: "nat \<Rightarrow> nat \<Rightarrow> nat list \<Rightarrow> (nat option, 'a kproc_scheme) kmonad" where
  "fdalloc_loop p f [] = ret None"
| "fdalloc_loop p f (fd # fds) =
     bnd (get_proc p) (\<lambda>pr.
     if p_ofile pr ! fd = None then
       thn (upd_proc p (\<lambda>pr. pr\<lparr>p_ofile := (p_ofile pr)[fd := Some f]\<rparr>)) (ret (Some fd))
     else fdalloc_loop p f fds)"

definition fdalloc :: "nat \<Rightarrow> (nat option, 'a kproc_scheme) kmonad" where
  "fdalloc f = bnd myprocx (\<lambda>p. fdalloc_loop p f [0..<NOFILE])"

definition set_ofile :: "nat \<Rightarrow> nat option \<Rightarrow> (unit, 'a kproc_scheme) kmonad" where
  "set_ofile fd v = bnd myprocx (\<lambda>p. upd_proc p (\<lambda>pr. pr\<lparr>p_ofile := (p_ofile pr)[fd := v]\<rparr>))"

section \<open>sysfile.c\<close>

definition sys_dup :: "(uint64, 'a kproc_scheme) kmonad" where
  "sys_dup =
     bnd (argfd 0) (\<lambda>r. case r of
       None \<Rightarrow> ret (-1)
     | Some (_, f) \<Rightarrow>
         bnd (fdalloc f) (\<lambda>r. case r of
           None \<Rightarrow> ret (-1)
         | Some fd \<Rightarrow> thn (filedup f) (ret (of_nat fd))))"

definition sys_read :: "(uint64, 'a kproc_scheme) kmonad" where
  "sys_read =
     bnd (argaddr 1) (\<lambda>p.
     bnd (argint 2) (\<lambda>n.
     bnd (argfd 0) (\<lambda>r. case r of
       None \<Rightarrow> ret (-1)
     | Some (_, f) \<Rightarrow> bnd (fileread f p (sint n)) (\<lambda>v. ret (word_of_int v)))))"

definition sys_write :: "(uint64, 'a kproc_scheme) kmonad" where
  "sys_write =
     bnd (argaddr 1) (\<lambda>p.
     bnd (argint 2) (\<lambda>n.
     bnd (argfd 0) (\<lambda>r. case r of
       None \<Rightarrow> ret (-1)
     | Some (_, f) \<Rightarrow> bnd (filewrite f p (sint n)) (\<lambda>v. ret (word_of_int v)))))"

definition sys_close :: "(uint64, 'a kproc_scheme) kmonad" where
  "sys_close =
     bnd (argfd 0) (\<lambda>r. case r of
       None \<Rightarrow> ret (-1)
     | Some (fd, f) \<Rightarrow>
         thn (set_ofile fd None) (
         thn (fileclose f)
             (ret 0)))"

definition sys_fstat :: "(uint64, 'a kproc_scheme) kmonad" where
  "sys_fstat =
     bnd (argaddr 1) (\<lambda>st.
     bnd (argfd 0) (\<lambda>r. case r of
       None \<Rightarrow> ret (-1)
     | Some (_, f) \<Rightarrow> bnd (filestat f st) (\<lambda>v. ret (word_of_int v))))"

definition upd_nlink :: "nat \<Rightarrow> (ushort \<Rightarrow> ushort) \<Rightarrow> (unit, 'a kproc_scheme) kmonad" where
  "upd_nlink i g = upd_inode i (\<lambda>ip. ip\<lparr>i_nlink := g (i_nlink ip)\<rparr>)"

text \<open>The common end of a failing call: \<^verbatim>\<open>end_op(); return -1;\<close>.\<close>

definition fail_op :: "(uint64, 'a kproc_scheme) kmonad" where
  "fail_op = thn end_op (ret (-1))"

definition sys_link_bad :: "nat \<Rightarrow> (uint64, 'a kproc_scheme) kmonad" where
  "sys_link_bad ip =
     thn (ilock ip) (
     thn (upd_nlink ip (\<lambda>n. n - 1)) (
     thn (iupdate ip) (
     thn (iunlockput ip)
         fail_op)))"

definition sys_link :: "(uint64, 'a kproc_scheme) kmonad" where
  "sys_link =
     bnd (argstr 0 MAXPATH) (\<lambda>r. case r of None \<Rightarrow> ret (-1) | Some old \<Rightarrow>
     bnd (argstr 1 MAXPATH) (\<lambda>r. case r of None \<Rightarrow> ret (-1) | Some new \<Rightarrow>
     thn begin_op (
     bnd (namei old) (\<lambda>r. case r of None \<Rightarrow> fail_op | Some ip \<Rightarrow>
     thn (ilock ip) (
     bnd (get_inode ip) (\<lambda>i.
     if i_type i = T_DIR then thn (iunlockput ip) fail_op else
     thn (upd_nlink ip (\<lambda>n. n + 1)) (
     thn (iupdate ip) (
     thn (iunlock ip) (
     bnd (nameiparent new) (\<lambda>r. case r of None \<Rightarrow> sys_link_bad ip | Some (dp, name) \<Rightarrow>
     thn (ilock dp) (
     bnd (get_inode dp) (\<lambda>d.
     bnd (get_inode ip) (\<lambda>i.
     bnd (if i_dev d \<noteq> i_dev i then ret (-1) else dirlink dp name (i_inum i)) (\<lambda>r.
     if r < 0 then thn (iunlockput dp) (sys_link_bad ip) else
     thn (iunlockput dp) (
     thn (iput ip) (
     thn end_op
         (ret 0)))))))))))))))))"

text \<open>Entries 0 and 1 are skipped, as \<^verbatim>\<open>off\<close> starts at \<^verbatim>\<open>2*sizeof(de)\<close>.\<close>

primrec isdirempty_loop :: "nat \<Rightarrow> nat list \<Rightarrow> (bool, 'a kproc_scheme) kmonad" where
  "isdirempty_loop dp [] = ret True"
| "isdirempty_loop dp (off # offs) =
     bnd (read_dirent dp off ''isdirempty: readi'') (\<lambda>de.
     if de_inum de \<noteq> 0 then ret False else isdirempty_loop dp offs)"

definition isdirempty :: "nat \<Rightarrow> (bool, 'a kproc_scheme) kmonad" where
  "isdirempty dp =
     bnd (get_inode dp) (\<lambda>d.
     thn (new_kbuf DIRENT_SIZE)
         (isdirempty_loop dp (drop 2 (dir_offs (i_size d)))))"

definition sys_unlink_bad :: "nat \<Rightarrow> (uint64, 'a kproc_scheme) kmonad" where
  "sys_unlink_bad dp = thn (iunlockput dp) fail_op"

definition sys_unlink :: "(uint64, 'a kproc_scheme) kmonad" where
  "sys_unlink =
     bnd (argstr 0 MAXPATH) (\<lambda>r. case r of None \<Rightarrow> ret (-1) | Some path \<Rightarrow>
     thn begin_op (
     bnd (nameiparent path) (\<lambda>r. case r of None \<Rightarrow> fail_op | Some (dp, name) \<Rightarrow>
     thn (ilock dp) (
     if namecmp name (cbytes ''.'') = 0 \<or> namecmp name (cbytes ''..'') = 0 then sys_unlink_bad dp else
     bnd (dirlookup dp name) (\<lambda>r. case r of None \<Rightarrow> sys_unlink_bad dp | Some (ip, off) \<Rightarrow>
     thn (ilock ip) (
     bnd (get_inode ip) (\<lambda>i.
     if sint (i_nlink i) < 1 then panic ''unlink: nlink < 1'' else
     bnd (if i_type i = T_DIR then isdirempty ip else ret True) (\<lambda>ok.
     if \<not> ok then thn (iunlockput ip) (sys_unlink_bad dp) else
     thn (new_kbuf DIRENT_SIZE) (
     bnd (writei dp (KernBuf 0) (of_nat off) (of_nat DIRENT_SIZE)) (\<lambda>r.
     if r \<noteq> int DIRENT_SIZE then panic ''unlink: writei'' else
     thn (mwhen (i_type i = T_DIR) (thn (upd_nlink dp (\<lambda>n. n - 1)) (iupdate dp))) (
     thn (iunlockput dp) (
     thn (upd_nlink ip (\<lambda>n. n - 1)) (
     thn (iupdate ip) (
     thn (iunlockput ip) (
     thn end_op
         (ret 0))))))))))))))))"

definition create_fail :: "nat \<Rightarrow> nat \<Rightarrow> (nat option, 'a kproc_scheme) kmonad" where
  "create_fail ip dp =
     thn (upd_nlink ip (\<lambda>_. 0)) (
     thn (iupdate ip) (
     thn (iunlockput ip) (
     thn (iunlockput dp)
         (ret None))))"

definition create_dots :: "nat \<Rightarrow> nat \<Rightarrow> (int, 'a kproc_scheme) kmonad" where
  "create_dots ip dp =
     bnd (get_inode ip) (\<lambda>i.
     bnd (get_inode dp) (\<lambda>d.
     bnd (dirlink ip (cbytes ''.'') (i_inum i)) (\<lambda>r.
     if r < 0 then ret r else dirlink ip (cbytes ''..'') (i_inum d))))"

definition create_new :: "nat \<Rightarrow> uchar list \<Rightarrow> nat \<Rightarrow> ushort \<Rightarrow> ushort \<Rightarrow> ushort \<Rightarrow>
    (nat option, 'a kproc_scheme) kmonad" where
  "create_new dp name ip type major minor =
     thn (ilock ip) (
     thn (upd_inode ip (\<lambda>i. i\<lparr>i_major := major, i_minor := minor, i_nlink := 1\<rparr>)) (
     thn (iupdate ip) (
     bnd (if type = T_DIR then create_dots ip dp else ret 0) (\<lambda>r.
     if r < 0 then create_fail ip dp else
     bnd (get_inode ip) (\<lambda>i.
     bnd (dirlink dp name (i_inum i)) (\<lambda>r.
     if r < 0 then create_fail ip dp else
     thn (mwhen (type = T_DIR) (thn (upd_nlink dp (\<lambda>n. n + 1)) (iupdate dp))) (
     thn (iunlockput dp)
         (ret (Some ip)))))))))"

definition create :: "uchar list \<Rightarrow> ushort \<Rightarrow> ushort \<Rightarrow> ushort \<Rightarrow> (nat option, 'a kproc_scheme) kmonad" where
  "create path type major minor =
     bnd (nameiparent path) (\<lambda>r. case r of None \<Rightarrow> ret None | Some (dp, name) \<Rightarrow>
     thn (ilock dp) (
     bnd (dirlookup dp name) (\<lambda>r. case r of
       Some (ip, _) \<Rightarrow>
         thn (iunlockput dp) (
         thn (ilock ip) (
         bnd (get_inode ip) (\<lambda>i.
         if type = T_FILE \<and> (i_type i = T_FILE \<or> i_type i = T_DEVICE) then ret (Some ip)
         else thn (iunlockput ip) (ret None))))
     | None \<Rightarrow>
         bnd (get_inode dp) (\<lambda>d.
         bnd (ialloc (i_dev d) type) (\<lambda>r. case r of
           None \<Rightarrow> thn (iunlockput dp) (ret None)
         | Some ip \<Rightarrow> create_new dp name ip type major minor)))))"

text \<open>The first part of \<^verbatim>\<open>sys_open\<close>: the locked inode, or \<open>None\<close> after \<^verbatim>\<open>end_op\<close>.\<close>

definition open_inode :: "uchar list \<Rightarrow> uint \<Rightarrow> (nat option, 'a kproc_scheme) kmonad" where
  "open_inode path omode =
     (if omode AND O_CREATE \<noteq> 0 then
        bnd (create path T_FILE 0 0) (\<lambda>r. case r of
          None \<Rightarrow> thn end_op (ret None)
        | Some ip \<Rightarrow> ret (Some ip))
      else
        bnd (namei path) (\<lambda>r. case r of
          None \<Rightarrow> thn end_op (ret None)
        | Some ip \<Rightarrow>
            thn (ilock ip) (
            bnd (get_inode ip) (\<lambda>i.
            if i_type i = T_DIR \<and> omode \<noteq> O_RDONLY then
              thn (iunlockput ip) (thn end_op (ret None))
            else ret (Some ip)))))"

text \<open>Filling in the file structure, with the inode locked.\<close>

definition open_file :: "nat \<Rightarrow> nat \<Rightarrow> uint \<Rightarrow> (unit, 'a kproc_scheme) kmonad" where
  "open_file f ip omode =
     bnd (get_inode ip) (\<lambda>i.
     thn (if i_type i = T_DEVICE
          then upd_file f (\<lambda>fl. fl\<lparr>f_type := FD_DEVICE, f_major := i_major i\<rparr>)
          else upd_file f (\<lambda>fl. fl\<lparr>f_type := FD_INODE, f_off := 0\<rparr>)) (
     thn (upd_file f (\<lambda>fl. fl\<lparr>f_ip := ip, f_readable := (omode AND O_WRONLY = 0),
            f_writable := (omode AND O_WRONLY \<noteq> 0 \<or> omode AND O_RDWR \<noteq> 0)\<rparr>))
         (mwhen (omode AND O_TRUNC \<noteq> 0 \<and> i_type i = T_FILE) (itrunc ip))))"

definition sys_open :: "(uint64, 'a kproc_scheme) kmonad" where
  "sys_open =
     bnd (argint 1) (\<lambda>omode.
     bnd (argstr 0 MAXPATH) (\<lambda>r. case r of None \<Rightarrow> ret (-1) | Some path \<Rightarrow>
     thn begin_op (
     bnd (open_inode path omode) (\<lambda>r. case r of None \<Rightarrow> ret (-1) | Some ip \<Rightarrow>
     bnd (get_inode ip) (\<lambda>i.
     if i_type i = T_DEVICE \<and> (sint (i_major i) < 0 \<or> int NDEV \<le> sint (i_major i)) then
       thn (iunlockput ip) fail_op
     else
       bnd filealloc (\<lambda>r. case r of
         None \<Rightarrow> thn (iunlockput ip) fail_op
       | Some f \<Rightarrow>
       bnd (fdalloc f) (\<lambda>r. case r of
         None \<Rightarrow> thn (fileclose f) (thn (iunlockput ip) fail_op)
       | Some fd \<Rightarrow>
           thn (open_file f ip omode) (
           thn (iunlock ip) (
           thn end_op
               (ret (of_nat fd))))))))))) "

definition sys_mkdir :: "(uint64, 'a kproc_scheme) kmonad" where
  "sys_mkdir =
     thn begin_op (
     bnd (argstr 0 MAXPATH) (\<lambda>r. case r of None \<Rightarrow> fail_op | Some path \<Rightarrow>
     bnd (create path T_DIR 0 0) (\<lambda>r. case r of None \<Rightarrow> fail_op | Some ip \<Rightarrow>
     thn (iunlockput ip) (
     thn end_op
         (ret 0)))))"

definition sys_mknod :: "(uint64, 'a kproc_scheme) kmonad" where
  "sys_mknod =
     thn begin_op (
     bnd (argint 1) (\<lambda>major.
     bnd (argint 2) (\<lambda>minor.
     bnd (argstr 0 MAXPATH) (\<lambda>r. case r of None \<Rightarrow> fail_op | Some path \<Rightarrow>
     bnd (create path T_DEVICE (ucast major) (ucast minor)) (\<lambda>r. case r of None \<Rightarrow> fail_op | Some ip \<Rightarrow>
     thn (iunlockput ip) (
     thn end_op
         (ret 0)))))))"

definition sys_chdir :: "(uint64, 'a kproc_scheme) kmonad" where
  "sys_chdir =
     bnd myprocx (\<lambda>p.
     thn begin_op (
     bnd (argstr 0 MAXPATH) (\<lambda>r. case r of None \<Rightarrow> fail_op | Some path \<Rightarrow>
     bnd (namei path) (\<lambda>r. case r of None \<Rightarrow> fail_op | Some ip \<Rightarrow>
     thn (ilock ip) (
     bnd (get_inode ip) (\<lambda>i.
     if i_type i \<noteq> T_DIR then thn (iunlockput ip) fail_op else
     thn (iunlock ip) (
     bnd (get_proc p) (\<lambda>pr.
     thn (case p_cwd pr of None \<Rightarrow> undef ''null cwd'' | Some c \<Rightarrow> iput c) (
     thn end_op (
     thn (upd_proc p (\<lambda>pr. pr\<lparr>p_cwd := Some ip\<rparr>))
         (ret 0)))))))))))"

text \<open>
  The argument loop of \<^verbatim>\<open>sys_exec\<close> at index \<open>i\<close> of \<^verbatim>\<open>argv\<close>, \<open>k\<close> slots being left: the pages allocated so
  far, the strings, and whether the terminating null pointer was reached.
\<close>

primrec exec_argv :: "uint64 \<Rightarrow> nat \<Rightarrow> nat \<Rightarrow> uint64 list \<Rightarrow> uchar list list \<Rightarrow>
    (uint64 list \<times> uchar list list \<times> bool, 'a kproc_scheme) kmonad" where
  "exec_argv uargv i 0 pages strs = ret (pages, strs, False)"
| "exec_argv uargv i (Suc k) pages strs =
     bnd (fetchaddr (uargv + 8 * of_nat i)) (\<lambda>r. case r of
       None \<Rightarrow> ret (pages, strs, False)
     | Some uarg \<Rightarrow>
         if uarg = 0 then ret (pages, strs, True) else
         bnd kalloc (\<lambda>pg.
         if pg = 0 then ret (pages, strs, False) else
         bnd (fetchstr uarg (unat PGSIZE)) (\<lambda>r. case r of
           None \<Rightarrow> ret (pages @ [pg], strs, False)
         | Some str \<Rightarrow>
             thn (writes (\<lambda>s. s\<lparr>pmem := putbytes (pmem s) pg (str @ [0])\<rparr>))
                 (exec_argv uargv (Suc i) k (pages @ [pg]) (strs @ [str])))))"

definition sys_exec :: "(uint64, 'a kproc_scheme) kmonad" where
  "sys_exec =
     bnd (argaddr 1) (\<lambda>uargv.
     bnd (argstr 0 MAXPATH) (\<lambda>r. case r of None \<Rightarrow> ret (-1) | Some path \<Rightarrow>
     bnd (exec_argv uargv 0 MAXARG [] []) (\<lambda>(pages, strs, ok).
     bnd (if ok then exec path strs else ret (-1)) (\<lambda>v.
     thn (foreach pages kfree)
         (ret (word_of_int v))))))"

definition sys_pipe_undo :: "nat option \<Rightarrow> nat option \<Rightarrow> nat \<Rightarrow> nat \<Rightarrow> (uint64, 'a kproc_scheme) kmonad" where
  "sys_pipe_undo fd0 fd1 rfile wfile =
     thn (case fd0 of None \<Rightarrow> ret () | Some fd \<Rightarrow> set_ofile fd None) (
     thn (case fd1 of None \<Rightarrow> ret () | Some fd \<Rightarrow> set_ofile fd None) (
     thn (fileclose rfile) (
     thn (fileclose wfile)
         (ret (-1)))))"

definition sys_pipe :: "(uint64, 'a kproc_scheme) kmonad" where
  "sys_pipe =
     bnd myprocx (\<lambda>p.
     bnd (argaddr 0) (\<lambda>fdarray.
     bnd pipealloc (\<lambda>r. case r of None \<Rightarrow> ret (-1) | Some (rfile, wfile) \<Rightarrow>
     bnd (fdalloc rfile) (\<lambda>r. case r of None \<Rightarrow> sys_pipe_undo None None rfile wfile | Some fd0 \<Rightarrow>
     bnd (fdalloc wfile) (\<lambda>r. case r of None \<Rightarrow> sys_pipe_undo (Some fd0) None rfile wfile | Some fd1 \<Rightarrow>
     bnd (get_proc p) (\<lambda>pr.
     bnd (copyout (p_pagetable pr) fdarray (bytes32 (of_nat fd0))) (\<lambda>r.
     if r < 0 then sys_pipe_undo (Some fd0) (Some fd1) rfile wfile else
     bnd (copyout (p_pagetable pr) (fdarray + 4) (bytes32 (of_nat fd1))) (\<lambda>r.
     if r < 0 then sys_pipe_undo (Some fd0) (Some fd1) rfile wfile
     else ret 0))))))))"

section \<open>sysproc.c\<close>

definition sys_exit :: "(uint64, 'a kproc_scheme) kmonad" where
  "sys_exit = bnd (argint 0) (\<lambda>n. thn (exit (sint n)) (ret 0))"

definition sys_getpid :: "(uint64, 'a kproc_scheme) kmonad" where
  "sys_getpid = bnd myprocx (\<lambda>p. bnd (get_proc p) (\<lambda>pr. ret (word_of_int (p_pid pr))))"

definition sys_fork :: "(uint64, 'a kproc_scheme) kmonad" where
  "sys_fork = bnd fork (\<lambda>v. ret (word_of_int v))"

definition sys_wait :: "(uint64, 'a kproc_scheme) kmonad" where
  "sys_wait = bnd (argaddr 0) (\<lambda>p. bnd (wait p) (\<lambda>v. ret (word_of_int v)))"

definition sys_sbrk :: "(uint64, 'a kproc_scheme) kmonad" where
  "sys_sbrk =
     bnd (argint 0) (\<lambda>n.
     bnd myprocx (\<lambda>p.
     bnd (get_proc p) (\<lambda>pr.
     bnd (growproc n) (\<lambda>r. if r < 0 then ret (-1) else ret (p_sz pr)))))"

text \<open>\<^verbatim>\<open>ticks - ticks0 < n\<close> compares unsigned; \<open>n\<close> is not negative there.\<close>

definition sys_sleep_loop :: "uint \<Rightarrow> uint \<Rightarrow> (uint64, 'a kproc_scheme) kmonad" where
  "sys_sleep_loop ticks0 n =
     bnd (reads ticks) (\<lambda>t.
     if t - ticks0 < n then
       bnd myprocx (\<lambda>p. bnd (killed p) (\<lambda>k.
       if k then thn (release LkTicks) (ret (-1))
       else thn (sleep ChTicks LkTicks) (ret 0)))
     else thn (release LkTicks) (ret 0))"

definition sys_sleep :: "(uint64, 'a kproc_scheme) kmonad" where
  "sys_sleep =
     bnd (argint 0) (\<lambda>n.
     let n = (if sint n < 0 then 0 else n) in
     thn (acquire LkTicks) (
     bnd (reads ticks) (\<lambda>ticks0. sys_sleep_loop ticks0 n)))"

definition sys_sleep_resume :: "nat \<Rightarrow> bool \<Rightarrow> uint \<Rightarrow> uint \<Rightarrow> (uint64, 'a kproc_scheme) kmonad" where
  "sys_sleep_resume p ena ticks0 n = thn (sleep_resume p ena LkTicks) (sys_sleep_loop ticks0 n)"

definition sys_kill :: "(uint64, 'a kproc_scheme) kmonad" where
  "sys_kill = bnd (argint 0) (\<lambda>pid. bnd (kill (sint pid)) (\<lambda>v. ret (word_of_int v)))"

definition sys_uptime :: "(uint64, 'a kproc_scheme) kmonad" where
  "sys_uptime =
     thn (acquire LkTicks) (
     bnd (reads ticks) (\<lambda>x.
     thn (release LkTicks)
         (ret (ucast x))))"

section \<open>The dispatcher (syscall.c)\<close>

definition syscalls :: "(uint64, 'a kproc_scheme) kmonad list" where
  "syscalls = [sys_fork, sys_exit, sys_wait, sys_pipe, sys_read, sys_kill, sys_exec, sys_fstat, sys_chdir,
     sys_dup, sys_getpid, sys_sbrk, sys_sleep, sys_uptime, sys_open, sys_write, sys_mknod, sys_unlink,
     sys_link, sys_mkdir, sys_close]"

text \<open>Entry 0 of the C array is null; the list starts with entry 1.\<close>

definition syscall :: "(unit, 'a kproc_scheme) kmonad" where
  "syscall =
     bnd myprocx (\<lambda>p.
     bnd (tf_get p TF_a7) (\<lambda>a7.
     let num = sint (ucast a7 :: 32 word) in
     if 0 < num \<and> nat num \<le> length (syscalls :: (uint64, 'a kproc_scheme) kmonad list) then
       bnd (syscalls ! (nat num - 1)) (\<lambda>v. tf_set p TF_a0 v)
     else
       bnd (get_proc p) (\<lambda>pr.
       thn (printf (''%d %s: unknown sys call %d'' @ [CHR 0x0A])
              [AInt (word_of_int (p_pid pr)), AStr (Some (p_name pr)), AInt (word_of_int num)])
           (tf_set p TF_a0 (-1)))))"

end
