(* ===== verification/Trap.thy ===== *)
theory Trap
  imports Syscall
begin

text \<open>
  \<^verbatim>\<open>kernel/trap.c\<close>, \<^verbatim>\<open>kernel/plic.c\<close>, \<^verbatim>\<open>kernel/main.c\<close>, the scheduler's loop and \<^verbatim>\<open>forkret\<close> of \<^verbatim>\<open>kernel/proc.c\<close>, and
  \<^verbatim>\<open>kvminithart\<close> of \<^verbatim>\<open>kernel/vm.c\<close>. The control registers a trap handler reads and writes are fields indexed
  by hart; of \<^verbatim>\<open>sstatus\<close> the bits SIE (\<open>sie\<close>), SPP and SPIE are separate fields. The PLIC is hardware: \<open>plic_irq\<close> is the
  interrupt a hart's claim register reads as, \<open>plic_regs\<close> records what the driver wrote.
\<close>

definition UART0_IRQ :: uint where "UART0_IRQ = 10"
definition VIRTIO0_IRQ :: uint where "VIRTIO0_IRQ = 1"
definition PLIC_SENABLE :: "nat \<Rightarrow> uint64" where "PLIC_SENABLE h = PLIC + 0x2080 + of_nat h * 0x100"
definition PLIC_SPRIORITY :: "nat \<Rightarrow> uint64" where "PLIC_SPRIORITY h = PLIC + 0x201000 + of_nat h * 0x2000"
definition PLIC_SCLAIM :: "nat \<Rightarrow> uint64" where "PLIC_SCLAIM h = PLIC + 0x201004 + of_nat h * 0x2000"

record ktrap = kproc +
  spp :: "nat \<Rightarrow> bool"
  spie :: "nat \<Rightarrow> bool"
  stvec :: "nat \<Rightarrow> uint64"
  sepc :: "nat \<Rightarrow> uint64"
  scause :: "nat \<Rightarrow> uint64"
  stval :: "nat \<Rightarrow> uint64"
  satp :: "nat \<Rightarrow> uint64"
  mtime :: uint64
  stimecmp :: "nat \<Rightarrow> uint64"
  plic_irq :: "nat \<Rightarrow> uint"
  plic_regs :: "uint64 \<Rightarrow> uint"
  started :: bool

definition r_csr :: "('a ktrap_scheme \<Rightarrow> nat \<Rightarrow> 'b) \<Rightarrow> ('b, 'a ktrap_scheme) kmonad" where
  "r_csr f = reads (\<lambda>s. f s (hart s))"

definition w_stvec :: "uint64 \<Rightarrow> (unit, 'a ktrap_scheme) kmonad" where
  "w_stvec v = writes (\<lambda>s. s\<lparr>stvec := (stvec s)(hart s := v)\<rparr>)"

definition w_sepc :: "uint64 \<Rightarrow> (unit, 'a ktrap_scheme) kmonad" where
  "w_sepc v = writes (\<lambda>s. s\<lparr>sepc := (sepc s)(hart s := v)\<rparr>)"

section \<open>plic.c\<close>

definition w_plic :: "uint64 \<Rightarrow> uint \<Rightarrow> (unit, 'a ktrap_scheme) kmonad" where
  "w_plic a v = writes (\<lambda>s. s\<lparr>plic_regs := (plic_regs s)(a := v)\<rparr>)"

definition plicinit :: "(unit, 'a ktrap_scheme) kmonad" where
  "plicinit =
     thn (w_plic (PLIC + ucast UART0_IRQ * 4) 1)
         (w_plic (PLIC + ucast VIRTIO0_IRQ * 4) 1)"

definition plicinithart :: "(unit, 'a ktrap_scheme) kmonad" where
  "plicinithart =
     bnd cpuid (\<lambda>h.
     thn (w_plic (PLIC_SENABLE h) (push_bit (unat UART0_IRQ) 1 OR push_bit (unat VIRTIO0_IRQ) 1))
         (w_plic (PLIC_SPRIORITY h) 0))"

definition plic_claim :: "(uint, 'a ktrap_scheme) kmonad" where
  "plic_claim = bnd cpuid (\<lambda>h. reads (\<lambda>s. plic_irq s h))"

definition plic_complete :: "uint \<Rightarrow> (unit, 'a ktrap_scheme) kmonad" where
  "plic_complete irq = bnd cpuid (\<lambda>h. w_plic (PLIC_SCLAIM h) irq)"

section \<open>trap.c\<close>

definition trapinit :: "(unit, 'a ktrap_scheme) kmonad" where
  "trapinit = initlock LkTicks ''time''"

definition trapinithart :: "(unit, 'a ktrap_scheme) kmonad" where
  "trapinithart = bnd (reads sym_kernelvec) w_stvec"

definition clockintr :: "(unit, 'a ktrap_scheme) kmonad" where
  "clockintr =
     bnd cpuid (\<lambda>h.
     thn (mwhen (h = 0) (
            thn (acquire LkTicks) (
            thn (writes (\<lambda>s. s\<lparr>ticks := ticks s + 1\<rparr>)) (
            thn (wakeup ChTicks)
                (release LkTicks)))))
         (writes (\<lambda>s. s\<lparr>stimecmp := (stimecmp s)(hart s := mtime s + 1000000)\<rparr>)))"

definition devintr :: "(nat, 'a ktrap_scheme) kmonad" where
  "devintr =
     bnd (r_csr scause) (\<lambda>c.
     if c = 0x8000000000000009 then
       bnd plic_claim (\<lambda>irq.
       thn (if irq = UART0_IRQ then uartintr
            else if irq = VIRTIO0_IRQ then virtio_disk_intr
            else if irq \<noteq> 0 then printf (''unexpected interrupt irq=%d'' @ [CHR 0x0A]) [AInt irq]
            else ret ()) (
       thn (mwhen (irq \<noteq> 0) (plic_complete irq))
           (ret 1)))
     else if c = 0x8000000000000005 then thn clockintr (ret 2)
     else ret 0)"

definition MAKE_SATP :: "uint64 \<Rightarrow> uint64" where
  "MAKE_SATP pt = push_bit 60 8 OR drop_bit 12 pt"

text \<open>The jump to \<^verbatim>\<open>userret\<close> in the trampoline page leaves the kernel; the result is the \<^verbatim>\<open>satp\<close> it is given.\<close>

definition usertrapret :: "(uint64, 'a ktrap_scheme) kmonad" where
  "usertrapret =
     bnd myprocx (\<lambda>p.
     thn intr_off (
     bnd (reads (\<lambda>s. sym_uservec s - trampoline s)) (\<lambda>o'.
     thn (w_stvec (TRAMPOLINE + o')) (
     bnd (r_csr satp) (\<lambda>k.
     thn (tf_set p TF_kernel_satp k) (
     bnd (get_proc p) (\<lambda>pr.
     thn (tf_set p TF_kernel_sp (p_kstack pr + PGSIZE)) (
     bnd (reads sym_usertrap) (\<lambda>ut.
     thn (tf_set p TF_kernel_trap ut) (
     bnd cpuid (\<lambda>h.
     thn (tf_set p TF_kernel_hartid (of_nat h)) (
     thn (writes (\<lambda>s. s\<lparr>spp := (spp s)(hart s := False)\<rparr>)) (
     thn (writes (\<lambda>s. s\<lparr>spie := (spie s)(hart s := True)\<rparr>)) (
     bnd (tf_get p TF_epc) (\<lambda>epc.
     thn (w_sepc epc)
         (ret (MAKE_SATP (p_pagetable pr))))))))))))))))))"

definition usertrap_end :: "nat \<Rightarrow> nat \<Rightarrow> (uint64, 'a ktrap_scheme) kmonad" where
  "usertrap_end p which_dev =
     bnd (killed p) (\<lambda>k.
     thn (mwhen k (exit (-1))) (
     thn (mwhen (which_dev = 2) yield)
         usertrapret))"

definition usertrap :: "(uint64, 'a ktrap_scheme) kmonad" where
  "usertrap =
     bnd (r_csr spp) (\<lambda>from_s.
     if from_s then panic ''usertrap: not from user mode'' else
     bnd (reads sym_kernelvec) (\<lambda>kv.
     thn (w_stvec kv) (
     bnd myprocx (\<lambda>p.
     bnd (r_csr sepc) (\<lambda>pc.
     thn (tf_set p TF_epc pc) (
     bnd (r_csr scause) (\<lambda>c.
     if c = 8 then
       bnd (killed p) (\<lambda>k.
       thn (mwhen k (exit (-1))) (
       bnd (tf_get p TF_epc) (\<lambda>pc.
       thn (tf_set p TF_epc (pc + 4)) (
       thn intr_on (
       thn syscall
           (usertrap_end p 0))))))
     else
       bnd devintr (\<lambda>which_dev.
       if which_dev \<noteq> 0 then usertrap_end p which_dev else
       bnd (get_proc p) (\<lambda>pr.
       bnd (r_csr stval) (\<lambda>sv.
       bnd (r_csr sepc) (\<lambda>pc.
       thn (printf (''usertrap(): unexpected scause 0x%lx pid=%d'' @ [CHR 0x0A])
              [ALong c, AInt (word_of_int (p_pid pr))]) (
       thn (printf (''            sepc=0x%lx stval=0x%lx'' @ [CHR 0x0A]) [ALong pc, ALong sv]) (
       thn (setkilled p)
           (usertrap_end p 0))))))))))))))"

text \<open>A process that gave up the CPU in \<^verbatim>\<open>usertrap\<close> returns to user space when it runs again.\<close>

definition usertrap_resume :: "nat \<Rightarrow> bool \<Rightarrow> (uint64, 'a ktrap_scheme) kmonad" where
  "usertrap_resume p ena = thn (yield_resume p ena) usertrapret"

definition kerneltrap_end :: "uint64 \<Rightarrow> bool \<Rightarrow> bool \<Rightarrow> bool \<Rightarrow> (unit, 'a ktrap_scheme) kmonad" where
  "kerneltrap_end pc p_spp p_spie p_sie =
     thn (w_sepc pc)
         (writes (\<lambda>s. s\<lparr>spp := (spp s)(hart s := p_spp), spie := (spie s)(hart s := p_spie),
            sie := (sie s)(hart s := p_sie)\<rparr>))"

definition kerneltrap :: "(unit, 'a ktrap_scheme) kmonad" where
  "kerneltrap =
     bnd (r_csr sepc) (\<lambda>pc.
     bnd (r_csr spp) (\<lambda>s_spp.
     bnd (r_csr spie) (\<lambda>s_spie.
     bnd (r_csr sie) (\<lambda>s_sie.
     bnd (r_csr scause) (\<lambda>c.
     if \<not> s_spp then panic ''kerneltrap: not from supervisor mode'' else
     bnd intr_get (\<lambda>on.
     if on then panic ''kerneltrap: interrupts enabled'' else
     bnd devintr (\<lambda>which_dev.
     if which_dev = 0 then
       bnd (r_csr sepc) (\<lambda>pc2.
       bnd (r_csr stval) (\<lambda>sv.
       thn (printf (''scause=0x%lx sepc=0x%lx stval=0x%lx'' @ [CHR 0x0A]) [ALong c, ALong pc2, ALong sv])
           (panic ''kerneltrap'')))
     else
       bnd myproc (\<lambda>p.
       thn (mwhen (which_dev = 2 \<and> p \<noteq> None) yield)
           (kerneltrap_end pc s_spp s_spie s_sie)))))))))"

definition kerneltrap_resume ::
    "nat \<Rightarrow> bool \<Rightarrow> uint64 \<Rightarrow> bool \<Rightarrow> bool \<Rightarrow> bool \<Rightarrow> (unit, 'a ktrap_scheme) kmonad" where
  "kerneltrap_resume p ena pc s_spp s_spie s_sie =
     thn (yield_resume p ena) (kerneltrap_end pc s_spp s_spie s_sie)"

section \<open>forkret and the scheduler (proc.c)\<close>

definition forkret :: "(uint64, 'a ktrap_scheme) kmonad" where
  "forkret =
     bnd myprocx (\<lambda>p.
     thn (release (LkProc p)) (
     bnd (reads forkret_first) (\<lambda>fst_call.
     thn (mwhen fst_call (
            thn (fsinit ROOTDEV)
                (writes (\<lambda>s. s\<lparr>forkret_first := False\<rparr>))))
         usertrapret)))"

text \<open>
  One pass of the scheduler's endless loop over the process table. Choosing a process ends in \<^verbatim>\<open>swtch\<close>; when that
  process switches back, \<open>scheduler_rest\<close> finishes the pass. \<open>found\<close> only decides whether the hart then waits
  for an interrupt.
\<close>

definition scheduler :: "(unit, 'a ktrap_scheme) kmonad" where
  "scheduler =
     thn (upd_mycpu (\<lambda>c. c\<lparr>cpu_proc := None\<rparr>)) (
     thn intr_on (
     thn (foreach [0..<NPROC] scheduler_pick)
         intr_on))"

definition scheduler_rest :: "nat \<Rightarrow> (unit, 'a ktrap_scheme) kmonad" where
  "scheduler_rest p =
     thn (scheduler_return p)
         (foreach [Suc p..<NPROC] scheduler_pick)"

section \<open>main.c\<close>

definition kvminithart :: "(unit, 'a ktrap_scheme) kmonad" where
  "kvminithart = writes (\<lambda>s. s\<lparr>satp := (satp s)(hart s := MAKE_SATP (kernel_pagetable s))\<rparr>)"

definition main :: "(unit, 'a ktrap_scheme) kmonad" where
  "main =
     bnd cpuid (\<lambda>h.
     thn (if h = 0 then
            thn consoleinit (
            thn printfinit (
            thn (printf [CHR 0x0A] []) (
            thn (printf (''xv6 kernel is booting'' @ [CHR 0x0A]) []) (
            thn (printf [CHR 0x0A] []) (
            thn kinit (
            thn kvminit (
            thn kvminithart (
            thn procinit (
            thn trapinit (
            thn trapinithart (
            thn plicinit (
            thn plicinithart (
            thn binit (
            thn iinit (
            thn fileinit (
            thn virtio_disk_init (
            thn userinit
                (writes (\<lambda>s. s\<lparr>started := True\<rparr>)))))))))))))))))))
          else
            bnd (reads started) (\<lambda>go'.
            if \<not> go' then spin else
            thn (printf (''hart %d starting'' @ [CHR 0x0A]) [AInt (of_nat h)]) (
            thn kvminithart (
            thn trapinithart
                plicinithart))))
         scheduler)"

end
