(* ===== verification/UserCopy.thy ===== *)
theory UserCopy
  imports UserMem
begin

text \<open>
  What \<^verbatim>\<open>copyin\<close> and \<^verbatim>\<open>copyout\<close> do to user memory, faults included, and a concrete page table with one user
  page for examples.
\<close>

section \<open>copyin\<close>

lemma ubytes_page:
  assumes "n \<le> 4096 - unat va mod 4096"
  shows "getbytes m (uaddr m pt va) n = ubytes m pt va n"
proof -
  have "m (uaddr m pt va + of_nat i) = umem m pt (va + of_nat i)" if "i < n" for i
  proof -
    have "pageno va = pageno (va + of_nat i)" using pageno_within [of i va] that assms by simp
    then have "uaddr m pt (va + of_nat i) - uaddr m pt va = va + of_nat i - va" by (rule uaddr_diff)
    then show ?thesis by (simp add: umem_def algebra_simps)
  qed
  then show ?thesis by (simp add: getbytes_def ubytes_def)
qed

lemma ubytes_append: "ubytes m pt va (a + b) = ubytes m pt va a @ ubytes m pt (va + of_nat a) b"
proof -
  have "[0..<a + b] = [0..<a] @ map (\<lambda>i. a + i) [0..<b]"
    by (simp add: upt_add_eq_append [of 0 a b] map_add_upt add.commute)
  then show ?thesis by (simp add: ubytes_def comp_def add.assoc)
qed

lemma length_ubytes [simp]: "length (ubytes m pt va n) = n"
  by (simp add: ubytes_def)

text \<open>\<^verbatim>\<open>copyin\<close> reads up to the first byte whose page the user may not access, and fails if there is one.\<close>

lemma copyin_spec:
  assumes "um_ok (pmem s) pt S"
  shows "\<exists>k. copyin pt va len s = Ok (if k = len then 0 else -1, ubytes (pmem s) pt va k) s \<and> k \<le> len \<and>
    (\<forall>i<k. user_ok {} (pmem s) pt (va + of_nat i)) \<and> (k < len \<longrightarrow> \<not> user_ok {} (pmem s) pt (va + of_nat k))"
proof (induction len arbitrary: va rule: less_induct)
  case (less len)
  show ?case
  proof (cases "0 < len \<and> user_ok {} (pmem s) pt va")
    case False
    then show ?thesis
      using copyin_round [OF assms, of len va]
      by (intro exI [of _ 0]) (auto simp: copyin.simps ubytes_def)
  next
    case True
    define n where "n = min (4096 - unat va mod 4096) len"
    have n: "0 < n" "n \<le> len" "n \<le> 4096 - unat va mod 4096" using True by (auto simp: n_def)
    have inpage: "user_ok {} (pmem s) pt (va + of_nat i)" if "i < n" for i
      using user_ok_page [of "va + of_nat i" va] pageno_within [of i va] that n True by simp
    have round: "copyin pt va len s = bnd (copyin pt (PGROUNDDOWN va + PGSIZE) (len - n)) (\<lambda>r.
        ret (fst r, ubytes (pmem s) pt va n @ snd r)) s"
      using copyin_round [OF assms, of len va] True ubytes_page [OF n(3)] by (simp add: n_def [symmetric])
    show ?thesis
    proof (cases "n < len")
      case more: True
      from less.IH [of "len - n" "va + of_nat n"] n(1) more obtain k where
        k: "copyin pt (va + of_nat n) (len - n) s =
            Ok (if k = len - n then 0 else -1, ubytes (pmem s) pt (va + of_nat n) k) s" "k \<le> len - n"
          "\<forall>i<k. user_ok {} (pmem s) pt (va + of_nat n + of_nat i)"
          "k < len - n \<longrightarrow> \<not> user_ok {} (pmem s) pt (va + of_nat n + of_nat k)"
        by auto
      have "user_ok {} (pmem s) pt (va + of_nat i)" if "i < n + k" for i
        using k(3) [rule_format, of "i - n"] inpage [of i] that by (cases "i < n") (simp_all add: add.assoc of_nat_diff)
      moreover have "copyin pt va len s =
          Ok (if n + k = len then 0 else -1, ubytes (pmem s) pt va (n + k)) s"
        unfolding round next_round [OF n_def more] using k(1,2) more
        by (auto simp: bnd_def ret_def ubytes_append)
      ultimately show ?thesis using k(2,4) more by (intro exI [of _ "n + k"]) (simp add: add.assoc)
    next
      case last: False
      then have "n = len" using n by simp
      then show ?thesis
        using round inpage by (intro exI [of _ len]) (simp add: bnd_def ret_def copyin.simps)
    qed
  qed
qed

lemma copyin_ok:
  assumes "um_ok (pmem s) pt S" and "\<And>i. i < len \<Longrightarrow> user_ok {} (pmem s) pt (va + of_nat i)"
  shows "copyin pt va len s = Ok (0, ubytes (pmem s) pt va len) s"
  using copyin_spec [OF assms(1), of va len] assms(2) by (metis le_neq_implies_less)

section \<open>copyout\<close>

lemma copyout_fails:
  assumes "um_ok (pmem s) pt S" and "\<exists>i<length bs. \<not> user_ok {2} (pmem s) pt (va + of_nat i)"
  shows "\<exists>m. copyout pt va bs s = Ok (-1) (s\<lparr>pmem := m\<rparr>) \<and> um_ok m pt S"
  using assms
proof (induction "length bs" arbitrary: bs va s rule: less_induct)
  case less
  from less.prems(2) have ne: "bs \<noteq> []" by auto
  show ?case
  proof (cases "user_ok {2} (pmem s) pt va")
    case False
    then show ?thesis
      using copyout_fault [OF ne] less.prems(1) by (intro exI [of _ "pmem s"]) simp
  next
    case True
    define n where "n = min (4096 - unat va mod 4096) (length bs)"
    have n: "0 < n" "n \<le> length bs" "n \<le> 4096 - unat va mod 4096" using ne by (auto simp: n_def)
    let ?m = "putbytes (pmem s) (uaddr (pmem s) pt va) (take n bs)"
    have P: "um_ok ?m pt S" "\<And>B w. user_ok B ?m pt w = user_ok B (pmem s) pt w"
      using putbytes_umem [OF less.prems(1) user_ok_mono [OF True], of "take n bs"] n
      by (simp_all add: min_def)
    from less.prems(2) obtain i where i: "i < length bs" "\<not> user_ok {2} (pmem s) pt (va + of_nat i)" by blast
    have "n \<le> i"
      using i(2) user_ok_page [of "va + of_nat i" va] pageno_within [of i va] True n(3) by (meson leI le_trans linorder_not_less order_less_le_trans)
    then have more: "n < length bs" using i(1) by simp
    have "\<exists>j<length (drop n bs). \<not> user_ok {2} (pmem (s\<lparr>pmem := ?m\<rparr>)) pt (va + of_nat n + of_nat j)"
      using i \<open>n \<le> i\<close> P(2) by (intro exI [of _ "i - n"]) (simp add: add.assoc of_nat_diff)
    moreover have "length (drop n bs) < length bs" using n(1) more by simp
    ultimately obtain m where
      "copyout pt (va + of_nat n) (drop n bs) (s\<lparr>pmem := ?m\<rparr>) = Ok (-1) (s\<lparr>pmem := m\<rparr>)" "um_ok m pt S"
      using less.hyps [of "drop n bs" "s\<lparr>pmem := ?m\<rparr>" "va + of_nat n"] P(1) by auto
    then show ?thesis
      using copyout_round [OF ne True, folded n_def] next_round [OF n_def more] by (intro exI [of _ m]) simp
  qed
qed

section \<open>Round trip\<close>

lemma ubytes_uput:
  assumes "length bs \<le> 2 ^ 38" and "\<And>i. i < length bs \<Longrightarrow> umem m pt (va + of_nat i) = uput f va bs (va + of_nat i)"
  shows "ubytes m pt va (length bs) = bs"
  using assms by (intro nth_equalityI) (auto simp: ubytes_def uput_def unat_of_nat_small)

text \<open>
  C6: bytes that \<^verbatim>\<open>copyout\<close> stores in a range of user memory are the bytes \<^verbatim>\<open>copyin\<close> fetches from it. \<^verbatim>\<open>copyout\<close>
  returns 0 when the user may write the whole range and then changes exactly these bytes of user memory; otherwise it
  returns -1. No call panics, and the page table stays as it is.
\<close>

theorem copyout_copyin_roundtrip:
  assumes "um_ok (pmem s) pt S"
  shows "if \<forall>i<length bs. user_ok {2} (pmem s) pt (va + of_nat i)
    then \<exists>m. copyout pt va bs s = Ok 0 (s\<lparr>pmem := m\<rparr>) \<and>
      copyin pt va (length bs) (s\<lparr>pmem := m\<rparr>) = Ok (0, bs) (s\<lparr>pmem := m\<rparr>) \<and>
      (\<forall>w. pte_at 2 m pt w = pte_at 2 (pmem s) pt w) \<and>
      (\<forall>w. user_ok {} (pmem s) pt w \<longrightarrow> length bs \<le> unat (w - va) \<longrightarrow> umem m pt w = umem (pmem s) pt w)
    else \<exists>m. copyout pt va bs s = Ok (-1) (s\<lparr>pmem := m\<rparr>)"
proof (cases "\<forall>i<length bs. user_ok {2} (pmem s) pt (va + of_nat i)")
  case True
  from copyout_spec [OF assms, of bs va] True obtain m where
    m: "copyout pt va bs s = Ok 0 (s\<lparr>pmem := m\<rparr>)" "um_ok m pt S"
      "\<And>w. pte_at 2 m pt w = pte_at 2 (pmem s) pt w"
      "\<And>w. user_ok {} (pmem s) pt w \<Longrightarrow> umem m pt w = uput (umem (pmem s) pt) va bs w"
    by blast
  have uok: "user_ok B m pt w = user_ok B (pmem s) pt w" for B w by (simp add: user_ok_def m(3))
  have "length bs \<le> 2 ^ 38"
    using user_range_bound [of "length bs" "{2}" "pmem s" pt va] True by fastforce
  then have "ubytes m pt va (length bs) = bs"
    using True user_ok_mono m(4) by (intro ubytes_uput) auto
  moreover have "copyin pt va (length bs) (s\<lparr>pmem := m\<rparr>) = Ok (0, ubytes m pt va (length bs)) (s\<lparr>pmem := m\<rparr>)"
    using copyin_ok [of "s\<lparr>pmem := m\<rparr>" pt S "length bs" va] m(2) uok
      user_ok_mono [OF True [rule_format]] by simp
  moreover have "umem m pt w = umem (pmem s) pt w" if "user_ok {} (pmem s) pt w" "length bs \<le> unat (w - va)" for w
    using m(4) [OF that(1)] that(2) by (simp add: uput_def)
  ultimately show ?thesis using True m(1,3) by auto
next
  case False
  then show ?thesis using copyout_fails [OF assms, of bs va] by auto
qed

section \<open>A concrete user page\<close>

text \<open>A node all of whose entries but number \<open>k\<close> are zero.\<close>

lemma pt_single:
  assumes "aligned p" "p \<noteq> 0" "p \<notin> S" "unat k < 512" "pt_wf l m (PTE2PA e) S" "e AND PTE_V \<noteq> 0"
    and e: "\<And>i. unat i < 512 \<Longrightarrow> load64 m (p + 8 * i) = (if i = k then e else 0)"
  shows "pt_wf (Suc l) m p (insert p S)"
    and "pte_at (Suc l) m p va = (if PX (Suc l) va = k then pte_at l m (PTE2PA e) va else 0)"
proof -
  have v: "valid m p i \<longleftrightarrow> i = k" "child m p k = PTE2PA e" if "unat i < 512" for i
    using e [OF that] e [OF assms(4)] assms(6) by (auto simp: valid_def child_def)
  have "pt_node (pt_wf l m) m p (\<lambda>i. if i = k then S else {}) (insert p S)"
    using assms(1-5) v by (auto simp: pt_node_def)
  then show "pt_wf (Suc l) m p (insert p S)" by auto
  show "pte_at (Suc l) m p va = (if PX (Suc l) va = k then pte_at l m (PTE2PA e) va else 0)"
    using v PX_lt [of "Suc l" va] assms(4) by (simp add: pte_at_Suc)
qed

definition user_pm :: mem where
  "user_pm = store64 (store64 (store64 (\<lambda>_. 0)
     (0x80003000 + 8 * 0) (PA2PTE 0x80004000 OR PTE_V)) (0x80004000 + 8 * 0) (PA2PTE 0x80005000 OR PTE_V))
     (0x80005000 + 8 * 1) (PA2PTE 0x80006000 OR (PTE_V OR PTE_R OR PTE_W OR PTE_U))"

lemma load64_zero: "load64 (\<lambda>_. 0) a = 0"
  by (rule bit_word_eqI) (simp add: bit_load64)

lemma user_pm_slots:
  assumes "unat i < 512"
  shows "load64 user_pm (0x80003000 + 8 * i) = (if i = 0 then PA2PTE 0x80004000 OR PTE_V else 0)"
    and "load64 user_pm (0x80004000 + 8 * i) = (if i = 0 then PA2PTE 0x80005000 OR PTE_V else 0)"
    and "load64 user_pm (0x80005000 + 8 * i) =
      (if i = 1 then PA2PTE 0x80006000 OR (PTE_V OR PTE_R OR PTE_W OR PTE_U) else 0)"
proof -
  have al: "aligned 0x80003000" "aligned 0x80004000" "aligned 0x80005000"
    by (simp_all add: aligned_def PGSIZE_def)
  have u: "unat (0 :: uint64) < 512" "unat (1 :: uint64) < 512" by simp_all
  note o = load_slot_other [OF _ _ u(1) assms] load_slot_other [OF _ _ u(2) assms]
  show "load64 user_pm (0x80003000 + 8 * i) = (if i = 0 then PA2PTE 0x80004000 OR PTE_V else 0)"
    unfolding user_pm_def using o [OF al(3) al(1)] o [OF al(2) al(1)] o [OF al(1) al(1)]
    by (cases "i = 0") (simp_all add: load64_store64_same load64_zero)
  show "load64 user_pm (0x80004000 + 8 * i) = (if i = 0 then PA2PTE 0x80005000 OR PTE_V else 0)"
    unfolding user_pm_def using o [OF al(3) al(2)] o [OF al(2) al(2)] o [OF al(1) al(2)]
    by (cases "i = 0") (simp_all add: load64_store64_same load64_zero)
  show "load64 user_pm (0x80005000 + 8 * i) =
      (if i = 1 then PA2PTE 0x80006000 OR (PTE_V OR PTE_R OR PTE_W OR PTE_U) else 0)"
    unfolding user_pm_def using o [OF al(3) al(3)] o [OF al(2) al(3)] o [OF al(1) al(3)]
    by (cases "i = 1") (simp_all add: load64_store64_same load64_zero)
qed

lemma user_pm_table:
  "pt_wf 2 user_pm 0x80003000 {0x80003000, 0x80004000, 0x80005000}"
  "pte_at 2 user_pm 0x80003000 va =
     (if PX 2 va = 0 \<and> PX 1 va = 0 \<and> PX 0 va = 1
      then PA2PTE 0x80006000 OR (PTE_V OR PTE_R OR PTE_W OR PTE_U) else 0)"
proof -
  have e: "PTE2PA (PA2PTE 0x80004000 OR PTE_V) = 0x80004000" "PTE2PA (PA2PTE 0x80005000 OR PTE_V) = 0x80005000"
    by (simp_all add: PTE2PA_def PA2PTE_def PTE_V_def)
  have v: "(PA2PTE p OR PTE_V) AND PTE_V \<noteq> 0" for p
    by (simp add: pte_bits) (simp add: bit_simps PTE_V_def)
  have al: "aligned 0x80003000" "aligned 0x80004000" "aligned 0x80005000"
    by (simp_all add: aligned_def PGSIZE_def)
  have 0: "pt_wf 0 user_pm (PTE2PA (PA2PTE 0x80005000 OR PTE_V)) {0x80005000}" by (simp add: e al)
  have 1: "pt_wf (Suc 0) user_pm 0x80004000 (insert 0x80004000 {0x80005000})"
    "\<And>va. pte_at (Suc 0) user_pm 0x80004000 va =
      (if PX (Suc 0) va = 0 then pte_at 0 user_pm (PTE2PA (PA2PTE 0x80005000 OR PTE_V)) va else 0)"
    using pt_single [OF al(2) _ _ _ 0 v, of 0] user_pm_slots(2) by simp_all
  then have 1: "pt_wf (Suc 0) user_pm (PTE2PA (PA2PTE 0x80004000 OR PTE_V)) {0x80004000, 0x80005000}"
    "\<And>va. pte_at (Suc 0) user_pm (PTE2PA (PA2PTE 0x80004000 OR PTE_V)) va =
      (if PX (Suc 0) va = 0 then pte_at 0 user_pm 0x80005000 va else 0)" by (simp_all add: e)
  have "pte_at 0 user_pm 0x80005000 va =
      (if PX 0 va = 1 then PA2PTE 0x80006000 OR (PTE_V OR PTE_R OR PTE_W OR PTE_U) else 0)" for va
    using user_pm_slots(3) [OF PX_lt [of 0 va]] slot_nonzero [OF al(3) _ PX_lt [of 0 va]]
    by (auto simp: pte_at_def)
  moreover have "pt_wf (Suc (Suc 0)) user_pm 0x80003000 (insert 0x80003000 {0x80004000, 0x80005000})"
    "\<And>va. pte_at (Suc (Suc 0)) user_pm 0x80003000 va =
      (if PX (Suc (Suc 0)) va = 0 then pte_at (Suc 0) user_pm (PTE2PA (PA2PTE 0x80004000 OR PTE_V)) va else 0)"
    using pt_single [OF al(1) _ _ _ 1(1) v, of 0] user_pm_slots(1) by simp_all
  ultimately show "pt_wf 2 user_pm 0x80003000 {0x80003000, 0x80004000, 0x80005000}"
    "pte_at 2 user_pm 0x80003000 va =
      (if PX 2 va = 0 \<and> PX 1 va = 0 \<and> PX 0 va = 1
       then PA2PTE 0x80006000 OR (PTE_V OR PTE_R OR PTE_W OR PTE_U) else 0)"
    using 1(2) by (simp_all add: numeral_2_eq_2)
qed

lemma user_pm_page:
  "user_ok B user_pm 0x80003000 va \<Longrightarrow> pageno va = 1"
  "pageno va = 1 \<Longrightarrow> user_ok {2} user_pm 0x80003000 va"
proof -
  have px: "PX 2 va = 0 \<and> PX 1 va = 0 \<and> PX 0 va = 1 \<longleftrightarrow> pageno va = 1" if "va < MAXVA"
  proof -
    have "p div 262144 mod 512 = 0 \<and> p div 512 mod 512 = 0 \<and> p mod 512 = 1 \<longleftrightarrow> p = 1" if "p < 2 ^ 26" for p :: nat
    proof
      assume p: "p div 262144 mod 512 = 0 \<and> p div 512 mod 512 = 0 \<and> p mod 512 = 1"
      have "p div 262144 < 512" using that by (intro less_mult_imp_div_less) simp
      with p have "p < 262144" by (simp add: div_eq_0_iff)
      then have "p div 512 < 512" by (intro less_mult_imp_div_less) simp
      with p have "p < 512" by (simp add: div_eq_0_iff)
      with p show "p = 1" by simp
    qed simp
    then have "unat (PX 2 va) = 0 \<and> unat (PX 1 va) = 0 \<and> unat (PX 0 va) = 1 \<longleftrightarrow> pageno va = 1"
      using that MAXVA_pageno [of va] by (simp add: PX_pageno)
    then show ?thesis
      using word_unat_eq_iff [of "PX 2 va" 0] word_unat_eq_iff [of "PX 1 va" 0] word_unat_eq_iff [of "PX 0 va" 1]
      by simp
  qed
  show "user_ok B user_pm 0x80003000 va \<Longrightarrow> pageno va = 1"
    using px by (auto simp: user_ok_def user_pm_table split: if_splits)
  show "pageno va = 1 \<Longrightarrow> user_ok {2} user_pm 0x80003000 va"
    using px MAXVA_pageno [of va]
    by (auto simp: user_ok_def user_pm_table bit_simps PTE_V_def PTE_R_def PTE_W_def PTE_U_def PA2PTE_def)
qed

lemma user_pm_ok: "um_ok user_pm 0x80003000 {0x80003000, 0x80004000, 0x80005000}"
proof -
  have "PTE2PA (PA2PTE 0x80006000 OR (PTE_V OR PTE_R OR PTE_W OR PTE_U)) = 0x80006000"
    by (simp add: PTE2PA_def PA2PTE_def PTE_V_def PTE_R_def PTE_W_def PTE_U_def)
  then have pa: "PTE2PA (pte_at 2 user_pm 0x80003000 v) = 0x80006000" if "user_ok {} user_pm 0x80003000 v" for v
    using that by (simp add: user_ok_def user_pm_table(2) split: if_splits)
  have pg: "pageno v = pageno w" if "user_ok {} user_pm 0x80003000 v" "user_ok {} user_pm 0x80003000 w" for v w
    using that [THEN user_pm_page(1)] by simp
  show ?thesis unfolding um_ok_def
  proof (intro conjI allI impI)
    show "PTE2PA (pte_at 2 user_pm 0x80003000 v) \<notin> insert 0 {0x80003000, 0x80004000, 0x80005000}"
      if "user_ok {} user_pm 0x80003000 v" for v using pa [OF that] by simp
  qed (rule user_pm_table(1), rule pg)
qed

theorem copyout_copyin_roundtrip_witness:
  "\<exists>m. copyout 0x80003000 0x1ffe [7, 8] (one_page\<lparr>pmem := user_pm\<rparr>) = Ok 0 (one_page\<lparr>pmem := m\<rparr>) \<and>
     copyin 0x80003000 0x1ffe 2 (one_page\<lparr>pmem := m\<rparr>) = Ok (0, [7, 8]) (one_page\<lparr>pmem := m\<rparr>)"
proof -
  let ?s = "one_page\<lparr>pmem := user_pm\<rparr>"
  have ok: "\<forall>i<length [7, 8 :: uchar]. user_ok {2} (pmem ?s) 0x80003000 (0x1ffe + of_nat i)"
    by (auto simp: less_Suc_eq pageno_def intro!: user_pm_page(2))
  have "um_ok (pmem ?s) 0x80003000 {0x80003000, 0x80004000, 0x80005000}" using user_pm_ok by simp
  from copyout_copyin_roundtrip [OF this, of "[7, 8]" "0x1ffe", unfolded if_P [OF ok]] obtain m where
    "copyout 0x80003000 0x1ffe [7, 8] ?s = Ok 0 (?s\<lparr>pmem := m\<rparr>)"
    "copyin 0x80003000 0x1ffe (length [7, 8 :: uchar]) (?s\<lparr>pmem := m\<rparr>) = Ok (0, [7, 8]) (?s\<lparr>pmem := m\<rparr>)"
    by (elim exE conjE)
  then show ?thesis by (intro exI [of _ m]) (simp add: numeral_2_eq_2)
qed

end
