(* ===== verification/Boot.thy ===== *)
theory Boot
  imports Trap UserCopy
begin

text \<open>
  The kernel's static storage before \<^verbatim>\<open>main\<close> runs, and a first state with a running process. C gives static
  variables the value zero, apart from the few with an initialiser (\<^verbatim>\<open>nextpid\<close>, \<^verbatim>\<open>first\<close> of \<^verbatim>\<open>forkret\<close>); the addresses
  of the linker's symbols are those of a kernel of two pages. The examples that show the hypotheses of the
  theorems to be satisfiable are variations of these two states.
\<close>

definition zero_buf :: buf where
  "zero_buf = \<lparr>b_valid = False, b_disk = False, b_dev = 0, b_blockno = 0, b_refcnt = 0, b_prev = 0, b_next = 0,
     b_data = replicate BSIZE 0\<rparr>"

definition zero_desc :: virtq_desc where
  "zero_desc = \<lparr>vd_addr = DNull, vd_len = 0, vd_flags = 0, vd_next = 0\<rparr>"

definition zero_superblock :: superblock where
  "zero_superblock = \<lparr>sb_magic = 0, sb_size = 0, sb_nblocks = 0, sb_ninodes = 0, sb_nlog = 0, sb_logstart = 0,
     sb_inodestart = 0, sb_bmapstart = 0\<rparr>"

definition zero_inode :: inode where
  "zero_inode = \<lparr>i_dev = 0, i_inum = 0, i_ref = 0, i_valid = False, i_type = 0, i_major = 0, i_minor = 0,
     i_nlink = 0, i_size = 0, i_addrs = replicate (NDIRECT + 1) 0\<rparr>"

definition zero_file :: filestruct where
  "zero_file = \<lparr>f_type = FD_NONE, f_ref = 0, f_readable = False, f_writable = False, f_pipe = 0, f_ip = 0,
     f_off = 0, f_major = 0\<rparr>"

definition zero_pipe :: pipe where
  "zero_pipe = \<lparr>pi_data = (\<lambda>_. 0), pi_nread = 0, pi_nwrite = 0, pi_readopen = False, pi_writeopen = False\<rparr>"

definition boot_kernel :: ktrap where
  "boot_kernel = kbase.extend boot_kbase
     \<lparr>kend = 0x80002000, pmem = (\<lambda>_. 0), freelist = 0,
      kernel_pagetable = 0, etext = 0x80001000, trampoline = 0x80000000,
      uart_in = [], uart_sent = [], tx_room = 0, uart_tx_buf = (\<lambda>_. 0), uart_tx_w = 0, uart_tx_r = 0,
      panicked = False, cons_buf = (\<lambda>_. 0), cons_r = 0, cons_w = 0, cons_e = 0, pr_locking = False,
      kbuf = [], uart_regs = [], devsw = (\<lambda>_. None),
      bufs = (\<lambda>_. zero_buf), disk = (\<lambda>_. replicate BSIZE 0), dtrace = [],
      vdesc = (\<lambda>_. zero_desc), avail_idx = 0, avail_ring = (\<lambda>_. 0), used_idx_dev = 0,
      used_ring = (\<lambda>_. 0), vfree = (\<lambda>_. False), used_idx = 0, info_b = (\<lambda>_. None),
      info_status = (\<lambda>_. 0), vops = (\<lambda>_. \<lparr>vq_type = 0, vq_reserved = 0, vq_sector = 0\<rparr>),
      vq_pages = (0, 0, 0), vregs = (\<lambda>_. 0), vresponse = (\<lambda>_ v. v),
      log_start = 0, log_size = 0, log_outstanding = 0, log_committing = False, log_dev = 0, lh_n = 0,
      lh_block = replicate LOGSIZE 0,
      sb = zero_superblock, inodes = (\<lambda>_. zero_inode),
      files = (\<lambda>_. zero_file), pipes = (\<lambda>_. zero_pipe), stat_pad = [0, 0, 0, 0],
      sym_forkret = 0x80000100, sym_usertrap = 0x80000200, sym_kernelvec = 0x80000300,
      sym_uservec = 0x80000000, sym_userret = 0x80000090, forkret_first = True, ticks = 0,
      spp = (\<lambda>_. False), spie = (\<lambda>_. False), stvec = (\<lambda>_. 0), sepc = (\<lambda>_. 0), scause = (\<lambda>_. 0),
      stval = (\<lambda>_. 0), satp = (\<lambda>_. 0), mtime = 0, stimecmp = (\<lambda>_. 0), plic_irq = (\<lambda>_. 0),
      plic_regs = (\<lambda>_. 0), started = False\<rparr>"

text \<open>
  Process 0 (pid 1) runs on hart 0 with interrupts on. Its page table is at 0x80003000 and maps the page at
  0x1000, readable and writable, to 0x80006000.
\<close>

definition running :: ktrap where
  "running = boot_kernel\<lparr>
     pmem := user_pm, nextpid := 2,
     cpus := (\<lambda>_. zero_cpu)(0 := zero_cpu\<lparr>cpu_proc := Some 0, intena := True\<rparr>),
     sie := (\<lambda>_. False)(0 := True),
     procs := (\<lambda>_. zero_proc)(0 := zero_proc\<lparr>p_state := RUNNING, p_pid := 1, p_sz := 0x2000,
       p_pagetable := 0x80003000\<rparr>)\<rparr>"

lemmas boot_kernel_defs = boot_kernel_def boot_kbase_def kbase.defs

lemma boot_kernel_sel [simp]:
  "pmem boot_kernel = (\<lambda>_. 0)" "pipes boot_kernel = (\<lambda>_. zero_pipe)" "bufs boot_kernel = (\<lambda>_. zero_buf)"
  "files boot_kernel = (\<lambda>_. zero_file)" "inodes boot_kernel = (\<lambda>_. zero_inode)" "locks boot_kernel = (\<lambda>_. zero_spinlock)"
  "slocks boot_kernel = (\<lambda>_. zero_sleeplock)" "procs boot_kernel = (\<lambda>_. zero_proc)" "hart boot_kernel = 0"
  "cpus boot_kernel = (\<lambda>_. zero_cpu)" "sie boot_kernel = (\<lambda>_. False)" "nextpid boot_kernel = 1"
  "kend boot_kernel = 0x80002000" "freelist boot_kernel = 0" "ticks boot_kernel = 0" "initproc boot_kernel = None"
  "disk boot_kernel = (\<lambda>_. replicate BSIZE 0)" "dtrace boot_kernel = []" "lh_n boot_kernel = 0"
  "lh_block boot_kernel = replicate LOGSIZE 0" "log_start boot_kernel = 0" "log_size boot_kernel = 0"
  "log_outstanding boot_kernel = 0" "log_committing boot_kernel = False" "log_dev boot_kernel = 0"
  "cons_buf boot_kernel = (\<lambda>_. 0)" "cons_r boot_kernel = 0" "cons_w boot_kernel = 0" "cons_e boot_kernel = 0"
  "uart_in boot_kernel = []" "uart_sent boot_kernel = []" "tx_room boot_kernel = 0" "panicked boot_kernel = False"
  "uart_tx_buf boot_kernel = (\<lambda>_. 0)" "uart_tx_w boot_kernel = 0" "uart_tx_r boot_kernel = 0"
  by (simp_all add: boot_kernel_defs)

lemma running_sel [simp]:
  "pmem running = user_pm" "pipes running = (\<lambda>_. zero_pipe)" "bufs running = (\<lambda>_. zero_buf)"
  "files running = (\<lambda>_. zero_file)" "inodes running = (\<lambda>_. zero_inode)" "locks running = (\<lambda>_. zero_spinlock)"
  "slocks running = (\<lambda>_. zero_sleeplock)" "hart running = 0" "nextpid running = 2" "kend running = 0x80002000"
  "procs running 0 = zero_proc\<lparr>p_state := RUNNING, p_pid := 1, p_sz := 0x2000, p_pagetable := 0x80003000\<rparr>"
  "curproc running = Some 0" "freelist running = 0" "ticks running = 0"
  "disk running = (\<lambda>_. replicate BSIZE 0)" "dtrace running = []"
  by (simp_all add: running_def curproc_def)

lemma running_calm [simp]: "calm running"
  by (auto simp: running_def calm_def base_ok_def lk_free_def curproc_def zero_spinlock_def zero_cpu_def NPROC_def)

end
