(* ===== verification/Ring.thy ===== *)
theory Ring
  imports Prelude
begin

text \<open>
  Ring buffers with free-running counters. The pipe, the UART's transmit buffer and the console's input buffer are
  arrays of a power-of-two size indexed by counters that are never reset, so the counters wrap around. \<open>ring_q\<close> is
  the queue such a buffer holds; locale \<open>byte_ring\<close> is the interface the code that uses a ring relies on.
\<close>

definition ring_q :: "(nat \<Rightarrow> 'c) \<Rightarrow> 'a::len word \<Rightarrow> 'a word \<Rightarrow> 'a word \<Rightarrow> 'c list" where
  "ring_q data r w N = map (\<lambda>i. data (unat ((r + of_nat i) mod N))) [0..<unat (w - r)]"

lemma length_ring_q [simp]: "length (ring_q data r w N) = unat (w - r)"
  by (simp add: ring_q_def)

lemma mod_pow2_word:
  fixes r :: "'a::len word"
  assumes "unat N = 2 ^ k" and "k < LENGTH('a)"
  shows "unat ((r + of_nat i) mod N) = (unat r + i) mod 2 ^ k"
proof -
  have dvd: "(2::nat) ^ k dvd 2 ^ LENGTH('a)" using assms(2) by (intro le_imp_power_dvd) simp
  have "unat (r + of_nat i) = (unat r + i) mod 2 ^ LENGTH('a)"
    by (simp add: unat_word_ariths unat_of_nat take_bit_eq_mod mod_simps)
  then have "unat ((r + of_nat i) mod N) = (unat r + i) mod 2 ^ LENGTH('a) mod 2 ^ k"
    by (simp add: unat_mod assms(1))
  also have "\<dots> = (unat r + i) mod 2 ^ k" using dvd by (rule mod_mod_cancel)
  finally show ?thesis .
qed

lemma mod_add_neq:
  fixes a i j m :: nat
  assumes "i < j" and "j - i < m"
  shows "(a + i) mod m \<noteq> (a + j) mod m"
proof
  assume "(a + i) mod m = (a + j) mod m"
  then have "m dvd (a + j) - (a + i)" using mod_eq_dvd_iff_nat [of "a + i" "a + j" m] assms(1) by simp
  then have "m dvd j - i" by simp
  with assms show False by (meson nat_dvd_not_less zero_less_diff)
qed

lemma ring_q_put:
  fixes r w :: "'a::len word"
  assumes N: "unat N = 2 ^ k" and k: "k < LENGTH('a)" and room: "unat (w - r) < 2 ^ k"
  shows "ring_q (data(unat (w mod N) := c)) r (w + 1) N = ring_q data r w N @ [c]"
proof -
  have lt: "(2::nat) ^ k < 2 ^ LENGTH('a)" using k by simp
  have "unat (w - r) + 1 < 2 ^ LENGTH('a)" using room lt by linarith
  then have "unat ((w - r) + 1) = Suc (unat (w - r))" by (subst unat_word_ariths) simp
  moreover have "w + 1 - r = (w - r) + 1" by (simp add: algebra_simps)
  ultimately have n: "unat (w + 1 - r) = Suc (unat (w - r))" by (simp only:)
  have w: "w = r + of_nat (unat (w - r))" by simp
  then have wi: "unat (w mod N) = (unat r + unat (w - r)) mod 2 ^ k"
    using mod_pow2_word [OF N k, of r "unat (w - r)"] by simp
  have ne: "unat ((r + of_nat i) mod N) \<noteq> unat (w mod N)" if "i < unat (w - r)" for i
    using mod_add_neq [OF that, of "2 ^ k" "unat r"] room
    unfolding wi mod_pow2_word [OF N k] by simp
  have "ring_q (data(unat (w mod N) := c)) r (w + 1) N =
      map (\<lambda>i. (data(unat (w mod N) := c)) (unat ((r + of_nat i) mod N))) [0..<unat (w - r)] @
      [c]"
    unfolding ring_q_def n using w by simp
  also have "map (\<lambda>i. (data(unat (w mod N) := c)) (unat ((r + of_nat i) mod N))) [0..<unat (w - r)] =
      ring_q data r w N"
    unfolding ring_q_def using ne by (intro map_cong) auto
  finally show ?thesis .
qed

lemma ring_q_get:
  fixes r w :: "'a::len word"
  assumes "w \<noteq> r"
  shows "ring_q data r w N = data (unat (r mod N)) # ring_q data (r + 1) w N"
proof -
  have pos: "0 < unat (w - r)" using assms by (simp add: unat_gt_0)
  moreover have e: "w - (r + 1) = (w - r) - 1" by (simp add: algebra_simps)
  moreover have "unat (w - (r + 1)) = unat (w - r) - 1" unfolding e using assms by (intro unat_minus_one) simp
  ultimately have n: "unat (w - r) = Suc (unat (w - (r + 1)))" by simp
  have "[0..<Suc m] = 0 # map Suc [0..<m]" for m by (simp add: map_Suc_upt upt_conv_Cons)
  then show ?thesis unfolding ring_q_def n by (simp add: comp_def add.assoc)
qed

lemma ring_q_Nil: "ring_q data r w N = [] \<longleftrightarrow> r = w"
  by (auto simp: ring_q_def unat_eq_zero)

section \<open>The interface\<close>

text \<open>
  \<open>queue p\<close> is what the ring holds, \<open>full\<close> and \<open>empty\<close> are the tests the code makes, \<open>put\<close> stores a byte and \<open>get\<close>
  advances the read counter past the byte \<open>front\<close>.
\<close>

locale byte_ring =
  fixes ok :: "'p \<Rightarrow> bool" and queue :: "'p \<Rightarrow> 'c list" and cap :: nat
    and full :: "'p \<Rightarrow> bool" and empty :: "'p \<Rightarrow> bool"
    and put :: "'c \<Rightarrow> 'p \<Rightarrow> 'p" and front :: "'p \<Rightarrow> 'c" and get :: "'p \<Rightarrow> 'p"
  assumes bounded: "ok p \<Longrightarrow> length (queue p) \<le> cap"
    and full_iff: "ok p \<Longrightarrow> full p \<longleftrightarrow> length (queue p) = cap"
    and empty_iff: "ok p \<Longrightarrow> empty p \<longleftrightarrow> queue p = []"
    and put_ok: "ok p \<Longrightarrow> \<not> full p \<Longrightarrow> ok (put c p) \<and> queue (put c p) = queue p @ [c]"
    and get_ok: "ok p \<Longrightarrow> \<not> empty p \<Longrightarrow> ok (get p) \<and> queue p = front p # queue (get p)"
begin

text \<open>Storing a list and taking as many bytes out.\<close>

primrec puts :: "'c list \<Rightarrow> 'p \<Rightarrow> 'p" where
  "puts [] p = p"
| "puts (c # cs) p = puts cs (put c p)"

primrec gets :: "nat \<Rightarrow> 'p \<Rightarrow> 'c list" where
  "gets 0 p = []"
| "gets (Suc n) p = (if empty p then [] else front p # gets n (get p))"

primrec drops :: "nat \<Rightarrow> 'p \<Rightarrow> 'p" where
  "drops 0 p = p"
| "drops (Suc n) p = (if empty p then p else drops n (get p))"

lemma puts_ok:
  "ok p \<Longrightarrow> length (queue p) + length cs \<le> cap \<Longrightarrow> ok (puts cs p) \<and> queue (puts cs p) = queue p @ cs"
proof (induction cs arbitrary: p)
  case (Cons c cs)
  then have "\<not> full p" using full_iff by simp
  with Cons.IH [of "put c p"] put_ok [of p c] Cons.prems show ?case by simp
qed simp

lemma gets_drops:
  "ok p \<Longrightarrow> gets n p = take n (queue p) \<and> ok (drops n p) \<and> queue (drops n p) = drop n (queue p)"
proof (induction n arbitrary: p)
  case (Suc n)
  show ?case
  proof (cases "empty p")
    case True
    then show ?thesis using empty_iff [OF Suc.prems] Suc.prems by simp
  next
    case False
    with Suc.IH [of "get p"] get_ok [OF Suc.prems] show ?thesis by simp
  qed
qed simp

lemma fifo:
  assumes "ok p" and "length (queue p) + length cs \<le> cap"
  shows "gets (length (queue p) + length cs) (puts cs p) = queue p @ cs"
  using puts_ok [OF assms] gets_drops [of "puts cs p"] by simp

end

end
