(* ===== verification/Pipe_Proofs.thy ===== *)
theory Pipe_Proofs
  imports Boot Ring
begin

text \<open>
  Pipes: the ring in \<^verbatim>\<open>struct pipe\<close> is a bounded queue for every value of its wrapping counters, and bytes written to a
  pipe come out in order.
\<close>

section \<open>The ring\<close>

definition pipe_queue :: "pipe \<Rightarrow> uchar list" where
  "pipe_queue p = ring_q (pi_data p) (pi_nread p) (pi_nwrite p) PIPESIZE"

definition pipe_ok :: "pipe \<Rightarrow> bool" where
  "pipe_ok p \<longleftrightarrow> unat (pi_nwrite p - pi_nread p) \<le> 512"

definition pipe_empty :: "pipe \<Rightarrow> bool" where
  "pipe_empty p \<longleftrightarrow> pi_nread p = pi_nwrite p"

definition pipe_next :: "pipe \<Rightarrow> pipe" where
  "pipe_next p = p\<lparr>pi_nread := pi_nread p + 1\<rparr>"

interpretation pp: byte_ring pipe_ok pipe_queue 512 pipe_full pipe_empty pipe_put pipe_head pipe_next
proof
  have N: "unat PIPESIZE = 2 ^ 9" "9 < LENGTH(32)" by (simp_all add: PIPESIZE_def)
  fix p :: pipe and c
  show "length (pipe_queue p) \<le> 512" if "pipe_ok p" using that by (simp add: pipe_queue_def pipe_ok_def)
  show full: "pipe_full p = (length (pipe_queue p) = 512)"
  proof -
    have "pi_nwrite p = pi_nread p + PIPESIZE \<longleftrightarrow> pi_nwrite p - pi_nread p = PIPESIZE" by (auto simp: algebra_simps)
    also have "\<dots> \<longleftrightarrow> unat (pi_nwrite p - pi_nread p) = 512"
      by (simp add: word_unat_eq_iff PIPESIZE_def)
    finally show ?thesis by (simp add: pipe_full_def pipe_queue_def)
  qed
  show "pipe_empty p = (pipe_queue p = [])" by (simp add: pipe_empty_def pipe_queue_def ring_q_Nil)
  show "pipe_ok (pipe_put c p) \<and> pipe_queue (pipe_put c p) = pipe_queue p @ [c]"
    if "pipe_ok p" "\<not> pipe_full p"
  proof -
    have "unat (pi_nwrite p - pi_nread p) < 2 ^ 9"
      using that full by (simp add: pipe_ok_def pipe_queue_def)
    from ring_q_put [OF N this, of "pi_data p" c] have q: "pipe_queue (pipe_put c p) = pipe_queue p @ [c]"
      by (simp add: pipe_queue_def pipe_put_def)
    then have "length (pipe_queue (pipe_put c p)) = Suc (length (pipe_queue p))" by simp
    then show ?thesis using q \<open>unat (pi_nwrite p - pi_nread p) < 2 ^ 9\<close> by (simp add: pipe_ok_def pipe_queue_def)
  qed
  show "pipe_ok (pipe_next p) \<and> pipe_queue p = pipe_head p # pipe_queue (pipe_next p)"
    if "pipe_ok p" "\<not> pipe_empty p"
  proof -
    have q: "pipe_queue p = pipe_head p # pipe_queue (pipe_next p)"
      using ring_q_get [of "pi_nwrite p" "pi_nread p" "pi_data p" PIPESIZE] that(2)
      by (simp add: pipe_queue_def pipe_next_def pipe_head_def pipe_empty_def)
    then have "length (pipe_queue p) = Suc (length (pipe_queue (pipe_next p)))" by simp
    then show ?thesis using q that(1) by (simp add: pipe_ok_def pipe_queue_def)
  qed
qed

section \<open>Frames\<close>

lemma pfile_get [kframe]:
  "pipes (lock_st l s) = pipes s"
  "pipes (wake_st ch s) = pipes s"
  "pipes (slock_st i s) = pipes s"
  "pipes (sunlock_st i s) = pipes s"
  "pipes (set_ena b s) = pipes s"
  "files (lock_st l s) = files s"
  "files (wake_st ch s) = files s"
  "files (slock_st i s) = files s"
  "files (sunlock_st i s) = files s"
  "files (set_ena b s) = files s"
  by (simp_all add: lock_st_def push_st_def wake_st_def slock_st_def sunlock_st_def set_ena_def)

lemma pfile_set [kframe]:
  "(lock_st l s)\<lparr>pipes := v_pipes\<rparr> = lock_st l (s\<lparr>pipes := v_pipes\<rparr>)"
  "(wake_st ch s)\<lparr>pipes := v_pipes\<rparr> = wake_st ch (s\<lparr>pipes := v_pipes\<rparr>)"
  "(lock_st l s)\<lparr>files := v_files\<rparr> = lock_st l (s\<lparr>files := v_files\<rparr>)"
  "(wake_st ch s)\<lparr>files := v_files\<rparr> = wake_st ch (s\<lparr>files := v_files\<rparr>)"
  by (simp_all add: lock_st_def push_st_def wake_st_def curproc_def)

lemma pfile_keep [kframe]:
  "base_ok (s\<lparr>pipes := v_pipes\<rparr>) = base_ok s"
  "lk_free k (s\<lparr>pipes := v_pipes\<rparr>) = lk_free k s"
  "curproc (s\<lparr>pipes := v_pipes\<rparr>) = curproc s"
  "procs_free (s\<lparr>pipes := v_pipes\<rparr>) = procs_free s"
  "calm (s\<lparr>pipes := v_pipes\<rparr>) = calm s"
  "mypid (s\<lparr>pipes := v_pipes\<rparr>) = mypid s"
  "base_ok (s\<lparr>files := v_files\<rparr>) = base_ok s"
  "lk_free k (s\<lparr>files := v_files\<rparr>) = lk_free k s"
  "curproc (s\<lparr>files := v_files\<rparr>) = curproc s"
  "procs_free (s\<lparr>files := v_files\<rparr>) = procs_free s"
  "calm (s\<lparr>files := v_files\<rparr>) = calm s"
  "mypid (s\<lparr>files := v_files\<rparr>) = mypid s"
  by (simp_all add: base_ok_def lk_free_def curproc_def procs_free_def calm_def mypid_def)

lemma pipe_access [kstep]:
  "get_pipe pi s = Ok (pipes s pi) s"
  "upd_pipe pi g s = Ok () (s\<lparr>pipes := (pipes s)(pi := g (pipes s pi))\<rparr>)"
  by (simp_all add: get_pipe_def upd_pipe_def kstep)

section \<open>Writing\<close>

lemma pipewrite_loop_ok:
  assumes "base_ok s" "procs_free s" "lk_free (LkProc pr) s" "lk_free (LkPipe pi) s"
    and "\<not> p_killed (procs s pr)" "pi_readopen (pipes s pi)"
    and "pipe_ok (pipes s pi)" "length (pipe_queue (pipes s pi)) + k \<le> 512"
    and "um_ok (pmem s) (p_pagetable (procs s pr)) S"
    and "\<And>j. j < k \<Longrightarrow> user_ok {} (pmem s) (p_pagetable (procs s pr)) (addr + of_nat i + of_nat j)"
  shows "pipewrite_loop pr pi addr i k (lock_st (LkPipe pi) s) = Ok (int (i + k))
    (wake_st (ChPipeRead pi) (s\<lparr>pipes := (pipes s)(pi :=
      pp.puts (ubytes (pmem s) (p_pagetable (procs s pr)) (addr + of_nat i) k) (pipes s pi))\<rparr>))"
  using assms
proof (induction k arbitrary: i s)
  case 0
  then show ?case by (simp add: pipewrite_end_def kstep kframe ubytes_def)
next
  case (Suc k)
  let ?pt = "p_pagetable (procs s pr)"
  let ?b = "umem (pmem s) ?pt (addr + of_nat i)"
  let ?s = "s\<lparr>pipes := (pipes s)(pi := pipe_put ?b (pipes s pi))\<rparr>"
  have nf: "\<not> pipe_full (pipes s pi)" using pp.full_iff [OF Suc.prems(7)] Suc.prems(8) by simp
  have put: "pipe_ok (pipe_put ?b (pipes s pi))"
    "pipe_queue (pipe_put ?b (pipes s pi)) = pipe_queue (pipes s pi) @ [?b]"
    using pp.put_ok [OF Suc.prems(7) nf] by simp_all
  have "copyin ?pt (addr + of_nat i) 1 (lock_st (LkPipe pi) s) = Ok (0, [?b]) (lock_st (LkPipe pi) s)"
    using copyin_ok [of "lock_st (LkPipe pi) s" ?pt S 1 "addr + of_nat i"] Suc.prems(9) Suc.prems(10) [of 0]
    by (simp add: kframe ubytes_def)
  then have step: "pipewrite_loop pr pi addr i (Suc k) (lock_st (LkPipe pi) s) =
      pipewrite_loop pr pi addr (Suc i) k (lock_st (LkPipe pi) ?s)"
    using Suc.prems nf by (simp add: kstep kframe)
  have "ubytes (pmem s) ?pt (addr + of_nat i) (Suc k) = ?b # ubytes (pmem s) ?pt (addr + of_nat (Suc i)) k"
    using ubytes_append [of "pmem s" ?pt "addr + of_nat i" 1 k] by (simp add: ubytes_def add_ac)
  moreover have "pipewrite_loop pr pi addr (Suc i) k (lock_st (LkPipe pi) ?s) = Ok (int (Suc i + k))
    (wake_st (ChPipeRead pi) (?s\<lparr>pipes := (pipes ?s)(pi :=
      pp.puts (ubytes (pmem ?s) (p_pagetable (procs ?s pr)) (addr + of_nat (Suc i)) k) (pipes ?s pi))\<rparr>))"
    using Suc.prems put Suc.prems(10) [of "Suc j" for j]
    by (intro Suc.IH) (simp_all add: kframe pipe_put_def add_ac)
  ultimately show ?case unfolding step by (simp add: fun_upd_def cong: if_cong)
qed

section \<open>Reading\<close>

lemma piperead_copy_ok:
  assumes "pipe_ok (pipes s pi)" and "um_ok (pmem s) (p_pagetable (procs s pr)) S"
    and "\<And>j. j < k \<Longrightarrow> user_ok {2} (pmem s) (p_pagetable (procs s pr)) (addr + of_nat i + of_nat j)"
  defines "q \<equiv> pipe_queue (pipes s pi)"
  shows "\<exists>m. piperead_copy pr pi addr i k s = Ok (i + min k (length q))
      (s\<lparr>pipes := (pipes s)(pi := pp.drops k (pipes s pi)), pmem := m\<rparr>) \<and>
    um_ok m (p_pagetable (procs s pr)) S \<and>
    (\<forall>w. pte_at 2 m (p_pagetable (procs s pr)) w = pte_at 2 (pmem s) (p_pagetable (procs s pr)) w) \<and>
    (\<forall>w. user_ok {} (pmem s) (p_pagetable (procs s pr)) w \<longrightarrow>
      umem m (p_pagetable (procs s pr)) w =
      uput (umem (pmem s) (p_pagetable (procs s pr))) (addr + of_nat i) (take k q) w)"
  using assms(1-3) unfolding q_def
proof (induction k arbitrary: i s)
  case 0
  then show ?case by (intro exI [of _ "pmem s"]) (simp add: kstep uput_def)
next
  case (Suc k)
  let ?pt = "p_pagetable (procs s pr)" and ?p = "pipes s pi" and ?a = "addr + of_nat i"
  let ?s = "s\<lparr>pipes := (pipes s)(pi := pipe_next ?p)\<rparr>"
  show ?case
  proof (cases "pipe_empty ?p")
    case True
    then have "pipe_queue ?p = []" using pp.empty_iff [OF Suc.prems(1)] by simp
    moreover have "piperead_copy pr pi addr i (Suc k) s = Ok i s"
      using True by (simp add: kstep pipe_empty_def)
    moreover have "pp.drops (Suc k) ?p = ?p" using True by simp
    ultimately show ?thesis
      using Suc.prems(2) by (intro exI [of _ "pmem s"]) (simp add: uput_def del: pp.drops.simps)
  next
    case False
    note g = pp.get_ok [OF Suc.prems(1) False]
    from copyout_spec [of ?s ?pt S "[pipe_head ?p]" ?a] Suc.prems(2) Suc.prems(3) [of 0] obtain m where
      m: "copyout ?pt ?a [pipe_head ?p] ?s = Ok 0 (?s\<lparr>pmem := m\<rparr>)" "um_ok m ?pt S"
        "\<And>w. pte_at 2 m ?pt w = pte_at 2 (pmem s) ?pt w"
        "\<And>w. user_ok {} (pmem s) ?pt w \<Longrightarrow> umem m ?pt w = uput (umem (pmem s) ?pt) ?a [pipe_head ?p] w"
      by auto
    have uok: "user_ok B m ?pt w = user_ok B (pmem s) ?pt w" for B w by (simp add: user_ok_def m(3))
    define t where "t = ?s\<lparr>pmem := m\<rparr>"
    have t: "pipes t pi = pipe_next ?p" "procs t = procs s" "pmem t = m"
      "t\<lparr>pipes := (pipes t)(pi := x), pmem := y\<rparr> = s\<lparr>pipes := (pipes s)(pi := x), pmem := y\<rparr>" for x y
      by (simp_all add: t_def fun_upd_def cong: if_cong)
    have step: "piperead_copy pr pi addr i (Suc k) s = piperead_copy pr pi addr (Suc i) k t"
      using False m(1) unfolding t_def by (simp add: kstep pipe_empty_def pipe_next_def)
    have pre: "pipe_ok (pipes t pi)" "um_ok (pmem t) (p_pagetable (procs t pr)) S"
      "\<And>j. j < k \<Longrightarrow> user_ok {2} (pmem t) (p_pagetable (procs t pr)) (addr + of_nat (Suc i) + of_nat j)"
      using g m(2) Suc.prems(3) [of "Suc j" for j] uok by (simp_all add: add_ac t)
    from Suc.IH [OF pre, unfolded t] obtain m2 where
      m2: "piperead_copy pr pi addr (Suc i) k t = Ok (Suc i + min k (length (pipe_queue (pipe_next ?p))))
          (s\<lparr>pipes := (pipes s)(pi := pp.drops k (pipe_next ?p)), pmem := m2\<rparr>)" "um_ok m2 ?pt S"
        "\<And>w. pte_at 2 m2 ?pt w = pte_at 2 m ?pt w"
        "\<And>w. user_ok {} m ?pt w \<Longrightarrow>
          umem m2 ?pt w = uput (umem m ?pt) (addr + of_nat (Suc i)) (take k (pipe_queue (pipe_next ?p))) w"
      by blast
    have "umem m2 ?pt w = uput (umem (pmem s) ?pt) ?a (take (Suc k) (pipe_queue ?p)) w"
      if w: "user_ok {} (pmem s) ?pt w" for w
    proof -
      have "length (pipe_queue (pipe_next ?p)) \<le> 512" using g pp.bounded by blast
      then have len: "length [pipe_head ?p] + length (take k (pipe_queue (pipe_next ?p))) < 2 ^ 64" by simp
      have "umem m2 ?pt w = uput (umem m ?pt) (addr + of_nat (Suc i)) (take k (pipe_queue (pipe_next ?p))) w"
        using m2(4) uok w by blast
      also have "\<dots> = uput (uput (umem (pmem s) ?pt) ?a [pipe_head ?p]) (?a + of_nat (length [pipe_head ?p]))
          (take k (pipe_queue (pipe_next ?p))) w"
        using m(4) [OF w] by (simp add: uput_def add_ac)
      also have "\<dots> = uput (umem (pmem s) ?pt) ?a ([pipe_head ?p] @ take k (pipe_queue (pipe_next ?p))) w"
        by (rule uput_append [OF len])
      finally show ?thesis using g by simp
    qed
    moreover have "pp.drops (Suc k) ?p = pp.drops k (pipe_next ?p)" using False by simp
    moreover have "length (pipe_queue ?p) = Suc (length (pipe_queue (pipe_next ?p)))" using g by simp
    ultimately show ?thesis
      using step m2(1-3) m(3) by (intro exI [of _ m2]) (simp add: fun_upd_def del: pp.drops.simps)
  qed
qed

lemma piperead_ok:
  assumes "base_ok s" "procs_free s" "lk_free (LkPipe pi) s" and "curproc s = Some pr"
    and "p_pagetable (procs s pr) = pt" and "pipe_ok (pipes s pi)" and "um_ok (pmem s) pt S"
    and "\<And>j. j < r \<Longrightarrow> user_ok {2} (pmem s) pt (dst + of_nat j)" and "pipe_queue (pipes s pi) = q" and "q \<noteq> []"
  shows "\<exists>m. piperead pi dst (int r) s = Ok (int (min r (length q)))
      (wake_st (ChPipeWrite pi) (s\<lparr>pipes := (pipes s)(pi := pp.drops r (pipes s pi)), pmem := m\<rparr>)) \<and>
    (\<forall>w. user_ok {} (pmem s) pt w \<longrightarrow> umem m pt w = uput (umem (pmem s) pt) dst (take r q) w)"
proof -
  let ?l = "lock_st (LkPipe pi) s"
  have l: "pipes ?l = pipes s" "procs ?l = procs s" "pmem ?l = pmem s" by (simp_all add: kframe)
  from piperead_copy_ok [of ?l pi pr S r dst 0, unfolded l assms(5,9)] assms(6,7,8) obtain m where
    m: "piperead_copy pr pi dst 0 r ?l = Ok (min r (length q))
        (?l\<lparr>pipes := (pipes s)(pi := pp.drops r (pipes s pi)), pmem := m\<rparr>)"
      "\<forall>w. user_ok {} (pmem s) pt w \<longrightarrow> umem m pt w = uput (umem (pmem s) pt) dst (take r q) w"
    by auto
  have "pi_nread (pipes s pi) \<noteq> pi_nwrite (pipes s pi)"
    using pp.empty_iff [OF assms(6)] assms(9,10) by (auto simp: pipe_empty_def)
  then have "piperead pi dst (int r) s = Ok (int (min r (length q)))
      (wake_st (ChPipeWrite pi) (s\<lparr>pipes := (pipes s)(pi := pp.drops r (pipes s pi)), pmem := m\<rparr>))"
    using m(1) assms(1-4) by (simp add: piperead_def piperead_loop_def kstep kframe)
  with m(2) show ?thesis by blast
qed

text \<open>
  C7: what a process writes to a pipe is what comes out of it, in order and behind the bytes that were in the pipe before.
  With room for \<open>n\<close> more bytes \<^verbatim>\<open>pipewrite\<close> returns \<open>n\<close>; a \<^verbatim>\<open>piperead\<close> of \<open>r\<close> bytes then returns \<open>r\<close>, stores the first
  \<open>r\<close> bytes of the queue at the reader's address and leaves the rest, whatever the values of the wrapping counters.
\<close>

theorem pipe_fifo:
  assumes "calm s" and "pr = the (curproc s)" and "pt = p_pagetable (procs s pr)"
    and "\<not> p_killed (procs s pr)" and "pi_readopen (pipes s pi)" and "pipe_ok (pipes s pi)"
    and "um_ok (pmem s) pt S" and "length (pipe_queue (pipes s pi)) + n \<le> 512"
    and "\<forall>j<n. user_ok {} (pmem s) pt (src + of_nat j)" and "\<forall>j<r. user_ok {2} (pmem s) pt (dst + of_nat j)"
    and "0 < r" and "r \<le> length (pipe_queue (pipes s pi)) + n"
  shows "\<exists>t u. pipewrite pi src (int n) s = Ok (int n) t \<and> piperead pi dst (int r) t = Ok (int r) u \<and>
    ubytes (pmem u) pt dst r = take r (pipe_queue (pipes s pi) @ ubytes (pmem s) pt src n) \<and>
    pipe_queue (pipes u pi) = drop r (pipe_queue (pipes s pi) @ ubytes (pmem s) pt src n) \<and>
    pipe_ok (pipes u pi) \<and> calm u"
proof -
  note c = calmD(1-4) [OF assms(1)]
  have cur: "curproc s = Some pr" unfolding assms(2) by (rule calmD(5) [OF assms(1)])
  let ?b = "ubytes (pmem s) pt src n" and ?q = "pipe_queue (pipes s pi) @ ubytes (pmem s) pt src n"
  define t where "t = wake_st (ChPipeRead pi) (s\<lparr>pipes := (pipes s)(pi := pp.puts ?b (pipes s pi))\<rparr>)"
  have w: "pipewrite pi src (int n) s = Ok (int n) t"
    using pipewrite_loop_ok [of s pr pi n S src 0] c cur assms(3-9)
    by (simp add: pipewrite_def kstep kframe t_def)
  have t: "pmem t = pmem s" "pipes t pi = pp.puts ?b (pipes s pi)" "calm t" "curproc t = Some pr"
    "p_pagetable (procs t pr) = pt"
    using assms(1) cur assms(3) unfolding t_def by (simp_all add: kframe) (simp add: wake_st_def woken_def kframe cur)
  have p: "pipe_ok (pipes t pi)" "pipe_queue (pipes t pi) = ?q"
    using pp.puts_ok [OF assms(6), of ?b] assms(8) by (simp_all add: t(2))
  have "0 < length ?q" and len: "min r (length ?q) = r" using assms(11,12) by auto
  then have "?q \<noteq> []" using length_greater_0_conv by blast
  with len piperead_ok [of t pi pr pt S r dst ?q] calmD(1-4) [OF t(3)] t(1,4,5) p assms(7,10) obtain m where
    m: "piperead pi dst (int r) t = Ok (int r)
        (wake_st (ChPipeWrite pi) (t\<lparr>pipes := (pipes t)(pi := pp.drops r (pipes t pi)), pmem := m\<rparr>))"
      "\<And>w. user_ok {} (pmem s) pt w \<Longrightarrow> umem m pt w = uput (umem (pmem s) pt) dst (take r ?q) w"
    by auto
  define b where "b = take r ?q"
  have b: "length b = r" "length b \<le> 512" using len assms(8,12) by (auto simp: b_def)
  have "umem m pt (dst + of_nat i) = uput (umem (pmem s) pt) dst b (dst + of_nat i)" if "i < r" for i
    unfolding b_def by (rule m(2)) (use assms(10) that user_ok_mono in blast)
  then have "ubytes m pt dst (length b) = b"
    using b by (intro ubytes_uput) auto
  then have "ubytes m pt dst r = take r ?q" by (simp only: b(1)) (simp only: b_def)
  moreover define u where
    "u = wake_st (ChPipeWrite pi) (t\<lparr>pipes := (pipes t)(pi := pp.drops r (pipes t pi)), pmem := m\<rparr>)"
  have "pmem u = m" "pipes u pi = pp.drops r (pipes t pi)" "calm u"
    using t(3) unfolding u_def by (simp_all add: kframe)
  ultimately show ?thesis
    using w m(1) pp.gets_drops [OF p(1), of r] p(2) unfolding u_def [symmetric]
    by (intro exI [of _ t] exI [of _ u]) (simp only: simp_thms)
qed

text \<open>Process 0 writes two bytes of its page to an empty open pipe and reads them back.\<close>

definition pipe_st :: ktrap where
  "pipe_st = running\<lparr>pipes := (\<lambda>_. zero_pipe)(0x80007000 := zero_pipe\<lparr>pi_readopen := True, pi_writeopen := True\<rparr>)\<rparr>"

theorem pipe_fifo_witness:
  "\<exists>t u. pipewrite 0x80007000 0x1010 2 pipe_st = Ok 2 t \<and> piperead 0x80007000 0x1020 2 t = Ok 2 u \<and>
     ubytes (pmem u) 0x80003000 0x1020 2 = ubytes user_pm 0x80003000 0x1010 2 \<and> pipe_queue (pipes u 0x80007000) = []"
proof -
  have w: "user_ok {2} user_pm 0x80003000 (a + of_nat j)" if "a = 0x1010 \<or> a = 0x1020" "j < 2" for j a
    by (rule user_pm_page(2)) (use that(1) less_2_cases [OF that(2)] in \<open>auto simp: pageno_def\<close>)
  then have r: "user_ok {} user_pm 0x80003000 (a + of_nat j)" if "a = 0x1010 \<or> a = 0x1020" "j < 2" for j a
    using that by (blast intro: user_ok_mono)
  have p: "pipe_ok (pipes pipe_st 0x80007000)" "pipe_queue (pipes pipe_st 0x80007000) = []"
    by (simp_all add: pipe_st_def zero_pipe_def pipe_ok_def pipe_queue_def ring_q_def)
  from pipe_fifo [of pipe_st 0 "0x80003000" "0x80007000" "{0x80003000, 0x80004000, 0x80005000}" 2 "0x1010" 2 "0x1020",
      unfolded p(2)] p(1) user_pm_ok w r
  have "\<exists>t u. pipewrite 0x80007000 0x1010 (int 2) pipe_st = Ok (int 2) t \<and>
     piperead 0x80007000 0x1020 (int 2) t = Ok (int 2) u \<and>
     ubytes (pmem u) 0x80003000 0x1020 2 = take 2 ([] @ ubytes (pmem pipe_st) 0x80003000 0x1010 2) \<and>
     pipe_queue (pipes u 0x80007000) = drop 2 ([] @ ubytes (pmem pipe_st) 0x80003000 0x1010 2)"
    by (simp add: pipe_st_def zero_proc_def kframe) blast
  then show ?thesis by (simp add: pipe_st_def)
qed

end
