(* ===== verification/Bcache.thy ===== *)
theory Bcache
  imports Boot
begin

text \<open>
  The buffer cache of \<^verbatim>\<open>kernel/bio.c\<close> as an abstract data type. The linked list is related to a list of buffer
  numbers in order of last use; on top of it, the cache of one device is described by an abstract state: the
  current contents of every block, the contents of the disk, the reference count of every block, the blocks whose
  cached contents are newer than the disk, and the buffers the running process has locked. Every operation on
  buffers implements an update of that state.
\<close>

section \<open>Frames\<close>

lemma kbio_get [kframe]:
  "bufs (lock_st l s) = bufs s"
  "bufs (wake_st ch s) = bufs s"
  "bufs (slock_st i s) = bufs s"
  "bufs (sunlock_st i s) = bufs s"
  "bufs (set_ena b s) = bufs s"
  "disk (lock_st l s) = disk s"
  "disk (wake_st ch s) = disk s"
  "disk (slock_st i s) = disk s"
  "disk (sunlock_st i s) = disk s"
  "disk (set_ena b s) = disk s"
  "dtrace (lock_st l s) = dtrace s"
  "dtrace (wake_st ch s) = dtrace s"
  "dtrace (slock_st i s) = dtrace s"
  "dtrace (sunlock_st i s) = dtrace s"
  "dtrace (set_ena b s) = dtrace s"
  by (simp_all add: lock_st_def push_st_def wake_st_def slock_st_def sunlock_st_def set_ena_def)

lemma kbio_set [kframe]:
  "(lock_st l s)\<lparr>bufs := v_bufs\<rparr> = lock_st l (s\<lparr>bufs := v_bufs\<rparr>)"
  "(wake_st ch s)\<lparr>bufs := v_bufs\<rparr> = wake_st ch (s\<lparr>bufs := v_bufs\<rparr>)"
  "(lock_st l s)\<lparr>disk := v_disk\<rparr> = lock_st l (s\<lparr>disk := v_disk\<rparr>)"
  "(wake_st ch s)\<lparr>disk := v_disk\<rparr> = wake_st ch (s\<lparr>disk := v_disk\<rparr>)"
  "(lock_st l s)\<lparr>dtrace := v_dtrace\<rparr> = lock_st l (s\<lparr>dtrace := v_dtrace\<rparr>)"
  "(wake_st ch s)\<lparr>dtrace := v_dtrace\<rparr> = wake_st ch (s\<lparr>dtrace := v_dtrace\<rparr>)"
  by (simp_all add: lock_st_def push_st_def wake_st_def curproc_def)

lemma kbio_keep [kframe]:
  "base_ok (s\<lparr>bufs := v_bufs\<rparr>) = base_ok s"
  "lk_free k (s\<lparr>bufs := v_bufs\<rparr>) = lk_free k s"
  "curproc (s\<lparr>bufs := v_bufs\<rparr>) = curproc s"
  "procs_free (s\<lparr>bufs := v_bufs\<rparr>) = procs_free s"
  "calm (s\<lparr>bufs := v_bufs\<rparr>) = calm s"
  "mypid (s\<lparr>bufs := v_bufs\<rparr>) = mypid s"
  "base_ok (s\<lparr>disk := v_disk\<rparr>) = base_ok s"
  "lk_free k (s\<lparr>disk := v_disk\<rparr>) = lk_free k s"
  "curproc (s\<lparr>disk := v_disk\<rparr>) = curproc s"
  "procs_free (s\<lparr>disk := v_disk\<rparr>) = procs_free s"
  "calm (s\<lparr>disk := v_disk\<rparr>) = calm s"
  "mypid (s\<lparr>disk := v_disk\<rparr>) = mypid s"
  "base_ok (s\<lparr>dtrace := v_dtrace\<rparr>) = base_ok s"
  "lk_free k (s\<lparr>dtrace := v_dtrace\<rparr>) = lk_free k s"
  "curproc (s\<lparr>dtrace := v_dtrace\<rparr>) = curproc s"
  "procs_free (s\<lparr>dtrace := v_dtrace\<rparr>) = procs_free s"
  "calm (s\<lparr>dtrace := v_dtrace\<rparr>) = calm s"
  "mypid (s\<lparr>dtrace := v_dtrace\<rparr>) = mypid s"
  by (simp_all add: base_ok_def lk_free_def curproc_def procs_free_def calm_def mypid_def)

lemma buf_access [kstep]:
  "get_buf b s = Ok (bufs s b) s"
  "upd_buf b g s = Ok () (s\<lparr>bufs := (bufs s)(b := g (bufs s b))\<rparr>)"
  by (simp_all add: get_buf_def upd_buf_def kstep)

section \<open>The linked list\<close>

text \<open>\<open>dll nx pv a xs b\<close>: the links lead from \<open>a\<close> through \<open>xs\<close> to \<open>b\<close> and back.\<close>

primrec dll :: "(nat \<Rightarrow> nat) \<Rightarrow> (nat \<Rightarrow> nat) \<Rightarrow> nat \<Rightarrow> nat list \<Rightarrow> nat \<Rightarrow> bool" where
  "dll nx pv a [] b \<longleftrightarrow> nx a = b \<and> pv b = a"
| "dll nx pv a (x # xs) b \<longleftrightarrow> nx a = x \<and> pv x = a \<and> dll nx pv x xs b"

lemma dll_append: "dll nx pv a (xs @ y # ys) b \<longleftrightarrow> dll nx pv a xs y \<and> dll nx pv y ys b"
  by (induction xs arbitrary: a) auto

lemma dll_cong:
  "(\<And>x. x \<in> set (a # xs) \<Longrightarrow> nx x = nx' x) \<Longrightarrow> (\<And>x. x \<in> set (xs @ [b]) \<Longrightarrow> pv x = pv' x) \<Longrightarrow>
   dll nx pv a xs b \<longleftrightarrow> dll nx' pv' a xs b"
  by (induction xs arbitrary: a) auto

text \<open>Removing a node, and inserting one behind the first.\<close>

lemma dll_remove:
  assumes "dll nx pv a (xs @ y # ys) b" and "distinct (xs @ y # ys)" and "a \<notin> set (xs @ y # ys)" "b \<notin> set (xs @ y # ys)"
  shows "dll (nx(pv y := nx y)) (pv(nx y := pv y)) a (xs @ ys) b"
  using assms
proof (induction xs arbitrary: a)
  case Nil
  show ?case
  proof (cases ys)
    case (Cons z zs)
    with Nil have y: "pv y = a" "nx y = z" "dll nx pv z zs b" by auto
    have "dll nx pv z zs b = dll (nx(a := z)) (pv(z := a)) z zs b" by (rule dll_cong) (use Nil Cons in auto)
    with y(3) have d: "dll (nx(a := z)) (pv(z := a)) z zs b" by iprover
    show ?thesis unfolding Cons append_Nil dll.simps y(1,2) by (intro conjI d) simp_all
  qed (use Nil in auto)
next
  case (Cons x xs)
  have d: "dll (nx(pv y := nx y)) (pv(nx y := pv y)) x (xs @ ys) b"
    by (rule Cons.IH) (use Cons.prems in auto)
  have "pv y \<in> insert x (set xs)" "nx y \<in> insert b (set ys)"
    using Cons.prems(1) by (cases xs rule: rev_cases; cases ys; simp add: dll_append)+
  then show ?case unfolding append_Cons dll.simps by (intro conjI d) (use Cons.prems in auto)
qed

lemma dll_insert:
  assumes "dll nx pv a xs b" and "y \<noteq> a" "y \<noteq> b" "y \<notin> set xs" "distinct xs" "a \<notin> set xs" "b \<notin> set xs"
  shows "dll (nx(y := nx a, a := y)) (pv(y := a, nx a := y)) a (y # xs) b"
proof (cases xs)
  case (Cons z zs)
  then have z: "nx a = z" "dll nx pv z zs b" using assms(1) by auto
  have "dll nx pv z zs b = dll (nx(y := z, a := y)) (pv(y := a, z := y)) z zs b"
    by (rule dll_cong) (use assms Cons in auto)
  with z(2) have d: "dll (nx(y := z, a := y)) (pv(y := a, z := y)) z zs b" by iprover
  show ?thesis unfolding Cons dll.simps z(1) by (intro conjI d) (use assms(2-) Cons in auto)
qed (use assms in auto)

abbreviation nx :: "(nat \<Rightarrow> buf) \<Rightarrow> nat \<Rightarrow> nat" where "nx B \<equiv> \<lambda>i. b_next (B i)"
abbreviation pv :: "(nat \<Rightarrow> buf) \<Rightarrow> nat \<Rightarrow> nat" where "pv B \<equiv> \<lambda>i. b_prev (B i)"

text \<open>\<open>lru B l\<close>: the list holds every buffer once, in the order \<open>l\<close>, most recently used first.\<close>

definition lru :: "(nat \<Rightarrow> buf) \<Rightarrow> nat list \<Rightarrow> bool" where
  "lru B l \<longleftrightarrow> dll (nx B) (pv B) bhead l bhead \<and> distinct l \<and> set l = {..<NBUF}"

lemma lruD:
  assumes "lru B l"
  shows "dll (nx B) (pv B) bhead l bhead" "distinct l" "set l = {..<NBUF}" "length l = NBUF" "bhead \<notin> set l"
  using assms distinct_card [of l] by (simp_all add: lru_def)

text \<open>The order depends on the links only.\<close>

lemma lru_links:
  assumes "lru B l" and "\<And>i. i \<le> NBUF \<Longrightarrow> b_next (C i) = b_next (B i) \<and> b_prev (C i) = b_prev (B i)"
  shows "lru C l"
proof -
  have "dll (nx B) (pv B) bhead l bhead = dll (nx C) (pv C) bhead l bhead"
    by (rule dll_cong) (use assms(2) lruD(3) [OF assms(1)] in auto)
  then show ?thesis using assms(1) unfolding lru_def by iprover
qed

text \<open>The scans of \<^verbatim>\<open>bget\<close>: forwards and backwards along the list.\<close>

primrec path :: "(nat \<Rightarrow> nat) \<Rightarrow> nat \<Rightarrow> nat list \<Rightarrow> nat \<Rightarrow> bool" where
  "path f b [] e \<longleftrightarrow> b = e"
| "path f b (x # xs) e \<longleftrightarrow> b = x \<and> path f (f x) xs e"

lemma path_append: "path f b (xs @ ys) e \<longleftrightarrow> (\<exists>m. path f b xs m \<and> path f m ys e)"
  by (induction xs arbitrary: b) auto

lemma dll_paths: "dll f g a xs b \<Longrightarrow> path f (f a) xs b \<and> path g (g b) (rev xs) a"
  by (induction xs arbitrary: a) (auto simp: path_append)

lemma bscan_path:
  assumes "path (\<lambda>i. link (bufs s i)) b xs bhead" and "bhead \<notin> set xs" and "length xs < n"
  shows "bscan link hit n b s = Ok (find (\<lambda>i. hit (bufs s i)) xs) s"
  using assms
proof (induction xs arbitrary: b n)
  case Nil
  then show ?case by (cases n) (auto simp: kstep)
next
  case (Cons x xs)
  then show ?case by (cases n) (auto simp: kstep)
qed

lemma bscan_lru:
  assumes "lru (bufs s) l"
  shows "bscan b_next hit (Suc (Suc NBUF)) (b_next (bufs s bhead)) s = Ok (find (\<lambda>i. hit (bufs s i)) l) s"
    and "bscan b_prev hit (Suc (Suc NBUF)) (b_prev (bufs s bhead)) s = Ok (find (\<lambda>i. hit (bufs s i)) (rev l)) s"
  using dll_paths [OF lruD(1) [OF assms]] lruD(4,5) [OF assms] by - (rule bscan_path; simp)+

text \<open>\<^verbatim>\<open>brelse\<close> moves a buffer to the front and changes nothing but links.\<close>

definition same_but_links :: "buf \<Rightarrow> buf \<Rightarrow> bool" where
  "same_but_links x y \<longleftrightarrow> x\<lparr>b_next := 0, b_prev := 0\<rparr> = y\<lparr>b_next := 0, b_prev := 0\<rparr>"

lemma link_upd:
  "nx (B(k := (B k)\<lparr>b_next := v\<rparr>)) = (nx B)(k := v)" "pv (B(k := (B k)\<lparr>b_prev := v\<rparr>)) = (pv B)(k := v)"
  "pv (B(k := (B k)\<lparr>b_next := v\<rparr>)) = pv B" "nx (B(k := (B k)\<lparr>b_prev := v\<rparr>)) = nx B"
  by auto

lemma same_links_upd:
  "same_but_links ((B(k := (B k)\<lparr>b_next := v\<rparr>)) i) y = same_but_links (B i) y"
  "same_but_links ((B(k := (B k)\<lparr>b_prev := v\<rparr>)) i) y = same_but_links (B i) y"
  by (simp_all add: same_but_links_def)

lemma buf_at:
  "upd_buf k f (s\<lparr>bufs := B\<rparr>) = Ok () (s\<lparr>bufs := B(k := f (B k))\<rparr>)"
  "get_buf k (s\<lparr>bufs := B\<rparr>) = Ok (B k) (s\<lparr>bufs := B\<rparr>)"
  by (simp_all add: kstep)

lemma bmove_lru:
  assumes "lru (bufs s) l" and "b < NBUF"
  shows "\<exists>B. bmove b s = Ok () (s\<lparr>bufs := B\<rparr>) \<and> lru B (b # remove1 b l) \<and> (\<forall>i. same_but_links (B i) (bufs s i))"
proof -
  obtain xs ys where l: "l = xs @ b # ys" using split_list [of b l] assms(2) lruD(3) [OF assms(1)] by auto
  note d = lruD(1,2,5) [OF assms(1)]
  let ?n = "b_next (bufs s b)" and ?p = "b_prev (bufs s b)"
  define X where "X = (nx (bufs s))(?p := ?n)"
  define Y where "Y = (pv (bufs s))(?n := ?p)"
  define B1 where "B1 = (bufs s)(?n := (bufs s ?n)\<lparr>b_prev := ?p\<rparr>)"
  define B2 where "B2 = B1(?p := (B1 ?p)\<lparr>b_next := ?n\<rparr>)"
  define B3 where "B3 = B2(b := (B2 b)\<lparr>b_next := b_next (B2 bhead)\<rparr>)"
  define B4 where "B4 = B3(b := (B3 b)\<lparr>b_prev := bhead\<rparr>)"
  define B5 where "B5 = B4(b_next (B2 bhead) := (B4 (b_next (B2 bhead)))\<lparr>b_prev := b\<rparr>)"
  define B6 where "B6 = B5(bhead := (B5 bhead)\<lparr>b_next := b\<rparr>)"
  have "upd_buf ?n (\<lambda>x. x\<lparr>b_prev := ?p\<rparr>) s = Ok () (s\<lparr>bufs := B1\<rparr>)" by (simp only: buf_access B1_def)
  moreover have "get_buf b s = Ok (bufs s b) s" by (simp only: buf_access)
  ultimately have run: "bmove b s = Ok () (s\<lparr>bufs := B6\<rparr>)"
    unfolding bmove_def thn_def bnd_def
    by (simp only: outcome.case buf_at B2_def B3_def B4_def B5_def B6_def)
  have XY: "dll X Y bhead (xs @ ys) bhead"
    unfolding X_def Y_def by (rule dll_remove) (use d l in auto)
  have "dll (X(b := X bhead, bhead := b)) (Y(b := bhead, X bhead := b)) bhead (b # xs @ ys) bhead"
    by (rule dll_insert [OF XY]) (use d l in auto)
  moreover have B2: "nx B2 = X" "pv B2 = Y"
    unfolding X_def Y_def B2_def B1_def by (simp_all only: link_upd)
  then have "b_next (B2 bhead) = X bhead" by (simp add: fun_eq_iff)
  then have "nx B6 = X(b := X bhead, bhead := b)" "pv B6 = Y(b := bhead, X bhead := b)"
    unfolding B6_def B5_def B4_def B3_def by (simp_all only: link_upd B2)
  ultimately have dll: "dll (nx B6) (pv B6) bhead (b # xs @ ys) bhead" by (simp only:)
  have same: "\<forall>i. same_but_links (B6 i) (bufs s i)"
    unfolding B6_def B5_def B4_def B3_def B2_def B1_def same_links_upd by (simp add: same_but_links_def)
  have l': "b # remove1 b l = b # xs @ ys" using l d(2) by (simp add: remove1_append)
  have "distinct (b # xs @ ys)" "set (b # xs @ ys) = {..<NBUF}" using d(2) lruD(3) [OF assms(1)] unfolding l by auto
  with dll have "lru B6 (b # remove1 b l)" unfolding lru_def l' by iprover
  with run same show ?thesis by iprover
qed

section \<open>The cache of a device as an abstract state\<close>

text \<open>
  The abstract state of a device: the contents \<open>a_dat\<close> of every block as the kernel sees it, the disk and its trace
  of writes, the reference counts, the blocks whose contents have not reached the disk, and the blocks held in
  locked buffers, by buffer number. \<open>strip\<close> is the rest of the kernel's state.
\<close>

record acache =
  a_dat :: "uint \<Rightarrow> uchar list"
  a_disk :: "uint64 \<Rightarrow> uchar list"
  a_trace :: "(uint64 \<times> uchar list) list"
  a_rc :: "uint \<Rightarrow> nat"
  a_dirty :: "uint set"
  a_held :: "nat \<Rightarrow> uint option"

definition no_buf_locks :: "(slockid \<Rightarrow> sleeplock) \<Rightarrow> slockid \<Rightarrow> sleeplock" where
  "no_buf_locks f = (\<lambda>k. case k of SlBuf _ \<Rightarrow> zero_sleeplock | _ \<Rightarrow> f k)"

definition no_states :: "(nat \<Rightarrow> proc) \<Rightarrow> nat \<Rightarrow> proc" where
  "no_states ps = (\<lambda>p. (ps p)\<lparr>p_state := UNUSED\<rparr>)"

definition strip :: "'a kbio_scheme \<Rightarrow> 'a kbio_scheme" where
  "strip s = s\<lparr>bufs := (\<lambda>_. zero_buf), disk := (\<lambda>_. []), dtrace := [],
     slocks := no_buf_locks (slocks s), procs := no_states (procs s)\<rparr>"

text \<open>What the state says of a buffer of the device, of a locked buffer, and of all of them.\<close>

definition buf_view :: "acache \<Rightarrow> buf \<Rightarrow> bool" where
  "buf_view A bf \<longleftrightarrow> b_blockno bf < 2 ^ 31 \<and> unat (b_refcnt bf) = a_rc A (b_blockno bf) \<and>
     (if b_valid bf then b_data bf = a_dat A (b_blockno bf) else b_blockno bf \<notin> a_dirty A)"

definition held_view :: "uint \<Rightarrow> acache \<Rightarrow> 'a kbio_scheme \<Rightarrow> nat \<Rightarrow> uint \<Rightarrow> bool" where
  "held_view dev A s i n \<longleftrightarrow> i < NBUF \<and> b_dev (bufs s i) = dev \<and> b_blockno (bufs s i) = n \<and> b_valid (bufs s i) \<and>
     0 < a_rc A n \<and> sl_pid (slocks s (SlBuf i)) = mypid s"

definition cached :: "uint \<Rightarrow> (nat \<Rightarrow> buf) \<Rightarrow> uint \<Rightarrow> nat \<Rightarrow> bool" where
  "cached dev B n i \<longleftrightarrow> i < NBUF \<and> b_dev (B i) = dev \<and> b_blockno (B i) = n"

definition bufs_view :: "uint \<Rightarrow> acache \<Rightarrow> (nat \<Rightarrow> buf) \<Rightarrow> bool" where
  "bufs_view dev A B \<longleftrightarrow> (\<exists>l. lru B l) \<and>
     (\<forall>n i j. cached dev B n i \<longrightarrow> cached dev B n j \<longrightarrow> i = j) \<and>
     (\<forall>i<NBUF. if b_dev (B i) = dev then buf_view A (B i) else b_refcnt (B i) = 0) \<and>
     (\<forall>n. 0 < a_rc A n \<longrightarrow> (\<exists>i. cached dev B n i))"

definition cview :: "uint \<Rightarrow> acache \<Rightarrow> 'a kbio_scheme \<Rightarrow> 'a kbio_scheme \<Rightarrow> bool" where
  "cview dev A z s \<longleftrightarrow> calm s \<and> dev \<noteq> 0 \<and> bufs_view dev A (bufs s) \<and>
     (\<forall>n\<in>a_dirty A. 0 < a_rc A n \<and> n < 2 ^ 31) \<and>
     (\<forall>n<2 ^ 31. n \<notin> a_dirty A \<longrightarrow> a_disk A (sector n) = a_dat A n) \<and>
     disk s = a_disk A \<and> dtrace s = a_trace A \<and> (\<forall>n. length (a_dat A n) = BSIZE) \<and>
     (\<forall>i<NBUF. sl_locked (slocks s (SlBuf i)) \<longleftrightarrow> a_held A i \<noteq> None) \<and>
     (\<forall>i n. a_held A i = Some n \<longrightarrow> held_view dev A s i n) \<and> strip s = z"

lemma cviewD:
  assumes "cview dev A z s"
  shows "calm s" "dev \<noteq> 0" "bufs_view dev A (bufs s)"
    "n \<in> a_dirty A \<Longrightarrow> 0 < a_rc A n \<and> n < 2 ^ 31"
    "n < 2 ^ 31 \<Longrightarrow> n \<notin> a_dirty A \<Longrightarrow> a_disk A (sector n) = a_dat A n"
    "disk s = a_disk A" "dtrace s = a_trace A" "length (a_dat A n) = BSIZE"
    "i < NBUF \<Longrightarrow> sl_locked (slocks s (SlBuf i)) \<longleftrightarrow> a_held A i \<noteq> None"
    "a_held A i = Some n \<Longrightarrow> held_view dev A s i n" "strip s = z"
  using assms unfolding cview_def by blast+

lemma bufs_viewD:
  assumes "bufs_view dev A B"
  shows "\<exists>l. lru B l" "cached dev B n i \<Longrightarrow> cached dev B n j \<Longrightarrow> i = j"
    "i < NBUF \<Longrightarrow> b_dev (B i) = dev \<Longrightarrow> buf_view A (B i)" "i < NBUF \<Longrightarrow> b_dev (B i) \<noteq> dev \<Longrightarrow> b_refcnt (B i) = 0"
    "0 < a_rc A n \<Longrightarrow> \<exists>i. cached dev B n i"
  using assms unfolding bufs_view_def by auto

text \<open>A free buffer exists as long as fewer than \<^verbatim>\<open>NBUF\<close> blocks are referenced.\<close>

lemma free_buffer:
  assumes "bufs_view dev A B" and "card {n. 0 < a_rc A n} < NBUF"
  shows "\<exists>i<NBUF. b_refcnt (B i) = 0"
proof (rule ccontr)
  assume "\<not> ?thesis"
  then have nz: "b_refcnt (B i) \<noteq> 0" if "i < NBUF" for i using that by blast
  then have dev: "b_dev (B i) = dev" if "i < NBUF" for i using bufs_viewD(4) [OF assms(1)] that by blast
  have "inj_on (\<lambda>i. b_blockno (B i)) {..<NBUF}"
    using bufs_viewD(2) [OF assms(1)] dev by (auto simp: inj_on_def cached_def)
  then have "card ((\<lambda>i. b_blockno (B i)) ` {..<NBUF}) = NBUF" by (simp add: card_image)
  moreover have "(\<lambda>i. b_blockno (B i)) ` {..<NBUF} \<subseteq> {n. 0 < a_rc A n}"
  proof (clarsimp)
    fix i assume "i < NBUF"
    then show "0 < a_rc A (b_blockno (B i))"
      using bufs_viewD(3) [OF assms(1), of i] dev nz by (simp add: buf_view_def) (metis unat_gt_0)
  qed
  ultimately show False using assms(2) card_mono [of "{n. 0 < a_rc A n}"] by (metis finite leD)
qed

text \<open>Updates of the state that leave it a view.\<close>

lemma strip_parts [simp]:
  "no_buf_locks (f(SlBuf b := v)) = no_buf_locks f" "no_states (woken ch me ps ts) = no_states ps"
  by (rule ext, simp add: no_buf_locks_def split: slockid.split) (rule ext, simp add: no_states_def woken_def)

lemma strip_upd [simp]:
  "strip (s\<lparr>bufs := B\<rparr>) = strip s" "strip (s\<lparr>disk := d\<rparr>) = strip s" "strip (s\<lparr>dtrace := tr\<rparr>) = strip s"
  "strip (slock_st (SlBuf b) s) = strip s" "strip (wake_st ch s) = strip s" "strip (sunlock_st (SlBuf b) s) = strip s"
  by (simp_all add: strip_def slock_st_def sunlock_st_def wake_st_def)

lemma find_only: "b \<in> set l \<Longrightarrow> P b \<Longrightarrow> \<forall>i\<in>set l. P i \<longrightarrow> i = b \<Longrightarrow> find P l = Some b"
  by (induction l) fastforce+

lemma lru_keep:
  "\<exists>l. lru B l \<Longrightarrow> (\<And>i. b_next (C i) = b_next (B i) \<and> b_prev (C i) = b_prev (B i)) \<Longrightarrow> \<exists>l. lru C l"
  using lru_links by blast

text \<open>Taking a buffer for a block: one that caches it, or an unused one when none does.\<close>

definition taken :: "uint \<Rightarrow> uint \<Rightarrow> acache \<Rightarrow> buf \<Rightarrow> buf" where
  "taken dev n A bf = bf\<lparr>b_dev := dev, b_blockno := n, b_valid := True, b_refcnt := of_nat (a_rc A n + 1), b_data := a_dat A n\<rparr>"

definition a_take :: "nat \<Rightarrow> uint \<Rightarrow> acache \<Rightarrow> acache" where
  "a_take b n A = A\<lparr>a_rc := (a_rc A)(n := a_rc A n + 1), a_held := (a_held A)(b \<mapsto> n)\<rparr>"

lemma bufs_view_take:
  assumes v: "bufs_view dev A B" and b: "b < NBUF" "cached dev B n b \<or> (\<nexists>i. cached dev B n i) \<and> b_refcnt (B b) = 0"
    and n: "n < 2 ^ 31" "a_rc A n < 2 ^ 32 - 1"
  shows "bufs_view dev (a_take b n A) (B(b := taken dev n A (B b)))"
proof -
  let ?C = "B(b := taken dev n A (B b))"
  have u: "\<not> cached dev B n i" if "i \<noteq> b" for i using b(2) bufs_viewD(2) [OF v] that by blast
  have "\<exists>l. lru ?C l"
    by (rule lru_keep [OF bufs_viewD(1) [OF v]]) (simp add: taken_def)
  moreover have "cached dev ?C m i \<Longrightarrow> cached dev ?C m j \<Longrightarrow> i = j" for m i j
    using u bufs_viewD(2) [OF v, of m i j] by (auto simp: cached_def taken_def split: if_splits)
  moreover have "if b_dev (?C i) = dev then buf_view (a_take b n A) (?C i) else b_refcnt (?C i) = 0" if i: "i < NBUF" for i
  proof (cases "i = b")
    case True
    have "unat (of_nat (a_rc A n + 1) :: uint) = a_rc A n + 1" by (rule unat_of_nat_small) (use n(2) in simp)
    then show ?thesis using True n by (simp add: taken_def buf_view_def a_take_def)
  next
    case False
    then show ?thesis using bufs_viewD(3,4) [OF v i] u [OF False] i by (auto simp: buf_view_def a_take_def cached_def)
  qed
  moreover have "\<exists>i. cached dev ?C m i" if "0 < a_rc (a_take b n A) m" for m
  proof (cases "m = n")
    case True
    then show ?thesis using b(1) by (auto simp: cached_def taken_def)
  next
    case False
    with that obtain i where i: "cached dev B m i" using bufs_viewD(5) [OF v, of m] by (auto simp: a_take_def)
    have "i \<noteq> b"
    proof
      assume "i = b"
      with i False b(2) have "b_refcnt (B b) = 0" by (auto simp: cached_def)
      moreover have "buf_view A (B b)" using bufs_viewD(3) [OF v, of b] i \<open>i = b\<close> by (simp add: cached_def)
      ultimately show False using that False i \<open>i = b\<close> by (simp add: buf_view_def a_take_def cached_def)
    qed
    with i show ?thesis by (auto simp: cached_def)
  qed
  ultimately show ?thesis unfolding bufs_view_def by blast
qed

lemma mypid_strip: "mypid s = mypid (strip s)"
  by (simp add: mypid_def strip_def no_states_def curproc_def)

lemma cview_take:
  assumes v: "cview dev A z s" and b: "b < NBUF" "cached dev (bufs s) n b \<or> (\<nexists>i. cached dev (bufs s) n i) \<and> b_refcnt (bufs s b) = 0"
    and n: "n < 2 ^ 31" "a_rc A n < 2 ^ 32 - 1" "a_held A b = None"
  shows "cview dev (a_take b n A) z (slock_st (SlBuf b) (s\<lparr>bufs := (bufs s)(b := taken dev n A (bufs s b))\<rparr>))"
proof -
  let ?t = "slock_st (SlBuf b) (s\<lparr>bufs := (bufs s)(b := taken dev n A (bufs s b))\<rparr>)"
  have "bufs_view dev (a_take b n A) (bufs ?t)"
    using bufs_view_take [OF cviewD(3) [OF v] b n(1,2)] by (simp add: kframe)
  moreover have "held_view dev (a_take b n A) ?t i m" if "a_held (a_take b n A) i = Some m" for i m
  proof (cases "i = b")
    case True
    then show ?thesis using that b(1) by (simp add: held_view_def a_take_def taken_def kframe)
  next
    case False
    then have "held_view dev A s i m" using cviewD(10) [OF v] that by (simp add: a_take_def)
    then show ?thesis using False by (auto simp: held_view_def a_take_def kframe)
  qed
  moreover have "sl_locked (slocks ?t (SlBuf i)) \<longleftrightarrow> a_held (a_take b n A) i \<noteq> None" if "i < NBUF" for i
    using cviewD(9) [OF v that] by (cases "i = b") (simp_all add: a_take_def kframe)
  ultimately show ?thesis
    using cviewD(1,2,4-8,11) [OF v] unfolding cview_def by (simp add: a_take_def kframe)
qed

lemma bget_take:
  assumes v: "cview dev A z s" and n: "n < 2 ^ 31" "a_rc A n < 2 ^ 32 - 1" "n \<notin> ran (a_held A)"
    and room: "0 < a_rc A n \<or> card {n. 0 < a_rc A n} < NBUF"
  shows "\<exists>b bf. bget dev n s = Ok b (slock_st (SlBuf b) (s\<lparr>bufs := (bufs s)(b := bf)\<rparr>)) \<and> b < NBUF \<and> a_held A b = None \<and>
    (cached dev (bufs s) n b \<or> (\<nexists>i. cached dev (bufs s) n i) \<and> b_refcnt (bufs s b) = 0) \<and>
    bf\<lparr>b_valid := True, b_data := a_dat A n\<rparr> = taken dev n A (bufs s b) \<and>
    (b_valid bf \<longrightarrow> b_data bf = a_dat A n) \<and> (\<not> b_valid bf \<longrightarrow> n \<notin> a_dirty A)"
proof -
  note c = calmD(1-4) [OF cviewD(1) [OF v]]
  note bv = bufs_viewD [OF cviewD(3) [OF v]]
  obtain l where l: "lru (bufs s) l" using bv(1) by blast
  note sc = bscan_lru [of "lock_st LkBcache s" l, unfolded kbio_get, OF l]
  show ?thesis
  proof (cases "\<exists>b. cached dev (bufs s) n b")
    case True
    then obtain b where b: "cached dev (bufs s) n b" by blast
    have f: "find (\<lambda>i. b_dev (bufs s i) = dev \<and> b_blockno (bufs s i) = n) l = Some b"
      by (rule find_only) (use b bv(2) lruD(3) [OF l] in \<open>auto simp: cached_def\<close>)
    have w: "buf_view A (bufs s b)" "b < NBUF" using b bv(3) by (auto simp: cached_def)
    have h: "a_held A b = None"
      using cviewD(10) [OF v, of b] b n(3) by (cases "a_held A b") (auto simp: held_view_def cached_def ran_def)
    then have nl: "\<not> sl_locked (slocks s (SlBuf b))" using cviewD(9) [OF v w(2)] by simp
    let ?bf = "(bufs s b)\<lparr>b_refcnt := b_refcnt (bufs s b) + 1\<rparr>"
    have run: "bget dev n s = Ok b (slock_st (SlBuf b) (s\<lparr>bufs := (bufs s)(b := ?bf)\<rparr>))"
      using c nl sc(1) f cviewD(1) [OF v] by (simp add: bget_def kstep kframe)
    have "of_nat (a_rc A n) = b_refcnt (bufs s b)"
      using w(1) b n(2) eq_of_nat_iff [of "a_rc A n" "b_refcnt (bufs s b)"] by (auto simp: buf_view_def cached_def)
    then have "?bf\<lparr>b_valid := True, b_data := a_dat A n\<rparr> = taken dev n A (bufs s b)"
      using b by (simp add: taken_def cached_def)
    with run h b w show ?thesis by (intro exI [of _ b] exI [of _ ?bf]) (auto simp: buf_view_def cached_def split: if_splits)
  next
    case False
    have f: "find (\<lambda>i. b_dev (bufs s i) = dev \<and> b_blockno (bufs s i) = n) l = None"
      using False lruD(3) [OF l] by (auto simp: find_None_iff cached_def)
    have rc: "a_rc A n = 0" using False bv(5) by blast
    with room obtain i where i: "i < NBUF" "b_refcnt (bufs s i) = 0" using free_buffer [OF cviewD(3) [OF v]] by auto
    then obtain b where g: "find (\<lambda>i. b_refcnt (bufs s i) = 0) (rev l) = Some b"
      using lruD(3) [OF l] by (cases "find (\<lambda>i. b_refcnt (bufs s i) = 0) (rev l)") (auto simp: find_None_iff)
    then have b: "b < NBUF" "b_refcnt (bufs s b) = 0" using lruD(3) [OF l] by (auto simp: find_Some_iff)
        (metis lessThan_iff nth_mem set_rev length_rev)
    have h: "a_held A b = None"
    proof (cases "a_held A b")
      case (Some m)
      then have "held_view dev A s b m" by (rule cviewD(10) [OF v])
      then show ?thesis using bv(3) [of b] b by (simp add: held_view_def buf_view_def)
    qed
    then have nl: "\<not> sl_locked (slocks s (SlBuf b))" using cviewD(9) [OF v b(1)] by simp
    let ?bf = "(bufs s b)\<lparr>b_dev := dev, b_blockno := n, b_valid := False, b_refcnt := 1\<rparr>"
    have run: "bget dev n s = Ok b (slock_st (SlBuf b) (s\<lparr>bufs := (bufs s)(b := ?bf)\<rparr>))"
      using c nl sc f g cviewD(1) [OF v] by (simp add: bget_def kstep kframe)
    moreover have "n \<notin> a_dirty A" using cviewD(4) [OF v, of n] rc by auto
    ultimately show ?thesis using h b False rc by (intro exI [of _ b] exI [of _ ?bf]) (simp add: taken_def)
  qed
qed

lemma slock_bufs [kframe]: "(slock_st i s)\<lparr>bufs := B\<rparr> = slock_st i (s\<lparr>bufs := B\<rparr>)"
  by (simp add: slock_st_def kframe)

text \<open>
  The operations on buffers as updates of the abstract state. \<^verbatim>\<open>bread\<close> locks a buffer with the contents of the block,
  provided the caller does not have it locked and there is a buffer to put it in.
\<close>

lemma bread_view:
  assumes v: "cview dev A z s" and n: "n < 2 ^ 31" "a_rc A n < 2 ^ 32 - 1" "n \<notin> ran (a_held A)"
    and room: "0 < a_rc A n \<or> card {n. 0 < a_rc A n} < NBUF"
  shows "\<exists>b t. bread dev n s = Ok b t \<and> a_held A b = None \<and> cview dev (a_take b n A) z t"
proof -
  obtain b bf where b: "bget dev n s = Ok b (slock_st (SlBuf b) (s\<lparr>bufs := (bufs s)(b := bf)\<rparr>))" "b < NBUF" "a_held A b = None"
      "cached dev (bufs s) n b \<or> (\<nexists>i. cached dev (bufs s) n i) \<and> b_refcnt (bufs s b) = 0"
      "bf\<lparr>b_valid := True, b_data := a_dat A n\<rparr> = taken dev n A (bufs s b)"
      "b_valid bf \<Longrightarrow> b_data bf = a_dat A n" "\<not> b_valid bf \<Longrightarrow> n \<notin> a_dirty A"
    using bget_take [OF v n room] by blast
  have bn: "b_blockno bf = n" using arg_cong [OF b(5), of b_blockno] by (simp add: taken_def)
  have "bread dev n s = Ok b (slock_st (SlBuf b) (s\<lparr>bufs := (bufs s)(b := bf\<lparr>b_valid := True, b_data := a_dat A n\<rparr>)\<rparr>))"
  proof (cases "b_valid bf")
    case True
    then have "bf\<lparr>b_valid := True, b_data := a_dat A n\<rparr> = bf" using b(6) by simp
    then show ?thesis using True b(1) by (simp add: bread_def kstep kframe)
  next
    case False
    then have "disk s (sector n) = a_dat A n" using b(7) cviewD(5,6) [OF v] n(1) by simp
    moreover have sw: "bf\<lparr>b_data := d, b_valid := True\<rparr> = bf\<lparr>b_valid := True, b_data := d\<rparr>" for d by simp
    ultimately show ?thesis using False b(1) bn by (simp add: bread_def disk_rw_def kstep kframe sw)
  qed
  then show ?thesis
    using cview_take [OF v b(2,4) n(1,2) b(3)] b(3,5) by auto
qed

text \<open>The contents of a held buffer are those of its block.\<close>

lemma held_buf:
  assumes "cview dev A z s" and "a_held A b = Some n"
  shows "b < NBUF" "cached dev (bufs s) n b" "b_data (bufs s b) = a_dat A n" "b_blockno (bufs s b) = n" "n < 2 ^ 31"
    "b_valid (bufs s b)" "sl_locked (slocks s (SlBuf b))" "sl_pid (slocks s (SlBuf b)) = mypid s" "unat (b_refcnt (bufs s b)) = a_rc A n"
    "length (b_data (bufs s b)) = BSIZE"
proof -
  have h: "held_view dev A s b n" by (rule cviewD(10) [OF assms])
  then have "buf_view A (bufs s b)" using bufs_viewD(3) [OF cviewD(3) [OF assms(1)]] by (simp add: held_view_def)
  with h show "b < NBUF" "cached dev (bufs s) n b" "b_data (bufs s b) = a_dat A n" "b_blockno (bufs s b) = n" "n < 2 ^ 31"
    "b_valid (bufs s b)" "sl_pid (slocks s (SlBuf b)) = mypid s" "unat (b_refcnt (bufs s b)) = a_rc A n"
    "length (b_data (bufs s b)) = BSIZE" "sl_locked (slocks s (SlBuf b))"
    using cviewD(8,9) [OF assms(1)] assms(2) by (auto simp: held_view_def buf_view_def cached_def)
qed

lemma get_bytes_view:
  "cview dev A z s \<Longrightarrow> a_held A b = Some n \<Longrightarrow> o' + k \<le> BSIZE \<Longrightarrow>
   get_bytes b o' k s = Ok (take k (drop o' (a_dat A n))) s"
  using cviewD(8) [of dev A z s n] by (simp add: get_bytes_def kstep held_buf)

lemma bufs_view_upd:
  assumes v: "bufs_view dev A B" and b: "cached dev B n b" and bf: "b_dev bf = dev" "b_blockno bf = n" "b_next bf = b_next (B b)" "b_prev bf = b_prev (B b)"
    and A: "buf_view A' bf" "\<forall>m. m \<noteq> n \<longrightarrow> a_rc A' m = a_rc A m \<and> a_dat A' m = a_dat A m \<and> (m \<in> a_dirty A' \<longleftrightarrow> m \<in> a_dirty A)"
  shows "bufs_view dev A' (B(b := bf))"
proof -
  have c: "cached dev (B(b := bf)) m i = cached dev B m i" for m i using b bf by (auto simp: cached_def)
  have "\<exists>l. lru (B(b := bf)) l" by (rule lru_keep [OF bufs_viewD(1) [OF v]]) (simp add: bf)
  moreover have "if b_dev ((B(b := bf)) i) = dev then buf_view A' ((B(b := bf)) i) else b_refcnt ((B(b := bf)) i) = 0" if i: "i < NBUF" for i
  proof (cases "i = b")
    case False
    then have "b_dev (B i) = dev \<Longrightarrow> b_blockno (B i) \<noteq> n" using bufs_viewD(2) [OF v b, of i] i by (auto simp: cached_def)
    then show ?thesis using False bufs_viewD(3,4) [OF v i] A(2) by (auto simp: buf_view_def)
  qed (use A(1) bf in simp)
  moreover have "\<exists>i. cached dev (B(b := bf)) m i" if "0 < a_rc A' m" for m
    unfolding c using that bufs_viewD(5) [OF v, of m] b A(2) by (cases "m = n") auto
  ultimately show ?thesis using bufs_viewD(2) [OF v] unfolding bufs_view_def c by blast
qed

text \<open>Changing a held buffer: the rest of the view stays.\<close>

lemma cview_upd:
  assumes v: "cview dev A z s" and b: "a_held A b = Some n"
    and bf: "b_dev bf = dev" "b_blockno bf = n" "b_next bf = b_next (bufs s b)" "b_prev bf = b_prev (bufs s b)" "b_valid bf"
    and A: "buf_view A' bf" "\<forall>m. m \<noteq> n \<longrightarrow> a_rc A' m = a_rc A m \<and> a_dat A' m = a_dat A m \<and> (m \<in> a_dirty A' \<longleftrightarrow> m \<in> a_dirty A)"
      "a_held A' = a_held A" "a_disk A' = a_disk A" "a_trace A' = a_trace A" "0 < a_rc A' n" "length (a_dat A' n) = BSIZE"
      "n \<notin> a_dirty A' \<Longrightarrow> n \<notin> a_dirty A \<and> a_dat A' n = a_dat A n"
  shows "cview dev A' z (s\<lparr>bufs := (bufs s)(b := bf)\<rparr>)"
proof -
  let ?t = "s\<lparr>bufs := (bufs s)(b := bf)\<rparr>"
  note h = held_buf [OF v b]
  have "bufs_view dev A' (bufs ?t)" using bufs_view_upd [OF cviewD(3) [OF v] h(2) bf(1-4) A(1,2)] by simp
  moreover have "held_view dev A' ?t i m" if "a_held A' i = Some m" for i m
    using cviewD(10) [OF v, of i m] that A(2,3,6) h(2) bf by (cases "m = n") (auto simp: held_view_def kframe cached_def)
  moreover have "\<forall>m\<in>a_dirty A'. 0 < a_rc A' m \<and> m < 2 ^ 31"
  proof
    fix m assume "m \<in> a_dirty A'"
    then show "0 < a_rc A' m \<and> m < 2 ^ 31" using A(2,6) cviewD(4) [OF v, of m] h(5) by (cases "m = n") auto
  qed
  moreover have "\<forall>m<2 ^ 31. m \<notin> a_dirty A' \<longrightarrow> a_disk A' (sector m) = a_dat A' m"
  proof (intro allI impI)
    fix m :: uint assume "m < 2 ^ 31" "m \<notin> a_dirty A'"
    then show "a_disk A' (sector m) = a_dat A' m" using A(2,4,8) cviewD(5) [OF v, of m] by (cases "m = n") auto
  qed
  moreover have "length (a_dat A' m) = BSIZE" for m using cviewD(8) [OF v, of m] A(2,7) by (cases "m = n") auto
  ultimately show ?thesis
    unfolding cview_def using cviewD(1,2,6,7,9,11) [OF v] A(3-5) by (simp add: kframe)
qed

definition a_put :: "uint \<Rightarrow> nat \<Rightarrow> uchar list \<Rightarrow> acache \<Rightarrow> acache" where
  "a_put n o' bs A = A\<lparr>a_dat := (a_dat A)(n := splice (a_dat A n) o' bs), a_dirty := insert n (a_dirty A)\<rparr>"

lemma put_bytes_view:
  assumes "cview dev A z s" "a_held A b = Some n" "o' + length bs \<le> BSIZE"
  shows "\<exists>t. put_bytes b o' bs s = Ok () t \<and> cview dev (a_put n o' bs A) z t"
proof -
  note h = held_buf [OF assms(1,2)]
  have l: "length (splice (a_dat A n) o' bs) = BSIZE" using cviewD(8) [OF assms(1)] assms(3) by (simp add: splice_def)
  let ?bf = "(bufs s b)\<lparr>b_data := splice (a_dat A n) o' bs\<rparr>"
  have "cview dev (a_put n o' bs A) z (s\<lparr>bufs := (bufs s)(b := ?bf)\<rparr>)"
  proof (rule cview_upd [OF assms(1,2)])
    show "0 < a_rc (a_put n o' bs A) n" using cviewD(10) [OF assms(1,2)] by (simp add: held_view_def a_put_def)
  qed (use h l in \<open>simp_all add: a_put_def buf_view_def cached_def\<close>)
  moreover have "put_bytes b o' bs s = Ok () (s\<lparr>bufs := (bufs s)(b := ?bf)\<rparr>)"
    using assms(3) h(3,10) by (simp add: put_bytes_def kstep)
  ultimately show ?thesis by blast
qed

text \<open>\<^verbatim>\<open>bpin\<close> and \<^verbatim>\<open>bunpin\<close> on a held buffer. The caller's own reference keeps the count from reaching zero.\<close>

definition a_ref :: "uint \<Rightarrow> nat \<Rightarrow> acache \<Rightarrow> acache" where
  "a_ref n k A = A\<lparr>a_rc := (a_rc A)(n := k)\<rparr>"

lemma ref_view:
  assumes "cview dev A z s" "a_held A b = Some n" "0 < k" "k < 2 ^ 32"
  shows "cview dev (a_ref n k A) z (s\<lparr>bufs := (bufs s)(b := (bufs s b)\<lparr>b_refcnt := of_nat k\<rparr>)\<rparr>)"
proof (rule cview_upd [OF assms(1,2)])
  show "buf_view (a_ref n k A) ((bufs s b)\<lparr>b_refcnt := of_nat k\<rparr>)"
    using held_buf [OF assms(1,2)] assms(3,4) unat_of_nat_small [of k, where 'a = 32] by (simp add: buf_view_def a_ref_def)
qed (use held_buf [OF assms(1,2)] assms(3) cviewD(8) [OF assms(1)] in \<open>simp_all add: a_ref_def cached_def\<close>)

lemma refcnt_of_nat:
  assumes "cview dev A z s" "a_held A b = Some n"
  shows "b_refcnt (bufs s b) = of_nat (a_rc A n)"
  using held_buf(9) [OF assms] eq_of_nat_iff [of "a_rc A n" "b_refcnt (bufs s b)"] unat_lt2p [of "b_refcnt (bufs s b)"] by simp

lemma bpin_view:
  assumes "cview dev A z s" "a_held A b = Some n" "a_rc A n < 2 ^ 32 - 1"
  shows "\<exists>t. bpin b s = Ok () t \<and> cview dev (a_ref n (a_rc A n + 1) A) z t"
proof -
  have "bpin b s = Ok () (s\<lparr>bufs := (bufs s)(b := (bufs s b)\<lparr>b_refcnt := of_nat (a_rc A n + 1)\<rparr>)\<rparr>)"
    using calmD(1,3) [OF cviewD(1) [OF assms(1)]] refcnt_of_nat [OF assms(1,2)]
    by (simp add: bpin_def kstep kframe add.commute)
  with ref_view [OF assms(1,2), of "a_rc A n + 1"] assms(3) show ?thesis by auto
qed

lemma bunpin_view:
  assumes "cview dev A z s" "a_held A b = Some n" "1 < a_rc A n"
  shows "\<exists>t. bunpin b s = Ok () t \<and> cview dev (a_ref n (a_rc A n - 1) A) z t"
proof -
  have "bunpin b s = Ok () (s\<lparr>bufs := (bufs s)(b := (bufs s b)\<lparr>b_refcnt := of_nat (a_rc A n - 1)\<rparr>)\<rparr>)"
    using calmD(1,3) [OF cviewD(1) [OF assms(1)]] refcnt_of_nat [OF assms(1,2)] assms(3)
    by (simp add: bunpin_def kstep kframe of_nat_diff)
  moreover have "a_rc A n < 2 ^ 32" using held_buf(9) [OF assms(1,2)] unat_lt2p [of "b_refcnt (bufs s b)"] by simp
  ultimately show ?thesis using ref_view [OF assms(1,2), of "a_rc A n - 1"] assms(3) by auto
qed

text \<open>Writing a held buffer to the disk. Blocks below \<open>2 ^ 31\<close> have sectors of their own.\<close>

lemma sector_inj: "n < 2 ^ 31 \<Longrightarrow> m < 2 ^ 31 \<Longrightarrow> sector n = sector m \<Longrightarrow> n = m"
proof -
  assume nm: "n < 2 ^ 31" "m < 2 ^ 31" and eq: "sector n = sector m"
  have u: "unat (sector k) = 2 * unat k" if "k < 2 ^ 31" for k :: uint
  proof -
    have k: "unat k < 2 ^ 31" using that by (simp add: word_less_nat_alt)
    then have "unat (k * 2) = unat k * 2" by (simp add: unat_word_ariths)
    then show ?thesis using k by (simp add: sector_def BSIZE_def unsigned_ucast_eq take_bit_eq_mod)
  qed
  show "n = m" using arg_cong [OF eq, of unat] u [OF nm(1)] u [OF nm(2)] by (simp add: word_unat_eq_iff)
qed

definition a_flush :: "uint \<Rightarrow> acache \<Rightarrow> acache" where
  "a_flush n A = A\<lparr>a_disk := (a_disk A)(sector n := a_dat A n), a_trace := a_trace A @ [(sector n, a_dat A n)],
     a_dirty := a_dirty A - {n}\<rparr>"

lemma bwrite_view:
  assumes "cview dev A z s" "a_held A b = Some n"
  shows "\<exists>t. bwrite b s = Ok () t \<and> cview dev (a_flush n A) z t"
proof -
  note h = held_buf [OF assms] and v = cviewD [OF assms(1)]
  let ?t = "s\<lparr>disk := (disk s)(sector n := a_dat A n), dtrace := dtrace s @ [(sector n, a_dat A n)]\<rparr>"
  have "bwrite b s = Ok () ?t"
    using h(3,4,7,8) v(1) by (simp add: bwrite_def disk_rw_def kstep)
  moreover have "bufs_view dev (a_flush n A) (bufs s)"
    using v(3) by (auto simp: bufs_view_def buf_view_def a_flush_def split: if_splits)
  moreover have "\<forall>m<2 ^ 31. m \<notin> a_dirty (a_flush n A) \<longrightarrow> a_disk (a_flush n A) (sector m) = a_dat (a_flush n A) m"
  proof (intro allI impI)
    fix m :: uint assume "m < 2 ^ 31" "m \<notin> a_dirty (a_flush n A)"
    then show "a_disk (a_flush n A) (sector m) = a_dat (a_flush n A) m"
      using v(5) [of m] sector_inj [OF h(5), of m] by (cases "m = n") (auto simp: a_flush_def)
  qed
  moreover have "held_view dev (a_flush n A) ?t i m" if "a_held (a_flush n A) i = Some m" for i m
    using v(10) that by (simp add: held_view_def a_flush_def kframe)
  ultimately have "cview dev (a_flush n A) z ?t"
    unfolding cview_def using v(1,2,4,6-9,11) by (simp add: kframe a_flush_def)
  with \<open>bwrite b s = Ok () ?t\<close> show ?thesis by blast
qed

text \<open>Releasing a buffer. The last reference to a block must not be dropped while its contents are only in memory.\<close>

definition a_drop :: "nat \<Rightarrow> uint \<Rightarrow> acache \<Rightarrow> acache" where
  "a_drop b n A = A\<lparr>a_rc := (a_rc A)(n := a_rc A n - 1), a_held := (a_held A)(b := None)\<rparr>"

lemma same_linksD:
  assumes "same_but_links x y"
  shows "b_dev x = b_dev y" "b_blockno x = b_blockno y" "b_refcnt x = b_refcnt y" "b_valid x = b_valid y" "b_data x = b_data y"
proof -
  note q = assms [unfolded same_but_links_def]
  show "b_dev x = b_dev y" "b_blockno x = b_blockno y" "b_refcnt x = b_refcnt y" "b_valid x = b_valid y" "b_data x = b_data y"
    using arg_cong [OF q, of b_dev] arg_cong [OF q, of b_blockno] arg_cong [OF q, of b_refcnt] arg_cong [OF q, of b_valid]
      arg_cong [OF q, of b_data] by simp_all
qed

lemma bufs_view_links:
  assumes "bufs_view dev A B" and "lru C l" and "\<forall>i. same_but_links (C i) (B i)"
  shows "bufs_view dev A C"
proof -
  note e = same_linksD [OF assms(3) [rule_format]]
  show ?thesis using assms(1,2) unfolding bufs_view_def cached_def buf_view_def e by blast
qed

lemma sunlock_bufs [kframe]: "(sunlock_st i s)\<lparr>bufs := B\<rparr> = sunlock_st i (s\<lparr>bufs := B\<rparr>)"
  unfolding sunlock_st_def kbio_set by (rule arg_cong [where f = "wake_st _"]) simp

lemma sunlock_keep [kframe]:
  "base_ok (sunlock_st i s) = base_ok s" "lk_free k (sunlock_st i s) = lk_free k s" "procs_free (sunlock_st i s) = procs_free s"
  by (simp_all add: sunlock_st_def kframe)

lemma brelse_calm:
  assumes c: "calm s" and l: "\<exists>l. lru (bufs s) l" and b: "b < NBUF" "sl_locked (slocks s (SlBuf b))" "sl_pid (slocks s (SlBuf b)) = mypid s"
  shows "\<exists>B. brelse b s = Ok () (sunlock_st (SlBuf b) (s\<lparr>bufs := B\<rparr>)) \<and> (\<exists>l. lru B l) \<and>
    (\<forall>i. same_but_links (B i) (((bufs s)(b := (bufs s b)\<lparr>b_refcnt := b_refcnt (bufs s b) - 1\<rparr>)) i))"
proof -
  let ?bf = "(bufs s b)\<lparr>b_refcnt := b_refcnt (bufs s b) - 1\<rparr>"
  let ?s1 = "s\<lparr>bufs := (bufs s)(b := ?bf)\<rparr>"
  have "\<exists>l. lru (bufs ?s1) l" by (rule lru_keep [OF l]) simp
  then obtain l where l: "lru (bufs ?s1) l" ..
  note cs = calmD(1-4) [OF c]
  show ?thesis
  proof (cases "b_refcnt (bufs s b) - 1 = 0")
    case False
    then have "brelse b s = Ok () (sunlock_st (SlBuf b) ?s1)"
      using c b cs by (simp add: brelse_def kstep kframe)
    with l show ?thesis by (intro exI [of _ "bufs ?s1"]) (auto simp: same_but_links_def)
  next
    case True
    let ?t = "lock_st LkBcache (sunlock_st (SlBuf b) ?s1)"
    have "lru (bufs ?t) l" using l by (simp add: kframe)
    from bmove_lru [OF this b(1)] obtain B where B: "bmove b ?t = Ok () (?t\<lparr>bufs := B\<rparr>)" "lru B (b # remove1 b l)"
      "\<forall>i. same_but_links (B i) (bufs ?s1 i)" by (auto simp: kframe)
    have "brelse b s = Ok () (sunlock_st (SlBuf b) (s\<lparr>bufs := B\<rparr>))"
      using c b cs B(1) True by (simp add: brelse_def kstep kframe)
    moreover have "bufs ?s1 = (bufs s)(b := ?bf)" by simp
    ultimately show ?thesis using B(2,3) by (intro exI [of _ B]) auto
  qed
qed

lemma brelse_bufs:
  assumes v: "cview dev A z s" and b: "a_held A b = Some n"
  shows "\<exists>B. brelse b s = Ok () (sunlock_st (SlBuf b) (s\<lparr>bufs := B\<rparr>)) \<and> (\<exists>l. lru B l) \<and>
    (\<forall>i. same_but_links (B i) (((bufs s)(b := (bufs s b)\<lparr>b_refcnt := of_nat (a_rc A n - 1)\<rparr>)) i))"
proof -
  note h = held_buf [OF v b]
  have "0 < a_rc A n" using cviewD(10) [OF v b] by (simp add: held_view_def)
  then have "b_refcnt (bufs s b) - 1 = of_nat (a_rc A n - 1)" using refcnt_of_nat [OF v b] by (simp add: of_nat_diff)
  with brelse_calm [OF cviewD(1) [OF v] bufs_viewD(1) [OF cviewD(3) [OF v]] h(1,7,8)] show ?thesis by simp
qed

lemma brelse_view:
  assumes v: "cview dev A z s" and b: "a_held A b = Some n" and d: "n \<in> a_dirty A \<Longrightarrow> 1 < a_rc A n"
  shows "\<exists>t. brelse b s = Ok () t \<and> cview dev (a_drop b n A) z t"
proof -
  note h = held_buf [OF v b] and w = cviewD [OF v]
  let ?bf = "(bufs s b)\<lparr>b_refcnt := of_nat (a_rc A n - 1)\<rparr>" and ?A = "a_drop b n A"
  obtain B l where B: "brelse b s = Ok () (sunlock_st (SlBuf b) (s\<lparr>bufs := B\<rparr>))" "lru B l"
    "\<forall>i. same_but_links (B i) (((bufs s)(b := ?bf)) i)" using brelse_bufs [OF v b] by blast
  let ?t = "sunlock_st (SlBuf b) (s\<lparr>bufs := B\<rparr>)"
  have rc: "0 < a_rc A n" "a_rc A n - 1 < 2 ^ LENGTH(32)" using w(10) [OF b] h(9) unat_lt2p [of "b_refcnt (bufs s b)"]
    by (simp_all add: held_view_def)
  have "buf_view ?A ?bf" using h unat_of_nat_small [OF rc(2)] by (simp add: buf_view_def a_drop_def)
  then have "bufs_view dev ?A ((bufs s)(b := ?bf))"
    using h(2) by (intro bufs_view_upd [OF w(3) h(2)]) (auto simp: a_drop_def cached_def)
  then have bv: "bufs_view dev ?A B" by (rule bufs_view_links [OF _ B(2,3)])
  have ne: "m \<noteq> n" if "a_held A i = Some m" "i \<noteq> b" for i m
    using that bufs_viewD(2) [OF w(3) h(2), of i] held_buf(2) [OF v that(1)] by auto
  have same: "b_dev (B i) = b_dev (bufs s i)" "b_blockno (B i) = b_blockno (bufs s i)" "b_valid (B i) = b_valid (bufs s i)"
    if "i \<noteq> b" for i
    using same_linksD [OF B(3) [rule_format, of i]] that by simp_all
  have "held_view dev ?A ?t i m" if "a_held ?A i = Some m" for i m
  proof -
    have i: "i \<noteq> b" "a_held A i = Some m" using that by (auto simp: a_drop_def split: if_splits)
    then show ?thesis using w(10) [OF i(2)] ne [OF i(2,1)] same [OF i(1)] by (simp add: held_view_def a_drop_def kframe)
  qed
  moreover have "sl_locked (slocks ?t (SlBuf i)) \<longleftrightarrow> a_held ?A i \<noteq> None" if "i < NBUF" for i
    using w(9) [OF that] by (cases "i = b") (simp_all add: a_drop_def kframe)
  moreover have "\<forall>m\<in>a_dirty ?A. 0 < a_rc ?A m \<and> m < 2 ^ 31"
    using w(4) d by (auto simp: a_drop_def)
  ultimately have "cview dev ?A z ?t"
    unfolding cview_def using w(1,2,5-8,11) bv by (simp add: a_drop_def kframe)
  with B(1) show ?thesis by blast
qed

section \<open>Initialisation\<close>

lemma initsleeplock_bufs:
  "\<exists>L. initsleeplock i name s = Ok () (s\<lparr>locks := L, slocks := (slocks s)(i := \<lparr>sl_locked = False, sl_name = name, sl_pid = 0\<rparr>)\<rparr>)"
  by (auto simp: initsleeplock_def initlock_def upd_lock_def kstep)

lemma binit1_lru:
  assumes "dll (nx (bufs s)) (pv (bufs s)) bhead l bhead" and "distinct l" "set l = {..<b}" "b < NBUF"
  shows "\<exists>B L. binit1 b s = Ok () (s\<lparr>bufs := B, locks := L,
      slocks := (slocks s)(SlBuf b := \<lparr>sl_locked = False, sl_name = ''buffer'', sl_pid = 0\<rparr>)\<rparr>) \<and>
    dll (nx B) (pv B) bhead (b # l) bhead \<and> (\<forall>i. same_but_links (B i) (bufs s i))"
proof -
  let ?h = "b_next (bufs s bhead)" and ?K = "(slocks s)(SlBuf b := \<lparr>sl_locked = False, sl_name = ''buffer'', sl_pid = 0\<rparr>)"
  define B1 where "B1 = (bufs s)(b := (bufs s b)\<lparr>b_next := ?h\<rparr>)"
  define B2 where "B2 = B1(b := (B1 b)\<lparr>b_prev := bhead\<rparr>)"
  define B3 where "B3 = B2(?h := (B2 ?h)\<lparr>b_prev := b\<rparr>)"
  define B4 where "B4 = B3(bhead := (B3 bhead)\<lparr>b_next := b\<rparr>)"
  have links: "nx B4 = (nx (bufs s))(b := ?h, bhead := b)" "pv B4 = (pv (bufs s))(b := bhead, ?h := b)"
    unfolding B4_def B3_def B2_def B1_def by (simp_all only: link_upd)
  have "dll (nx B4) (pv B4) bhead (b # l) bhead"
    unfolding links by (rule dll_insert) (use assms in auto)
  moreover have "\<forall>i. same_but_links (B4 i) (bufs s i)"
    unfolding B4_def B3_def B2_def B1_def same_links_upd by (simp add: same_but_links_def)
  moreover obtain L where "binit1 b s = Ok () (s\<lparr>bufs := B4, locks := L, slocks := ?K\<rparr>)"
  proof -
    obtain L where L: "initsleeplock (SlBuf b) ''buffer'' (s\<lparr>bufs := B2\<rparr>) = Ok () (s\<lparr>bufs := B2, locks := L, slocks := ?K\<rparr>)"
      using initsleeplock_bufs [of "SlBuf b" "''buffer''" "s\<lparr>bufs := B2\<rparr>"] by auto
    define u where "u = s\<lparr>locks := L, slocks := ?K\<rparr>"
    have c: "s\<lparr>bufs := B, locks := L, slocks := ?K\<rparr> = u\<lparr>bufs := B\<rparr>" for B by (simp add: u_def)
    have g: "get_buf bhead s = Ok (bufs s bhead) s" "upd_buf b (\<lambda>bf. bf\<lparr>b_next := ?h\<rparr>) s = Ok () (s\<lparr>bufs := B1\<rparr>)"
      unfolding B1_def by (simp_all only: buf_access)
    have e: "upd_buf b (\<lambda>bf. bf\<lparr>b_prev := bhead\<rparr>) (s\<lparr>bufs := B1\<rparr>) = Ok () (s\<lparr>bufs := B2\<rparr>)"
      "upd_buf ?h (\<lambda>bf. bf\<lparr>b_prev := b\<rparr>) (u\<lparr>bufs := B2\<rparr>) = Ok () (u\<lparr>bufs := B3\<rparr>)"
      "upd_buf bhead (\<lambda>bf. bf\<lparr>b_next := b\<rparr>) (u\<lparr>bufs := B3\<rparr>) = Ok () (u\<lparr>bufs := B4\<rparr>)"
      unfolding B4_def B3_def B2_def by (simp_all only: buf_at)
    have "binit1 b s = Ok () (u\<lparr>bufs := B4\<rparr>)"
      by (simp only: binit1_def bnd_Ok thn_Ok g e L [unfolded c])
    then have "binit1 b s = Ok () (s\<lparr>bufs := B4, locks := L, slocks := ?K\<rparr>)" by (simp only: c)
    then show ?thesis by (rule that)
  qed
  ultimately show ?thesis by (intro exI [of _ B4] exI [of _ L] conjI)
qed

lemma binit_lru:
  "\<exists>B L K. binit s = Ok () (s\<lparr>bufs := B, locks := L, slocks := K\<rparr>) \<and> lru B (rev [0..<NBUF]) \<and>
     (\<forall>i. same_but_links (B i) (bufs s i)) \<and> (\<forall>i<NBUF. \<not> sl_locked (K (SlBuf i)))"
proof -
  define I where "I n t \<longleftrightarrow> dll (nx (bufs t)) (pv (bufs t)) bhead (rev [0..<n]) bhead \<and>
    (\<forall>i. same_but_links (bufs t i) (bufs s i)) \<and> (\<forall>i<n. \<not> sl_locked (slocks t (SlBuf i))) \<and>
    (\<exists>B L K. t = s\<lparr>bufs := B, locks := L, slocks := K\<rparr>)" for n t
  let ?lk = "(locks s)(LkBcache := \<lparr>lk_locked = False, lk_name = ''bcache'', lk_cpu = None\<rparr>)"
  define t where "t = s\<lparr>locks := ?lk, bufs := (bufs s)(bhead := (bufs s bhead)\<lparr>b_prev := bhead, b_next := bhead\<rparr>)\<rparr>"
  have "\<exists>B L K. t = s\<lparr>bufs := B, locks := L, slocks := K\<rparr>"
    by (rule exI [of _ "bufs t"], rule exI [of _ "locks t"], rule exI [of _ "slocks t"]) (simp add: t_def)
  then have "I 0 t" by (simp add: I_def t_def same_but_links_def)
  have "wp (foreach [0..<NBUF] binit1) (\<lambda>_. I (length [0..<NBUF])) t"
  proof (rule wp_foreach [where I = I])
    fix i u assume i: "i < length [0..<NBUF]" and u: "I i u"
    let ?K = "(slocks u)(SlBuf i := \<lparr>sl_locked = False, sl_name = ''buffer'', sl_pid = 0\<rparr>)"
    have "dll (nx (bufs u)) (pv (bufs u)) bhead (rev [0..<i]) bhead" using u unfolding I_def by blast
    moreover have "distinct (rev [0..<i])" "set (rev [0..<i]) = {..<i}" "i < NBUF" using i by auto
    ultimately obtain B L where B: "binit1 i u = Ok () (u\<lparr>bufs := B, locks := L, slocks := ?K\<rparr>)"
      "dll (nx B) (pv B) bhead (i # rev [0..<i]) bhead" "\<forall>j. same_but_links (B j) (bufs u j)"
      using binit1_lru by blast
    obtain B0 L0 K0 where u0: "u = s\<lparr>bufs := B0, locks := L0, slocks := K0\<rparr>" using u unfolding I_def by blast
    have "u\<lparr>bufs := B, locks := L, slocks := ?K\<rparr> = s\<lparr>bufs := B, locks := L, slocks := ?K\<rparr>" by (simp add: u0)
    then have "I (Suc i) (u\<lparr>bufs := B, locks := L, slocks := ?K\<rparr>)"
      using u B(2,3) unfolding I_def by (auto simp: same_but_links_def less_Suc_eq)
    then show "wp (binit1 ([0..<NBUF] ! i)) (\<lambda>_. I (Suc i)) u" using i B(1) by (simp add: wp_Ok)
  qed fact
  then obtain w where w: "foreach [0..<NBUF] binit1 t = Ok () w" "I NBUF w" by (auto simp: wp_iff)
  then obtain B L K where "w = s\<lparr>bufs := B, locks := L, slocks := K\<rparr>" unfolding I_def by blast
  moreover have "binit s = foreach [0..<NBUF] binit1 t"
    by (simp add: binit_def initlock_def upd_lock_def kstep t_def)
  ultimately show ?thesis
    using w by (intro exI [of _ B] exI [of _ L] exI [of _ K]) (auto simp: I_def lru_def)
qed

text \<open>The state of an empty cache over a disk.\<close>

definition a_empty :: "(uint64 \<Rightarrow> uchar list) \<Rightarrow> (uint64 \<times> uchar list) list \<Rightarrow> acache" where
  "a_empty d tr = \<lparr>a_dat = (\<lambda>n. d (sector n)), a_disk = d, a_trace = tr, a_rc = (\<lambda>_. 0), a_dirty = {}, a_held = (\<lambda>_. None)\<rparr>"

definition bcache_empty :: "'a kbio_scheme \<Rightarrow> bool" where
  "bcache_empty s \<longleftrightarrow> (\<exists>l. lru (bufs s) l) \<and>
     (\<forall>i<NBUF. b_dev (bufs s i) = 0 \<and> b_refcnt (bufs s i) = 0 \<and> \<not> sl_locked (slocks s (SlBuf i)))"

lemma cview_empty:
  assumes "bcache_empty s" "calm s" "dev \<noteq> 0" "\<forall>a. length (disk s a) = BSIZE"
  shows "cview dev (a_empty (disk s) (dtrace s)) (strip s) s"
  using assms by (auto simp: cview_def bufs_view_def bcache_empty_def a_empty_def cached_def)

lemma binit_empty:
  assumes "\<forall>i<NBUF. bufs s i = zero_buf"
  shows "\<exists>B L K. binit s = Ok () (s\<lparr>bufs := B, locks := L, slocks := K\<rparr>) \<and> bcache_empty (s\<lparr>bufs := B, locks := L, slocks := K\<rparr>)"
proof -
  obtain B L K where B: "binit s = Ok () (s\<lparr>bufs := B, locks := L, slocks := K\<rparr>)" "lru B (rev [0..<NBUF])"
     "\<forall>i. same_but_links (B i) (bufs s i)" "\<forall>i<NBUF. \<not> sl_locked (K (SlBuf i))"
    using binit_lru [of s] by blast
  have "b_dev (B i) = 0 \<and> b_refcnt (B i) = 0" if "i < NBUF" for i
    using same_linksD(1,3) [OF B(3) [rule_format, of i]] assms that by (simp add: zero_buf_def)
  then have "bcache_empty (s\<lparr>bufs := B, locks := L, slocks := K\<rparr>)"
    using B(2,4) by (auto simp: bcache_empty_def)
  with B(1) show ?thesis by blast
qed

end
