(* ===== verification/FS_Codec.thy ===== *)
theory FS_Codec
  imports FS
begin

text \<open>
  The byte formats of \<^verbatim>\<open>kernel/fs.h\<close> and the pure helpers of \<^verbatim>\<open>kernel/fs.c\<close>: encoding and decoding of on-disk
  structures, the free-block bitmap, path elements and directory names.
\<close>

section \<open>Integers and slices\<close>

lemma le16_at: "le16 (xs @ bytes16 v @ ys) (length xs) = v"
  unfolding le16_def bytes16_def
  by (rule bit_word_eqI) (auto simp: nth_append bit_simps)

lemma le32_at: "le32 (xs @ bytes32 v @ ys) (length xs) = v"
proof (rule bit_word_eqI)
  fix n assume "n < LENGTH(32)"
  then consider "n < 8" | "8 \<le> n" "n < 16" | "16 \<le> n" "n < 24" | "24 \<le> n" "n < 32" by fastforce
  then show "bit (le32 (xs @ bytes32 v @ ys) (length xs)) n = bit v n"
    by cases (auto simp: le32_def bytes32_def nth_append bit_simps)
qed

lemma length_bytes [simp]: "length (bytes16 v) = 2" "length (bytes32 w) = 4"
  by (simp_all add: bytes16_def bytes32_def)

lemma length_splice [simp]: "o' + length ys \<le> length xs \<Longrightarrow> length (splice xs o' ys) = length xs"
  by (simp add: splice_def)

lemma splice_same: "o' + length ys \<le> length xs \<Longrightarrow> take (length ys) (drop o' (splice xs o' ys)) = ys"
  by (simp add: splice_def)

lemma nth_splice:
  assumes "o' + length ys \<le> length xs" and "k < length xs"
  shows "splice xs o' ys ! k = (if o' \<le> k \<and> k < o' + length ys then ys ! (k - o') else xs ! k)"
  using assms by (auto simp: splice_def nth_append not_less)

lemma splice_apart:
  assumes "o' + length ys \<le> length xs" and "p + n \<le> length xs" and "p + n \<le> o' \<or> o' + length ys \<le> p"
  shows "take n (drop p (splice xs o' ys)) = take n (drop p xs)"
  using assms by (intro nth_equalityI) (auto simp: nth_splice)

section \<open>Inodes on disk\<close>

lemma le32_concat:
  "i < length vs \<Longrightarrow> le32 (xs @ concat (map bytes32 vs)) (length xs + 4 * i) = vs ! i"
proof (induction vs arbitrary: xs i)
  case (Cons v vs)
  show ?case
  proof (cases i)
    case 0
    then show ?thesis using le32_at [of xs v] by simp
  next
    case (Suc k)
    then show ?thesis
      using Cons.IH [of k "xs @ bytes32 v"] Cons.prems by (simp add: algebra_simps)
  qed
qed simp

lemma length_enc_dinode: "length (enc_dinode d) = 12 + 4 * length (di_addrs d)"
  by (simp add: enc_dinode_def length_concat comp_def sum_list_triv)

lemma dec_enc_dinode:
  assumes "length (di_addrs d) = NDIRECT + 1"
  shows "dec_dinode (enc_dinode d) = d"
proof -
  let ?t = "bytes16 (di_type d)" and ?mj = "bytes16 (di_major d)" and ?mn = "bytes16 (di_minor d)"
    and ?nl = "bytes16 (di_nlink d)" and ?sz = "bytes32 (di_size d)"
    and ?as = "concat (map bytes32 (di_addrs d))"
  have "map (\<lambda>i. le32 (enc_dinode d) (12 + 4 * i)) [0..<NDIRECT + 1] = di_addrs d"
    using assms le32_concat [of _ "di_addrs d" "?t @ ?mj @ ?mn @ ?nl @ ?sz"]
    by (intro nth_equalityI) (simp_all add: enc_dinode_def del: upt_Suc)
  moreover have "le16 (enc_dinode d) 0 = di_type d" "le16 (enc_dinode d) 2 = di_major d"
      "le16 (enc_dinode d) 4 = di_minor d" "le16 (enc_dinode d) 6 = di_nlink d"
      "le32 (enc_dinode d) 8 = di_size d"
    using le16_at [of "[]" "di_type d" "?mj @ ?mn @ ?nl @ ?sz @ ?as"]
      le16_at [of ?t "di_major d" "?mn @ ?nl @ ?sz @ ?as"]
      le16_at [of "?t @ ?mj" "di_minor d" "?nl @ ?sz @ ?as"]
      le16_at [of "?t @ ?mj @ ?mn" "di_nlink d" "?sz @ ?as"]
      le32_at [of "?t @ ?mj @ ?mn @ ?nl" "di_size d" ?as]
    by (simp_all add: enc_dinode_def)
  ultimately show ?thesis by (simp add: dec_dinode_def)
qed

text \<open>The slot of an inode in its block.\<close>

definition slot :: "uchar list \<Rightarrow> uint \<Rightarrow> dinode" where
  "slot data inum = dec_dinode (take DINODE_SIZE (drop (dinode_off inum) data))"

lemma dinode_off_bound: "dinode_off inum + DINODE_SIZE \<le> BSIZE"
proof -
  have "unat inum mod IPB < 16" by (simp add: IPB_def BSIZE_def DINODE_SIZE_def)
  then show ?thesis by (simp add: dinode_off_def DINODE_SIZE_def BSIZE_def)
qed


definition sample_inode :: inode where
  "sample_inode = \<lparr>i_dev = 1, i_inum = 17, i_ref = 1, i_valid = True, i_type = T_FILE, i_major = 0,
     i_minor = 0, i_nlink = 1, i_size = 70000, i_addrs = replicate 13 0x12345\<rparr>"


section \<open>Directory names\<close>

lemma bstr_at0: "bstr (at0 xs) n = take n (takeWhile (\<lambda>c. c \<noteq> 0) xs)"
proof (induction n arbitrary: xs)
  case (Suc n)
  show ?case
  proof (cases xs)
    case (Cons x ys)
    have "(\<lambda>i. at0 xs (Suc i)) = at0 ys" "at0 xs 0 = x" by (auto simp: Cons at0_def fun_eq_iff)
    with Suc [of ys] Cons show ?thesis by simp
  qed (simp add: at0_def)
qed simp

lemma namecmp_eq_0:
  "namecmp s t = 0 \<longleftrightarrow>
     take DIRSIZ (takeWhile (\<lambda>c. c \<noteq> 0) s) = take DIRSIZ (takeWhile (\<lambda>c. c \<noteq> 0) t)"
  by (simp add: namecmp_def strncmp_eq_0 bstr_at0)

lemma length_dirent_name: "length (dirent_name name) = DIRSIZ"
  by (simp add: dirent_name_def Let_def)

lemma take_takeWhile_take: "take n (takeWhile P (take n xs)) = take n (takeWhile P xs)"
  by (induction xs arbitrary: n) (auto simp: take_Cons split: nat.splits)

lemma takeWhile_stop:
  "\<forall>x \<in> set xs. P x \<Longrightarrow> ys = [] \<or> \<not> P (hd ys) \<Longrightarrow> takeWhile P (xs @ ys) = xs"
  by (induction xs) (cases ys, auto)

lemma takeWhile_pad:
  "takeWhile (\<lambda>c. c \<noteq> 0) (take n (takeWhile (\<lambda>c. c \<noteq> 0) xs) @ replicate k (0::uchar)) =
     take n (takeWhile (\<lambda>c. c \<noteq> 0) xs)"
proof -
  have "\<forall>x \<in> set (take n (takeWhile (\<lambda>c. c \<noteq> 0) xs)). x \<noteq> 0" by (auto dest!: in_set_takeD set_takeWhileD)
  then show ?thesis by (rule takeWhile_stop) (cases k, simp_all)
qed

lemma dirent_roundtrip: "dec_dirent (enc_dirent \<lparr>de_inum = i, de_name = dirent_name name\<rparr>) =
    \<lparr>de_inum = i, de_name = dirent_name name\<rparr>"
  using le16_at [of "[]" i "dirent_name name"]
  by (simp add: dec_dirent_def enc_dirent_def length_dirent_name)

text \<open>
  C21: the directory entry \<^verbatim>\<open>dirlink\<close> writes for a name is decoded by \<^verbatim>\<open>dirlookup\<close> to the same inode number, and
  a lookup matches it exactly when the two names agree up to their first NUL or their first 14 bytes.
\<close>

theorem dirent_lookup_roundtrip:
  "de_inum (dec_dirent (enc_dirent \<lparr>de_inum = i, de_name = dirent_name name\<rparr>)) = i \<and>
   length (enc_dirent \<lparr>de_inum = i, de_name = dirent_name name\<rparr>) = DIRENT_SIZE \<and>
   (namecmp other (de_name (dec_dirent (enc_dirent \<lparr>de_inum = i, de_name = dirent_name name\<rparr>))) = 0
     \<longleftrightarrow> take DIRSIZ (takeWhile (\<lambda>c. c \<noteq> 0) other) = take DIRSIZ (takeWhile (\<lambda>c. c \<noteq> 0) name))"
proof -
  have "namecmp other (dirent_name name) = 0 \<longleftrightarrow>
      take DIRSIZ (takeWhile (\<lambda>c. c \<noteq> 0) other) = take DIRSIZ (takeWhile (\<lambda>c. c \<noteq> 0) name)"
    by (simp add: namecmp_eq_0 dirent_name_def Let_def takeWhile_pad)
  moreover have "length (enc_dirent \<lparr>de_inum = i, de_name = dirent_name name\<rparr>) = DIRENT_SIZE"
    by (simp add: enc_dirent_def length_dirent_name DIRENT_SIZE_def DIRSIZ_def)
  ultimately show ?thesis by (simp add: dirent_roundtrip)
qed

section \<open>Path elements\<close>

text \<open>The elements of a path: the non-empty pieces between slashes.\<close>

function elems :: "uchar list \<Rightarrow> uchar list list" where
  "elems p =
     (let q = dropWhile (\<lambda>c. c = slash) p in
      if q = [] then [] else
      takeWhile (\<lambda>c. c \<noteq> slash) q # elems (dropWhile (\<lambda>c. c \<noteq> slash) q))"
  by pat_completeness auto
termination
proof (relation "measure length")
  fix p q :: "uchar list"
  assume q: "q = dropWhile (\<lambda>c. c = slash) p" and ne: "q \<noteq> []"
  then have "hd q \<noteq> slash" using hd_dropWhile [of "\<lambda>c. c = slash" p] by simp
  then have "length (dropWhile (\<lambda>c. c \<noteq> slash) q) < length q"
    using ne by (cases q) (simp_all add: le_imp_less_Suc length_dropWhile_le)
  also have "length q \<le> length p" using q by (simp add: length_dropWhile_le)
  finally show "(dropWhile (\<lambda>c. c \<noteq> slash) q, p) \<in> measure length" by simp
qed simp

declare elems.simps [simp del]

lemma elems_skip: "elems (dropWhile (\<lambda>c. c = slash) p) = elems p"
  by (simp add: elems.simps [of p] elems.simps [of "dropWhile (\<lambda>c. c = slash) p"] Let_def)



end
