(* ===== verification/Log_Proofs.thy ===== *)
theory Log_Proofs
  imports Bcache FS_Codec
begin

text \<open>
  The redo log of \<^verbatim>\<open>kernel/log.c\<close> on top of the abstract buffer cache: what each of its functions does to the blocks
  and to the disk, and what the disk holds after a crash at any point of a commit followed by recovery.
\<close>

section \<open>Frames\<close>

lemma klog_get [kframe]:
  "lh_n (lock_st l s) = lh_n s"
  "lh_n (wake_st ch s) = lh_n s"
  "lh_n (slock_st i s) = lh_n s"
  "lh_n (sunlock_st i s) = lh_n s"
  "lh_n (set_ena b s) = lh_n s"
  "lh_block (lock_st l s) = lh_block s"
  "lh_block (wake_st ch s) = lh_block s"
  "lh_block (slock_st i s) = lh_block s"
  "lh_block (sunlock_st i s) = lh_block s"
  "lh_block (set_ena b s) = lh_block s"
  "log_outstanding (lock_st l s) = log_outstanding s"
  "log_outstanding (wake_st ch s) = log_outstanding s"
  "log_outstanding (slock_st i s) = log_outstanding s"
  "log_outstanding (sunlock_st i s) = log_outstanding s"
  "log_outstanding (set_ena b s) = log_outstanding s"
  "log_committing (lock_st l s) = log_committing s"
  "log_committing (wake_st ch s) = log_committing s"
  "log_committing (slock_st i s) = log_committing s"
  "log_committing (sunlock_st i s) = log_committing s"
  "log_committing (set_ena b s) = log_committing s"
  by (simp_all add: lock_st_def push_st_def wake_st_def slock_st_def sunlock_st_def set_ena_def)

lemma klog_set [kframe]:
  "(lock_st l s)\<lparr>lh_n := v_lh_n\<rparr> = lock_st l (s\<lparr>lh_n := v_lh_n\<rparr>)"
  "(wake_st ch s)\<lparr>lh_n := v_lh_n\<rparr> = wake_st ch (s\<lparr>lh_n := v_lh_n\<rparr>)"
  "(lock_st l s)\<lparr>lh_block := v_lh_block\<rparr> = lock_st l (s\<lparr>lh_block := v_lh_block\<rparr>)"
  "(wake_st ch s)\<lparr>lh_block := v_lh_block\<rparr> = wake_st ch (s\<lparr>lh_block := v_lh_block\<rparr>)"
  "(lock_st l s)\<lparr>log_outstanding := v_log_outstanding\<rparr> = lock_st l (s\<lparr>log_outstanding := v_log_outstanding\<rparr>)"
  "(wake_st ch s)\<lparr>log_outstanding := v_log_outstanding\<rparr> = wake_st ch (s\<lparr>log_outstanding := v_log_outstanding\<rparr>)"
  "(lock_st l s)\<lparr>log_committing := v_log_committing\<rparr> = lock_st l (s\<lparr>log_committing := v_log_committing\<rparr>)"
  "(wake_st ch s)\<lparr>log_committing := v_log_committing\<rparr> = wake_st ch (s\<lparr>log_committing := v_log_committing\<rparr>)"
  by (simp_all add: lock_st_def push_st_def wake_st_def curproc_def)

lemma klog_keep [kframe]:
  "base_ok (s\<lparr>lh_n := v_lh_n\<rparr>) = base_ok s"
  "lk_free k (s\<lparr>lh_n := v_lh_n\<rparr>) = lk_free k s"
  "curproc (s\<lparr>lh_n := v_lh_n\<rparr>) = curproc s"
  "procs_free (s\<lparr>lh_n := v_lh_n\<rparr>) = procs_free s"
  "calm (s\<lparr>lh_n := v_lh_n\<rparr>) = calm s"
  "mypid (s\<lparr>lh_n := v_lh_n\<rparr>) = mypid s"
  "base_ok (s\<lparr>lh_block := v_lh_block\<rparr>) = base_ok s"
  "lk_free k (s\<lparr>lh_block := v_lh_block\<rparr>) = lk_free k s"
  "curproc (s\<lparr>lh_block := v_lh_block\<rparr>) = curproc s"
  "procs_free (s\<lparr>lh_block := v_lh_block\<rparr>) = procs_free s"
  "calm (s\<lparr>lh_block := v_lh_block\<rparr>) = calm s"
  "mypid (s\<lparr>lh_block := v_lh_block\<rparr>) = mypid s"
  "base_ok (s\<lparr>log_outstanding := v_log_outstanding\<rparr>) = base_ok s"
  "lk_free k (s\<lparr>log_outstanding := v_log_outstanding\<rparr>) = lk_free k s"
  "curproc (s\<lparr>log_outstanding := v_log_outstanding\<rparr>) = curproc s"
  "procs_free (s\<lparr>log_outstanding := v_log_outstanding\<rparr>) = procs_free s"
  "calm (s\<lparr>log_outstanding := v_log_outstanding\<rparr>) = calm s"
  "mypid (s\<lparr>log_outstanding := v_log_outstanding\<rparr>) = mypid s"
  "base_ok (s\<lparr>log_committing := v_log_committing\<rparr>) = base_ok s"
  "lk_free k (s\<lparr>log_committing := v_log_committing\<rparr>) = lk_free k s"
  "curproc (s\<lparr>log_committing := v_log_committing\<rparr>) = curproc s"
  "procs_free (s\<lparr>log_committing := v_log_committing\<rparr>) = procs_free s"
  "calm (s\<lparr>log_committing := v_log_committing\<rparr>) = calm s"
  "mypid (s\<lparr>log_committing := v_log_committing\<rparr>) = mypid s"
  by (simp_all add: base_ok_def lk_free_def curproc_def procs_free_def calm_def mypid_def)


text \<open>Changing the log's own variables does not disturb the cache.\<close>

lemma cview_frame:
  assumes "cview dev A z s" and "calm t = calm s" "mypid t = mypid s" "bufs t = bufs s" "disk t = disk s" "dtrace t = dtrace s" "slocks t = slocks s"
  shows "cview dev A (strip t) t"
  using assms by (simp add: cview_def held_view_def)

lemma strip_log:
  "strip (s\<lparr>lh_n := v\<rparr>) = (strip s)\<lparr>lh_n := v\<rparr>" "strip (s\<lparr>lh_block := bl\<rparr>) = (strip s)\<lparr>lh_block := bl\<rparr>"
  "strip (s\<lparr>log_outstanding := k\<rparr>) = (strip s)\<lparr>log_outstanding := k\<rparr>"
  "strip (s\<lparr>log_committing := c\<rparr>) = (strip s)\<lparr>log_committing := c\<rparr>"
  by (simp_all add: strip_def)

lemma cview_log_sel:
  assumes "cview dev A z s"
  shows "lh_n s = lh_n z" "lh_block s = lh_block z" "log_dev s = log_dev z" "log_start s = log_start z" "log_size s = log_size z"
    "log_outstanding s = log_outstanding z" "log_committing s = log_committing z"
  using cviewD(11) [OF assms] by (auto simp: strip_def)

lemma cview_log:
  assumes "cview dev A z s"
  shows "cview dev A (z\<lparr>lh_n := v\<rparr>) (s\<lparr>lh_n := v\<rparr>)" "cview dev A (z\<lparr>lh_block := bl\<rparr>) (s\<lparr>lh_block := bl\<rparr>)"
    "cview dev A (z\<lparr>log_outstanding := k\<rparr>) (s\<lparr>log_outstanding := k\<rparr>)" "cview dev A (z\<lparr>log_committing := c\<rparr>) (s\<lparr>log_committing := c\<rparr>)"
  unfolding cviewD(11) [OF assms, symmetric] strip_log [symmetric] by (rule cview_frame [OF assms]; simp add: kframe)+

section \<open>Copying a block to the log\<close>

lemma splice_all: "length bs = length d \<Longrightarrow> splice d 0 bs = bs"
  by (simp add: splice_def)

definition a_store :: "uint \<Rightarrow> uchar list \<Rightarrow> acache \<Rightarrow> acache" where
  "a_store n d A = A\<lparr>a_dat := (a_dat A)(n := d), a_disk := (a_disk A)(sector n := d),
     a_trace := a_trace A @ [(sector n, d)], a_dirty := a_dirty A - {n}\<rparr>"

lemma write_log1_view:
  assumes v: "cview dev A z s" and z: "log_dev z = dev" "log_start z = st" "tail < length (lh_block z)"
    and n: "b = lh_block z ! tail" "lb = st + of_nat tail + 1" "lb \<noteq> b" "b < 2 ^ 31" "lb < 2 ^ 31"
    and A: "a_held A = (\<lambda>_. None)" "0 < a_rc A b" "a_rc A b < 2 ^ 32 - 1" "a_rc A lb < 2 ^ 32 - 1"
    and room: "0 < a_rc A lb \<or> card {n. 0 < a_rc A n} < NBUF" and d: "lb \<notin> a_dirty A"
  shows "\<exists>t. write_log1 tail s = Ok () t \<and> cview dev (a_store lb (a_dat A b) A) z t"
proof -
  have f: "log_dev s = dev" "log_start s = st" "lh_block s = lh_block z"
    using z cview_log_sel [OF v] by simp_all
  obtain to s1 where 1: "bread dev lb s = Ok to s1" "cview dev (a_take to lb A) z s1"
    using bread_view [OF v n(5) A(4) _ room] A(1) by auto
  let ?A1 = "a_take to lb A"
  have "a_rc ?A1 b < 2 ^ 32 - 1" "b \<notin> ran (a_held ?A1)" "0 < a_rc ?A1 b"
    using n(3) A by (auto simp: a_take_def ran_def)
  then obtain fr s2 where 2: "bread dev b s1 = Ok fr s2" "a_held ?A1 fr = None" "cview dev (a_take fr b ?A1) z s2"
    using bread_view [OF 1(2) n(4)] by blast
  let ?A2 = "a_take fr b ?A1"
  have ne: "fr \<noteq> to" using 2(2) by (auto simp: a_take_def)
  have h: "a_held ?A2 fr = Some b" "a_held ?A2 to = Some lb" "a_dat ?A2 = a_dat A" using ne by (auto simp: a_take_def)
  have l: "length (a_dat A b) = BSIZE" "length (a_dat A lb) = BSIZE" using cviewD(8) [OF v] by auto
  have g: "get_bytes fr 0 BSIZE s2 = Ok (a_dat A b) s2" using get_bytes_view [OF 2(3) h(1), of 0 BSIZE] h(3) l by simp
  obtain s3 where 3: "put_bytes to 0 (a_dat A b) s2 = Ok () s3" "cview dev (a_put lb 0 (a_dat A b) ?A2) z s3"
    using put_bytes_view [OF 2(3) h(2), of 0 "a_dat A b"] l by auto
  let ?A3 = "a_put lb 0 (a_dat A b) ?A2"
  have h3: "a_held ?A3 to = Some lb" using h by (simp add: a_put_def)
  obtain s4 where 4: "bwrite to s3 = Ok () s4" "cview dev (a_flush lb ?A3) z s4"
    using bwrite_view [OF 3(2) h3] by blast
  let ?A4 = "a_flush lb ?A3"
  have h4: "a_held ?A4 fr = Some b" "1 < a_rc ?A4 b" using h A n(3) by (simp_all add: a_put_def a_flush_def a_take_def)
  obtain s5 where 5: "brelse fr s4 = Ok () s5" "cview dev (a_drop fr b ?A4) z s5"
    using brelse_view [OF 4(2) h4(1)] h4(2) by blast
  let ?A5 = "a_drop fr b ?A4"
  have h5: "a_held ?A5 to = Some lb" "lb \<notin> a_dirty ?A5" using h3 ne d by (simp_all add: a_put_def a_flush_def a_take_def a_drop_def)
  obtain s6 where 6: "brelse to s5 = Ok () s6" "cview dev (a_drop to lb ?A5) z s6"
    using brelse_view [OF 5(2) h5(1)] h5(2) by blast
  have "a_drop to lb ?A5 = a_store lb (a_dat A b) A"
    using n(3) ne A(1) l by (intro acache.equality ext)
      (auto simp: a_drop_def a_flush_def a_put_def a_take_def a_store_def splice_all)
  moreover have "write_log1 tail s = Ok () s6"
    using 1(1) 2(1) g 3(1) 4(1) 5(1) 6(1) f z n(1,2)
    by (simp add: write_log1_def kstep)
  ultimately show ?thesis using 6(2) by auto
qed

section \<open>Installing a block from the log\<close>

lemma card_take: "card {m. 0 < a_rc (a_take b n A) m} \<le> Suc (card {m. 0 < a_rc A m})"
proof -
  have "{m. 0 < a_rc (a_take b n A) m} \<subseteq> insert n {m. 0 < a_rc A m}" by (auto simp: a_take_def)
  then have "card {m. 0 < a_rc (a_take b n A) m} \<le> card (insert n {m. 0 < a_rc A m})" by (intro card_mono) auto
  then show ?thesis by (simp add: card_insert_if split: if_splits)
qed

lemma install_trans1_view:
  assumes v: "cview dev A z s" and z: "log_dev z = dev" "log_start z = st" "tail < length (lh_block z)"
    and n: "b = lh_block z ! tail" "lb = st + of_nat tail + 1" "lb \<noteq> b" "b < 2 ^ 31" "lb < 2 ^ 31"
    and A: "a_held A = (\<lambda>_. None)" "a_rc A b < 2 ^ 32 - 1" "a_rc A lb < 2 ^ 32 - 1" "recovering \<or> 0 < a_rc A b"
    and room: "card {n. 0 < a_rc A n} < NBUF" "0 < a_rc A b \<or> Suc (card {n. 0 < a_rc A n}) < NBUF" and d: "lb \<notin> a_dirty A"
  shows "\<exists>t. install_trans1 recovering tail s = Ok () t \<and>
    cview dev (a_ref b (if recovering then a_rc A b else a_rc A b - 1) (a_store b (a_dat A lb) A)) z t"
proof -
  have f: "log_dev s = dev" "log_start s = st" "lh_block s = lh_block z"
    using z cview_log_sel [OF v] by simp_all
  obtain lbuf s1 where 1: "bread dev lb s = Ok lbuf s1" "cview dev (a_take lbuf lb A) z s1"
    using bread_view [OF v n(5) A(3)] room(1) A(1) by auto
  let ?A1 = "a_take lbuf lb A"
  have rc: "a_rc ?A1 b = a_rc A b" using n(3) by (simp add: a_take_def)
  then have "0 < a_rc ?A1 b \<or> card {n. 0 < a_rc ?A1 n} < NBUF"
    using room(2) le_less_trans [OF card_take [of lbuf lb A]] unfolding rc by blast
  moreover have "a_rc ?A1 b < 2 ^ 32 - 1" "b \<notin> ran (a_held ?A1)"
    using n(3) A rc by (auto simp: a_take_def ran_def)
  ultimately obtain db s2 where 2: "bread dev b s1 = Ok db s2" "a_held ?A1 db = None" "cview dev (a_take db b ?A1) z s2"
    using bread_view [OF 1(2) n(4)] by blast
  let ?A2 = "a_take db b ?A1"
  have ne: "db \<noteq> lbuf" using 2(2) by (auto simp: a_take_def)
  have h: "a_held ?A2 db = Some b" "a_held ?A2 lbuf = Some lb" "a_dat ?A2 = a_dat A" using ne by (auto simp: a_take_def)
  have l: "length (a_dat A b) = BSIZE" "length (a_dat A lb) = BSIZE" using cviewD(8) [OF v] by auto
  have g: "get_bytes lbuf 0 BSIZE s2 = Ok (a_dat A lb) s2" using get_bytes_view [OF 2(3) h(2), of 0 BSIZE] h(3) l by simp
  obtain s3 where 3: "put_bytes db 0 (a_dat A lb) s2 = Ok () s3" "cview dev (a_put b 0 (a_dat A lb) ?A2) z s3"
    using put_bytes_view [OF 2(3) h(1), of 0 "a_dat A lb"] l by auto
  let ?A3 = "a_put b 0 (a_dat A lb) ?A2"
  have h3: "a_held ?A3 db = Some b" using h by (simp add: a_put_def)
  obtain s4 where 4: "bwrite db s3 = Ok () s4" "cview dev (a_flush b ?A3) z s4"
    using bwrite_view [OF 3(2) h3] by blast
  let ?A4 = "a_ref b (if recovering then a_rc A b + 1 else a_rc A b) (a_flush b ?A3)"
  have h4: "a_held (a_flush b ?A3) db = Some b" "a_rc (a_flush b ?A3) b = a_rc A b + 1"
    using h n(3) by (simp_all add: a_put_def a_flush_def a_take_def)
  have e4: "?A4 = a_flush b ?A3" if recovering using that h4(2) by (auto simp: a_ref_def)
  obtain s5 where 5: "mwhen (\<not> recovering) (bunpin db) s4 = Ok () s5" "cview dev ?A4 z s5"
  proof (cases recovering)
    case True
    then show ?thesis using that [of s4] 4(2) e4 by (simp add: kstep)
  next
    case False
    then show ?thesis using that bunpin_view [OF 4(2) h4(1)] h4(2) A(4) by (auto simp: kstep)
  qed
  have h5: "a_held ?A4 lbuf = Some lb" "lb \<notin> a_dirty ?A4" using h d n(3) by (simp_all add: a_put_def a_flush_def a_take_def a_ref_def)
  obtain s6 where 6: "brelse lbuf s5 = Ok () s6" "cview dev (a_drop lbuf lb ?A4) z s6"
    using brelse_view [OF 5(2) h5(1)] h5(2) by blast
  let ?A6 = "a_drop lbuf lb ?A4"
  have h6: "a_held ?A6 db = Some b" "b \<notin> a_dirty ?A6" using h ne by (simp_all add: a_put_def a_flush_def a_take_def a_ref_def a_drop_def)
  obtain s7 where 7: "brelse db s6 = Ok () s7" "cview dev (a_drop db b ?A6) z s7"
    using brelse_view [OF 6(2) h6(1)] h6(2) by blast
  have "a_drop db b ?A6 = a_ref b (if recovering then a_rc A b else a_rc A b - 1) (a_store b (a_dat A lb) A)"
    using n(3) ne A(1,4) l by (intro acache.equality ext)
      (auto simp: a_drop_def a_flush_def a_put_def a_take_def a_store_def a_ref_def splice_all)
  moreover have "install_trans1 recovering tail s = Ok () s7"
    using 1(1) 2(1) g 3(1) 4(1) 5(1) 6(1) 7(1) f z n(1,2)
    by (simp add: install_trans1_def kstep)
  ultimately show ?thesis using 7(2) by auto
qed

section \<open>The header\<close>

text \<open>The 32-bit integer at an offset of a block, and the block that \<^verbatim>\<open>write_head\<close> produces from the old one.\<close>

definition w32 :: "uchar list \<Rightarrow> nat \<Rightarrow> uint" where
  "w32 d o' = le32 (take 4 (drop o' d)) 0"

primrec header :: "uint \<Rightarrow> uint list \<Rightarrow> uchar list \<Rightarrow> nat \<Rightarrow> uchar list" where
  "header v bl d 0 = splice d 0 (bytes32 v)"
| "header v bl d (Suc i) = splice (header v bl d i) (4 + 4 * i) (bytes32 (bl ! i))"

lemma w32_splice:
  "o' + 4 \<le> length d \<Longrightarrow> w32 (splice d o' (bytes32 v)) o' = v"
  "o' + 4 \<le> length d \<Longrightarrow> p + 4 \<le> length d \<Longrightarrow> p + 4 \<le> o' \<or> o' + 4 \<le> p \<Longrightarrow> w32 (splice d o' (bytes32 v)) p = w32 d p"
  using splice_same [of o' "bytes32 v" d] le32_at [of "[]" v "[]"] splice_apart [of o' "bytes32 v" d p 4] by (simp_all add: w32_def)

lemma header_w32:
  assumes "4 + 4 * i \<le> length d"
  shows "length (header v bl d i) = length d" "w32 (header v bl d i) 0 = v" "j < i \<Longrightarrow> w32 (header v bl d i) (4 + 4 * j) = bl ! j"
  using assms
proof (induction i)
  case (Suc i)
  { case 1 then show ?case using Suc by simp }
  { case 2 then show ?case using Suc by (simp add: w32_splice) }
  { case 3 then show ?case using Suc by (cases "j = i") (simp_all add: w32_splice) }
qed (simp_all add: w32_splice)

lemma write_head_view:
  assumes v: "cview dev A z s" and z: "log_dev z = dev" "log_start z = st" "lh_n z = int n" "n \<le> length (lh_block z)" "4 + 4 * n \<le> BSIZE"
    and st: "st < 2 ^ 31" and A: "a_held A = (\<lambda>_. None)" "a_rc A st < 2 ^ 32 - 1"
    and room: "card {n. 0 < a_rc A n} < NBUF" and d: "st \<notin> a_dirty A"
  shows "\<exists>t. write_head s = Ok () t \<and> cview dev (a_store st (header (of_nat n) (lh_block z) (a_dat A st) n) A) z t"
proof -
  let ?h = "header (of_nat n) (lh_block z) (a_dat A st)"
  have f: "log_dev s = dev" "log_start s = st" using z cview_log_sel [OF v] by simp_all
  obtain b s1 where 1: "bread dev st s = Ok b s1" "cview dev (a_take b st A) z s1"
    using bread_view [OF v st A(2)] room A(1) by auto
  let ?B = "\<lambda>i. (a_take b st A)\<lparr>a_dat := (a_dat A)(st := ?h i), a_dirty := insert st (a_dirty A)\<rparr>"
  have h: "a_held (a_take b st A) b = Some st" by (simp add: a_take_def)
  have n1: "lh_n s1 = int n" using z(3) cview_log_sel(1) [OF 1(2)] by simp
  obtain s2 where 2: "put_bytes b 0 (bytes32 (word_of_int (int n))) s1 = Ok () s2" "cview dev (?B 0) z s2"
    using put_bytes_view [OF 1(2) h, of 0 "bytes32 (word_of_int (int n))"] by (auto simp: BSIZE_def a_put_def a_take_def)
  have "wp (foreach [0..<n] (\<lambda>i. bnd (reads lh_block) (\<lambda>bl. if length bl \<le> i then undef ''lh.block overrun''
            else put_bytes b (4 + 4 * i) (bytes32 (bl ! i))))) (\<lambda>_ t. cview dev (?B (length [0..<n])) z t) s2"
  proof (rule wp_foreach [where I = "\<lambda>i t. cview dev (?B i) z t"])
    fix i t assume i: "i < length [0..<n]" and t: "cview dev (?B i) z t"
    have "lh_block t = lh_block z" by (rule cview_log_sel(2) [OF t])
    moreover obtain u where "put_bytes b (4 + 4 * i) (bytes32 (lh_block z ! i)) t = Ok () u"
      "cview dev (a_put st (4 + 4 * i) (bytes32 (lh_block z ! i)) (?B i)) z u"
      using put_bytes_view [OF t, of b st "4 + 4 * i" "bytes32 (lh_block z ! i)"] i z(5) by (auto simp: a_take_def)
    moreover have "a_put st (4 + 4 * i) (bytes32 (lh_block z ! i)) (?B i) = ?B (Suc i)" by (simp add: a_put_def)
    ultimately show "wp (bnd (reads lh_block) (\<lambda>bl. if length bl \<le> [0..<n] ! i then undef ''lh.block overrun''
            else put_bytes b (4 + 4 * [0..<n] ! i) (bytes32 (bl ! ([0..<n] ! i))))) (\<lambda>_ t. cview dev (?B (Suc i)) z t) t"
      using i z(4) by (simp add: wps wp_Ok)
  qed (rule 2(2))
  then obtain s3 where 3: "foreach [0..<n] (\<lambda>i. bnd (reads lh_block) (\<lambda>bl. if length bl \<le> i then undef ''lh.block overrun''
            else put_bytes b (4 + 4 * i) (bytes32 (bl ! i)))) s2 = Ok () s3" "cview dev (?B n) z s3"
    by (auto simp: wp_iff)
  have h3: "a_held (?B n) b = Some st" by (simp add: a_take_def)
  obtain s4 where 4: "bwrite b s3 = Ok () s4" "cview dev (a_flush st (?B n)) z s4" using bwrite_view [OF 3(2) h3] by blast
  obtain s5 where 5: "brelse b s4 = Ok () s5" "cview dev (a_drop b st (a_flush st (?B n))) z s5"
    using brelse_view [OF 4(2), of b st] h3 by (auto simp: a_flush_def)
  have "a_drop b st (a_flush st (?B n)) = a_store st (?h n) A"
    using d A(1) by (intro acache.equality ext) (auto simp: a_drop_def a_flush_def a_take_def a_store_def)
  moreover have "write_head s = Ok () s5"
    using 1(1) 2(1) 3(1) 4(1) 5(1) f n1 by (simp add: write_head_def kstep)
  ultimately show ?thesis using 5(2) by auto
qed

lemma read_head_view:
  assumes v: "cview dev A z s" and z: "log_dev z = dev" "log_start z = st" "n \<le> length (lh_block z)" "4 + 4 * n \<le> BSIZE"
    and st: "st < 2 ^ 31" "w32 (a_dat A st) 0 = of_nat n" and A: "a_held A = (\<lambda>_. None)" "a_rc A st < 2 ^ 32 - 1"
    and room: "card {n. 0 < a_rc A n} < NBUF" and d: "st \<notin> a_dirty A"
  shows "\<exists>t. read_head s = Ok () t \<and>
    cview dev A (z\<lparr>lh_n := int n, lh_block := map (\<lambda>i. w32 (a_dat A st) (4 + 4 * i)) [0..<n] @ drop n (lh_block z)\<rparr>) t"
proof -
  let ?w = "\<lambda>i. w32 (a_dat A st) (4 + 4 * i)"
  let ?z = "\<lambda>i. z\<lparr>lh_n := int n, lh_block := map ?w [0..<i] @ drop i (lh_block z)\<rparr>"
  have f: "log_dev s = dev" "log_start s = st" using z cview_log_sel [OF v] by simp_all
  obtain b s1 where 1: "bread dev st s = Ok b s1" "cview dev (a_take b st A) z s1"
    using bread_view [OF v st(1) A(2)] room A(1) by auto
  let ?A = "a_take b st A"
  have h: "a_held ?A b = Some st" "a_dat ?A = a_dat A" by (simp_all add: a_take_def)
  have g: "get32 b (4 * k) u = Ok (w32 (a_dat A st) (4 * k)) u" if "cview dev ?A y u" "4 * k + 4 \<le> BSIZE" for k y and u :: "'a klog_scheme"
    using get_bytes_view [OF that(1) h(1), of "4 * k" 4] that(2) h(2) by (simp add: get32_def w32_def kstep)
  have n: "sint (of_nat n :: uint) = int n"
    using z(4) by (simp add: signed_of_nat signed_take_bit_int_eq_self BSIZE_def)
  have g0: "get32 b 0 s1 = Ok (of_nat n) s1" using g [OF 1(2), of 0] st(2) by (simp add: BSIZE_def)
  have 2: "cview dev ?A (?z 0) (s1\<lparr>lh_n := int n\<rparr>)" using cview_log(1) [OF 1(2), of "int n"] by simp
  have "wp (foreach [0..<n] (\<lambda>i. bnd (get32 b (4 + 4 * i)) (upd_lh_block i))) (\<lambda>_ t. cview dev ?A (?z (length [0..<n])) t) (s1\<lparr>lh_n := int n\<rparr>)"
  proof (rule wp_foreach [where I = "\<lambda>i t. cview dev ?A (?z i) t"])
    fix i t assume i: "i < length [0..<n]" and t: "cview dev ?A (?z i) t"
    let ?bl = "map ?w [0..<i] @ drop i (lh_block z)"
    have bl: "lh_block t = ?bl" using cview_log_sel(2) [OF t] by simp
    have "?bl[i := ?w i] = map ?w [0..<Suc i] @ drop (Suc i) (lh_block z)"
      using i z(3) by (simp add: list_update_append Cons_nth_drop_Suc [symmetric])
    then have "cview dev ?A (?z (Suc i)) (t\<lparr>lh_block := ?bl[i := ?w i]\<rparr>)"
      using cview_log(2) [OF t, of "?bl[i := ?w i]"] by simp
    moreover have "get32 b (4 + 4 * i) t = Ok (?w i) t" using g [OF t, of "Suc i"] i z(4) by simp
    ultimately show "wp (bnd (get32 b (4 + 4 * [0..<n] ! i)) (upd_lh_block ([0..<n] ! i))) (\<lambda>_ t. cview dev ?A (?z (Suc i)) t) t"
      using i bl z(3) by (simp add: wps wp_Ok upd_lh_block_def)
  qed (rule 2)
  then obtain s3 where 3: "foreach [0..<n] (\<lambda>i. bnd (get32 b (4 + 4 * i)) (upd_lh_block i)) (s1\<lparr>lh_n := int n\<rparr>) = Ok () s3"
    "cview dev ?A (?z n) s3" by (auto simp: wp_iff)
  obtain s4 where 4: "brelse b s3 = Ok () s4" "cview dev (a_drop b st ?A) (?z n) s4"
    using brelse_view [OF 3(2) h(1)] d by (auto simp: a_take_def)
  have "a_drop b st ?A = A" using A(1) by (intro acache.equality ext) (auto simp: a_drop_def a_take_def)
  moreover have "read_head s = Ok () s4"
    using 1(1) 3(1) 4(1) f g0 n by (simp add: read_head_def kstep)
  ultimately show ?thesis using 4(2) by auto
qed

section \<open>Sequences of block writes\<close>

primrec upds :: "('k \<Rightarrow> 'v) \<Rightarrow> ('k \<times> 'v) list \<Rightarrow> 'k \<Rightarrow> 'v" where
  "upds f [] = f"
| "upds f (w # ws) = upds (f(fst w := snd w)) ws"

lemma upds_append: "upds f (vs @ ws) = upds (upds f vs) ws"
  by (induction vs arbitrary: f) auto

lemma upds_other: "k \<notin> fst ` set ws \<Longrightarrow> upds f ws k = f k"
  by (induction ws arbitrary: f) auto

lemma upds_mem: "distinct (map fst ws) \<Longrightarrow> (k, d) \<in> set ws \<Longrightarrow> upds f ws k = d"
proof (induction ws arbitrary: f)
  case (Cons w ws)
  then show ?case by (cases "w = (k, d)") (force simp: upds_other)+
qed simp

lemma upds_length: "(\<forall>k. length (f k) = n) \<Longrightarrow> \<forall>w\<in>set ws. length (snd w) = n \<Longrightarrow> length (upds f ws k) = n"
  by (induction ws arbitrary: f) auto

abbreviation secs :: "(uint \<times> uchar list) list \<Rightarrow> (uint64 \<times> uchar list) list" where
  "secs \<equiv> map (\<lambda>(n, d). (sector n, d))"

definition a_stores :: "(uint \<times> uchar list) list \<Rightarrow> acache \<Rightarrow> acache" where
  "a_stores ws A = fold (\<lambda>(n, d). a_store n d) ws A"

lemma a_stores_sel:
  "a_dat (a_stores ws A) = upds (a_dat A) ws" "a_disk (a_stores ws A) = upds (a_disk A) (secs ws)"
  "a_trace (a_stores ws A) = a_trace A @ secs ws" "a_dirty (a_stores ws A) = a_dirty A - fst ` set ws"
  "a_rc (a_stores ws A) = a_rc A" "a_held (a_stores ws A) = a_held A"
  by (induction ws arbitrary: A) (auto simp: a_stores_def a_store_def)

lemma a_stores_snoc: "a_stores (ws @ [(n, d)]) A = a_store n d (a_stores ws A)"
  by (simp add: a_stores_def)

text \<open>The blocks of the log: the header \<open>st\<close> and behind it a block for every entry.\<close>

definition lb :: "uint \<Rightarrow> nat \<Rightarrow> uint" where
  "lb st k = st + of_nat k + 1"

definition in_log :: "uint \<Rightarrow> uint \<Rightarrow> bool" where
  "in_log st b \<longleftrightarrow> unat st \<le> unat b \<and> unat b \<le> unat st + LOGSIZE"

definition log_blocks :: "uint \<Rightarrow> nat \<Rightarrow> uint list \<Rightarrow> bool" where
  "log_blocks st n bl \<longleftrightarrow> unat st + LOGSIZE < 2 ^ 31 \<and> n \<le> LOGSIZE \<and> n \<le> length bl \<and> distinct (take n bl) \<and>
     (\<forall>b\<in>set (take n bl). b < 2 ^ 31 \<and> \<not> in_log st b)"

lemma lb_unat: "unat st + LOGSIZE < 2 ^ 31 \<Longrightarrow> k < LOGSIZE \<Longrightarrow> unat (lb st k) = unat st + k + 1"
  unfolding lb_def by (simp add: unat_word_ariths unat_of_nat_small LOGSIZE_def MAXOPBLOCKS_def)

lemma log_blocksD:
  assumes "log_blocks st n bl" and "k < n"
  shows "bl ! k < 2 ^ 31" "\<not> in_log st (bl ! k)" "in_log st (lb st k)" "lb st k < 2 ^ 31" "lb st k \<noteq> bl ! k" "lb st k \<noteq> st"
    "st < 2 ^ 31" "in_log st st" "k < length bl" "unat (lb st k) = unat st + k + 1"
proof -
  have k: "bl ! k \<in> set (take n bl)" using assms by (auto simp: log_blocks_def in_set_conv_nth intro!: exI [of _ k])
  have u: "unat (lb st k) = unat st + k + 1" using assms by (intro lb_unat) (auto simp: log_blocks_def)
  then show "unat (lb st k) = unat st + k + 1" .
  show "bl ! k < 2 ^ 31" "\<not> in_log st (bl ! k)" using k assms(1) by (auto simp: log_blocks_def)
  moreover show "in_log st (lb st k)" using u assms by (auto simp: in_log_def log_blocks_def)
  ultimately show "lb st k \<noteq> bl ! k" by auto
  show "lb st k < 2 ^ 31" "st < 2 ^ 31" using u assms by (auto simp: word_less_nat_alt log_blocks_def)
  show "lb st k \<noteq> st" using u by auto
  show "in_log st st" "k < length bl" using assms by (auto simp: in_log_def log_blocks_def)
qed

lemma lb_distinct:
  assumes "log_blocks st n bl"
  shows "distinct (map (lb st) [0..<n])"
proof -
  have "inj_on (lb st) {0..<n}"
  proof (rule inj_onI)
    fix i j assume ij: "i \<in> {0..<n}" "j \<in> {0..<n}" and eq: "lb st i = lb st j"
    have "unat (lb st i) = unat st + i + 1" by (rule log_blocksD(10) [OF assms]) (use ij in simp)
    moreover have "unat (lb st j) = unat st + j + 1" by (rule log_blocksD(10) [OF assms]) (use ij in simp)
    ultimately show "i = j" unfolding eq by linarith
  qed
  then show ?thesis by (simp add: distinct_map)
qed

section \<open>Writing the log\<close>

lemma write_log_view:
  assumes v: "cview dev A z s" and z: "log_dev z = dev" "log_start z = st" "lh_n z = int n"
    and bl: "log_blocks st n (lh_block z)" and A: "a_held A = (\<lambda>_. None)" "\<forall>m. a_rc A m < 2 ^ 32 - 1"
      "\<forall>k<n. 0 < a_rc A (lh_block z ! k)" "\<forall>b\<in>a_dirty A. \<not> in_log st b" and room: "card {n. 0 < a_rc A n} < NBUF"
  shows "\<exists>t. write_log s = Ok () t \<and> cview dev (a_stores (map (\<lambda>k. (lb st k, a_dat A (lh_block z ! k))) [0..<n]) A) z t"
proof -
  let ?A = "\<lambda>i. a_stores (map (\<lambda>k. (lb st k, a_dat A (lh_block z ! k))) [0..<i]) A"
  have "wp (foreach [0..<n] write_log1) (\<lambda>_ t. cview dev (?A (length [0..<n])) z t) s"
  proof (rule wp_foreach [where I = "\<lambda>i t. cview dev (?A i) z t"])
    fix i t assume i: "i < length [0..<n]" and t: "cview dev (?A i) z t"
    then have "i < n" by simp
    note b = log_blocksD [OF bl \<open>i < n\<close>]
    have "lh_block z ! i \<notin> fst ` set (map (\<lambda>k. (lb st k, a_dat A (lh_block z ! k))) [0..<i])"
      using b(2) log_blocksD(3) [OF bl] \<open>i < n\<close> by force
    then have d: "a_dat (?A i) (lh_block z ! i) = a_dat A (lh_block z ! i)" by (simp add: a_stores_sel upds_other)
    have "\<exists>u. write_log1 i t = Ok () u \<and> cview dev (a_store (lb st i) (a_dat (?A i) (lh_block z ! i)) (?A i)) z u"
      by (rule write_log1_view [OF t z(1,2)]) (use b A room \<open>i < n\<close> in \<open>auto simp: a_stores_sel lb_def\<close>)
    then show "wp (write_log1 ([0..<n] ! i)) (\<lambda>_ t. cview dev (?A (Suc i)) z t) t"
      using i unfolding d by (auto simp: wp_iff a_stores_snoc)
  qed (use v in \<open>simp add: a_stores_def\<close>)
  then show ?thesis using z(3) cview_log_sel(1) [OF v] by (auto simp: wp_iff write_log_def kstep)
qed

section \<open>Installing a transaction\<close>

definition a_unpin :: "uint set \<Rightarrow> acache \<Rightarrow> acache" where
  "a_unpin S A = A\<lparr>a_rc := (\<lambda>m. if m \<in> S then a_rc A m - 1 else a_rc A m)\<rparr>"

lemma a_unpin_sel [simp]:
  "a_dat (a_unpin S A) = a_dat A" "a_disk (a_unpin S A) = a_disk A" "a_trace (a_unpin S A) = a_trace A"
  "a_dirty (a_unpin S A) = a_dirty A" "a_held (a_unpin S A) = a_held A"
  by (simp_all add: a_unpin_def)

lemma install_trans_view:
  assumes v: "cview dev A z s" and z: "log_dev z = dev" "log_start z = st" "lh_n z = int n"
    and bl: "log_blocks st n (lh_block z)" and A: "a_held A = (\<lambda>_. None)" "\<forall>m. a_rc A m < 2 ^ 32 - 1"
      "recovering \<or> (\<forall>k<n. 0 < a_rc A (lh_block z ! k))" "\<forall>b\<in>a_dirty A. \<not> in_log st b"
    and room: "card {n. 0 < a_rc A n} < NBUF" "recovering \<Longrightarrow> Suc (card {n. 0 < a_rc A n}) < NBUF"
  shows "\<exists>t. install_trans recovering s = Ok () t \<and>
    cview dev (a_unpin (if recovering then {} else set (take n (lh_block z)))
      (a_stores (map (\<lambda>k. (lh_block z ! k, a_dat A (lb st k))) [0..<n]) A)) z t"
proof -
  let ?ws = "\<lambda>i. map (\<lambda>k. (lh_block z ! k, a_dat A (lb st k))) [0..<i]"
  let ?A = "\<lambda>i. a_unpin (if recovering then {} else set (take i (lh_block z))) (a_stores (?ws i) A)"
  have "wp (foreach [0..<n] (install_trans1 recovering)) (\<lambda>_ t. cview dev (?A (length [0..<n])) z t) s"
  proof (rule wp_foreach [where I = "\<lambda>i t. cview dev (?A i) z t"])
    fix i t assume i': "i < length [0..<n]" and t: "cview dev (?A i) z t"
    then have i: "i < n" by simp
    let ?b = "lh_block z ! i"
    note b = log_blocksD [OF bl i]
    have "?b \<notin> set (take i (lh_block z))"
      using bl i b(9) unfolding log_blocks_def by (auto simp: distinct_conv_nth in_set_conv_nth) 
    then have rcb: "a_rc (?A i) ?b = a_rc A ?b" by (simp add: a_unpin_def a_stores_sel)
    have le: "a_rc (?A i) m \<le> a_rc A m" for m by (simp add: a_unpin_def a_stores_sel)
    then have "{m. 0 < a_rc (?A i) m} \<subseteq> {m. 0 < a_rc A m}" using less_le_trans by blast
    then have card: "card {m. 0 < a_rc (?A i) m} \<le> card {m. 0 < a_rc A m}" by (intro card_mono) auto
    have lt: "a_rc (?A i) m < 2 ^ 32 - 1" for m using le_less_trans [OF le] A(2) by blast
    have "lb st i \<notin> fst ` set (?ws i)" using b(3) log_blocksD(2) [OF bl] i by force
    then have d: "a_dat (?A i) (lb st i) = a_dat A (lb st i)" by (simp add: a_stores_sel upds_other)
    have "\<exists>u. install_trans1 recovering i t = Ok () u \<and>
        cview dev (a_ref ?b (if recovering then a_rc (?A i) ?b else a_rc (?A i) ?b - 1) (a_store ?b (a_dat (?A i) (lb st i)) (?A i))) z u"
    proof (rule install_trans1_view [OF t z(1,2)])
      show "card {n. 0 < a_rc (?A i) n} < NBUF" using card room(1) by simp
      show "0 < a_rc (?A i) ?b \<or> Suc (card {n. 0 < a_rc (?A i) n}) < NBUF" using card room(2) A(3) i rcb by auto
      show "recovering \<or> 0 < a_rc (?A i) ?b" using A(3) i rcb by auto
    qed (use b A(1,4) lt in \<open>auto simp: a_stores_sel lb_def\<close>)
    moreover have "a_ref ?b (if recovering then a_rc (?A i) ?b else a_rc (?A i) ?b - 1) (a_store ?b (a_dat (?A i) (lb st i)) (?A i)) = ?A (Suc i)"
      unfolding d rcb using b(9) by (intro acache.equality ext)
        (auto simp: a_ref_def a_store_def a_unpin_def a_stores_sel upds_append take_Suc_conv_app_nth image_Un)
    ultimately show "wp (install_trans1 recovering ([0..<n] ! i)) (\<lambda>_ t. cview dev (?A (Suc i)) z t) t"
      using i by (auto simp: wp_iff simp del: upt_Suc)
  qed (use v in \<open>simp add: a_stores_def a_unpin_def\<close>)
  then show ?thesis using z(3) cview_log_sel(1) [OF v] by (auto simp: wp_iff install_trans_def kstep)
qed

section \<open>Commit and recovery\<close>

text \<open>The block writes of a commit, in order, and those of a recovery from a disk.\<close>

definition commit_writes :: "uint \<Rightarrow> nat \<Rightarrow> uint list \<Rightarrow> (uint \<Rightarrow> uchar list) \<Rightarrow> (uint \<times> uchar list) list" where
  "commit_writes st n bl f =
     map (\<lambda>k. (lb st k, f (bl ! k))) [0..<n] @ [(st, header (of_nat n) bl (f st) n)] @
     map (\<lambda>k. (bl ! k, f (bl ! k))) [0..<n] @ [(st, header 0 bl (header (of_nat n) bl (f st) n) 0)]"

definition recovery_writes :: "uint \<Rightarrow> nat \<Rightarrow> uint list \<Rightarrow> (uint \<Rightarrow> uchar list) \<Rightarrow> (uint \<times> uchar list) list" where
  "recovery_writes st n bl f = map (\<lambda>k. (bl ! k, f (lb st k))) [0..<n] @ [(st, header 0 bl (f st) 0)]"

lemma header_bound: "n \<le> LOGSIZE \<Longrightarrow> 4 + 4 * n \<le> BSIZE"
  by (simp add: LOGSIZE_def MAXOPBLOCKS_def BSIZE_def)

lemma commit_view:
  assumes v: "cview dev A z s" and z: "log_dev z = dev" "log_start z = st" "lh_n z = int n" and n: "0 < n"
    and bl: "log_blocks st n (lh_block z)" and A: "a_held A = (\<lambda>_. None)" "\<forall>m. a_rc A m < 2 ^ 32 - 1"
      "\<forall>k<n. 0 < a_rc A (lh_block z ! k)" "\<forall>b\<in>a_dirty A. \<not> in_log st b" and room: "card {n. 0 < a_rc A n} < NBUF"
  shows "\<exists>t. commit s = Ok () t \<and>
    cview dev (a_unpin (set (take n (lh_block z))) (a_stores (commit_writes st n (lh_block z) (a_dat A)) A)) (z\<lparr>lh_n := 0\<rparr>) t"
proof -
  let ?bl = "lh_block z"
  note b0 = log_blocksD [OF bl n]
  have st: "st \<notin> fst ` set (map (\<lambda>k. (lb st k, a_dat A (?bl ! k))) [0..<n])" "st \<notin> fst ` set (map (\<lambda>k. (?bl ! k, a_dat A (?bl ! k))) [0..<n])"
    using log_blocksD(2,6,8) [OF bl] by force+
  have nl: "n \<le> LOGSIZE" "n \<le> length ?bl" using bl by (auto simp: log_blocks_def)
  let ?A1 = "a_stores (map (\<lambda>k. (lb st k, a_dat A (?bl ! k))) [0..<n]) A"
  obtain s1 where 1: "write_log s = Ok () s1" "cview dev ?A1 z s1" using write_log_view [OF v z bl A room] by blast
  have d1: "a_dat ?A1 st = a_dat A st" using st(1) by (simp add: a_stores_sel upds_other)
  let ?h = "header (of_nat n) ?bl (a_dat A st) n"
  have ni: "\<forall>b\<in>a_dirty ?A1. \<not> in_log st b" using A(4) by (auto simp: a_stores_sel)
  have p1: "a_held ?A1 = (\<lambda>_. None)" "a_rc ?A1 st < 2 ^ 32 - 1" "card {n. 0 < a_rc ?A1 n} < NBUF" "st \<notin> a_dirty ?A1"
    using A(1,2) room ni b0(8) by (simp_all add: a_stores_sel) blast
  obtain s2 where 2: "write_head s1 = Ok () s2" "cview dev (a_store st ?h ?A1) z s2"
    using write_head_view [OF 1(2) z nl(2) header_bound [OF nl(1)] b0(7) p1] unfolding d1 by blast
  let ?A2 = "a_store st ?h ?A1"
  have e2: "?A2 = a_stores (map (\<lambda>k. (lb st k, a_dat A (?bl ! k))) [0..<n] @ [(st, ?h)]) A" by (simp add: a_stores_snoc)
  have d2: "a_dat ?A2 (lb st k) = a_dat A (?bl ! k)" if "k < n" for k
  proof -
    have "distinct (map fst (map (\<lambda>k. (lb st k, a_dat A (?bl ! k))) [0..<n]))"
      using lb_distinct [OF bl] by (simp add: comp_def)
    then have "upds (a_dat A) (map (\<lambda>k. (lb st k, a_dat A (?bl ! k))) [0..<n]) (lb st k) = a_dat A (?bl ! k)"
      by (rule upds_mem) (use that in auto)
    then show ?thesis using log_blocksD(6) [OF bl that] by (simp add: a_store_def a_stores_sel)
  qed
  then have w2: "map (\<lambda>k. (?bl ! k, a_dat ?A2 (lb st k))) [0..<n] = map (\<lambda>k. (?bl ! k, a_dat A (?bl ! k))) [0..<n]" by simp
  have pre2: "a_held ?A2 = (\<lambda>_. None)" "a_rc ?A2 = a_rc A" "\<forall>b\<in>a_dirty ?A2. \<not> in_log st b"
    using A(1,4) by (auto simp: a_store_def a_stores_sel)
  let ?A3 = "a_unpin (set (take n ?bl)) (a_stores (map (\<lambda>k. (?bl ! k, a_dat A (?bl ! k))) [0..<n]) ?A2)"
  obtain s3 where 3: "install_trans False s2 = Ok () s3" "cview dev ?A3 z s3"
    using install_trans_view [OF 2(2) z bl pre2(1), of False] pre2(2,3) A(2,3) room unfolding w2 by auto
  have d3: "a_dat ?A3 st = ?h" using st(2) by (simp add: a_stores_sel upds_other) (simp add: a_store_def)
  have rc3: "a_rc ?A3 m \<le> a_rc A m" for m using pre2(2) by (simp add: a_unpin_def a_stores_sel)
  then have "{m. 0 < a_rc ?A3 m} \<subseteq> {m. 0 < a_rc A m}" using less_le_trans by blast
  then have card: "card {m. 0 < a_rc ?A3 m} < NBUF" using room card_mono [of "{m. 0 < a_rc A m}"] by (meson finite le_less_trans)
  have pre3: "a_held ?A3 = (\<lambda>_. None)" "a_rc ?A3 st < 2 ^ 32 - 1" "st \<notin> a_dirty ?A3"
    using pre2 le_less_trans [OF rc3] A(2) b0(8) by (auto simp: a_stores_sel)
  have 4: "cview dev ?A3 (z\<lparr>lh_n := int 0\<rparr>) (s3\<lparr>lh_n := 0\<rparr>)" using cview_log(1) [OF 3(2)] by simp
  obtain s5 where 5: "write_head (s3\<lparr>lh_n := 0\<rparr>) = Ok () s5" "cview dev (a_store st (header (of_nat 0) ?bl ?h 0) ?A3) (z\<lparr>lh_n := int 0\<rparr>) s5"
    using write_head_view [OF 4, of st 0] z b0(7) pre3 card d3 by (auto simp: BSIZE_def)
  have "a_store st (header (of_nat 0) ?bl ?h 0) ?A3 = a_unpin (set (take n ?bl)) (a_stores (commit_writes st n ?bl (a_dat A)) A)"
    unfolding e2 commit_writes_def by (intro acache.equality ext) (auto simp: a_store_def a_unpin_def a_stores_sel upds_append image_Un)
  moreover have "commit s = Ok () s5"
    using 1(1) 2(1) 3(1) 5(1) z(3) n cview_log_sel(1) [OF v] by (simp add: commit_def kstep)
  ultimately show ?thesis using 5(2) by auto
qed

lemma recover_view:
  assumes v: "cview dev A z s" and z: "log_dev z = dev" "log_start z = st" "length (lh_block z) = LOGSIZE"
    and n: "n \<le> LOGSIZE" "w32 (a_dat A st) 0 = of_nat n"
    and bl: "bl = map (\<lambda>i. w32 (a_dat A st) (4 + 4 * i)) [0..<n]" "log_blocks st n bl"
    and A: "a_held A = (\<lambda>_. None)" "a_rc A = (\<lambda>_. 0)" "a_dirty A = {}"
  shows "\<exists>t y. recover_from_log s = Ok () t \<and> cview dev (a_stores (recovery_writes st n bl (a_dat A)) A) y t"
proof -
  let ?z = "z\<lparr>lh_n := int n, lh_block := bl @ drop n (lh_block z)\<rparr>"
  have st: "st < 2 ^ 31" using bl(2) by (simp add: log_blocks_def word_less_nat_alt)
  have NB: "card {n. 0 < a_rc A n} < NBUF" "Suc (card {n. 0 < a_rc A n}) < NBUF" using A(2) by (simp_all add: NBUF_def MAXOPBLOCKS_def)
  obtain s1 where 1: "read_head s = Ok () s1" "cview dev A ?z s1"
    using read_head_view [OF v z(1,2) _ header_bound [OF n(1)] st n(2) A(1)] n(1) z(3) A NB unfolding bl(1) by auto
  have bl': "log_blocks st n (lh_block ?z)" "\<And>k. k < n \<Longrightarrow> lh_block ?z ! k = bl ! k"
    using bl by (auto simp: log_blocks_def nth_append)
  then have w: "map (\<lambda>k. (lh_block ?z ! k, a_dat A (lb st k))) [0..<n] = map (\<lambda>k. (bl ! k, a_dat A (lb st k))) [0..<n]" by simp
  let ?A2 = "a_stores (map (\<lambda>k. (bl ! k, a_dat A (lb st k))) [0..<n]) A"
  have un: "a_unpin {} B = B" for B by (simp add: a_unpin_def)
  have "\<exists>t. install_trans True s1 = Ok () t \<and>
    cview dev (a_unpin (if True then {} else set (take n (lh_block ?z))) (a_stores (map (\<lambda>k. (lh_block ?z ! k, a_dat A (lb st k))) [0..<n]) A)) ?z t"
    by (rule install_trans_view [OF 1(2)]) (use z bl'(1) A NB in auto)
  then obtain s2 where 2: "install_trans True s1 = Ok () s2" "cview dev ?A2 ?z s2" unfolding w if_True un by blast
  have 3: "cview dev ?A2 (?z\<lparr>lh_n := int 0\<rparr>) (s2\<lparr>lh_n := 0\<rparr>)" using cview_log(1) [OF 2(2), of 0] by simp
  have "st \<notin> fst ` set (map (\<lambda>k. (bl ! k, a_dat A (lb st k))) [0..<n])" using log_blocksD(2,8) [OF bl(2)] by force
  then have d: "a_dat ?A2 st = a_dat A st" by (simp add: a_stores_sel upds_other)
  obtain s4 where 4: "write_head (s2\<lparr>lh_n := 0\<rparr>) = Ok () s4"
    "cview dev (a_store st (header (of_nat 0) (lh_block (?z\<lparr>lh_n := int 0\<rparr>)) (a_dat A st) 0) ?A2) (?z\<lparr>lh_n := int 0\<rparr>) s4"
    using write_head_view [OF 3, of st 0] z st A NB d by (auto simp: BSIZE_def a_stores_sel)
  have "a_store st (header (of_nat 0) (lh_block (?z\<lparr>lh_n := int 0\<rparr>)) (a_dat A st) 0) ?A2 = a_stores (recovery_writes st n bl (a_dat A)) A"
    by (simp add: recovery_writes_def a_stores_snoc)
  with 4(2) have "cview dev (a_stores (recovery_writes st n bl (a_dat A)) A) (?z\<lparr>lh_n := int 0\<rparr>) s4" by (simp only:)
  moreover have "recover_from_log s = Ok () s4"
    using 1(1) 2(1) 4(1) by (simp add: recover_from_log_def kstep)
  ultimately show ?thesis by blast
qed

section \<open>Crashes\<close>

text \<open>On blocks below \<open>2 ^ 31\<close>, a sequence of writes to sectors is a sequence of writes to blocks.\<close>

lemma upds_secs:
  assumes "\<forall>n<2 ^ 31. d (sector n) = f n" and "\<forall>w\<in>set ws. fst w < 2 ^ 31" and "b < 2 ^ 31"
  shows "upds d (secs ws) (sector b) = upds f ws b"
  using assms
proof (induction ws arbitrary: d f)
  case (Cons w ws)
  obtain k v where w: "w = (k, v)" by (cases w)
  have "\<forall>n<2 ^ 31. (d(sector k := v)) (sector n) = (f(k := v)) n"
  proof (intro allI impI)
    fix n :: uint assume n: "n < 2 ^ 31"
    then show "(d(sector k := v)) (sector n) = (f(k := v)) n"
      using Cons.prems(1,2) sector_inj [of n k] w by (cases "n = k") auto
  qed
  then have "upds (d(sector k := v)) (secs ws) (sector b) = upds (f(k := v)) ws b"
    by (rule Cons.IH) (use Cons.prems in auto)
  then show ?case unfolding w list.map upds.simps prod.case fst_conv snd_conv .
qed simp

lemma upds_cong1: "f b = g b \<Longrightarrow> upds f ws b = upds g ws b"
proof (induction ws arbitrary: f g)
  case (Cons w ws)
  show ?case unfolding upds.simps by (rule Cons.IH) (use Cons.prems in simp)
qed simp

definition committed :: "nat \<Rightarrow> uint list \<Rightarrow> (uint \<Rightarrow> uchar list) \<Rightarrow> (uint \<Rightarrow> uchar list) \<Rightarrow> uint \<Rightarrow> uchar list" where
  "committed n bl f g = upds g (map (\<lambda>k. (bl ! k, f (bl ! k))) [0..<n])"

lemma committed_eq:
  assumes "distinct (take n bl)" "n \<le> length bl"
  shows "committed n bl f g b = (if b \<in> set (take n bl) then f b else g b)"
proof -
  have t: "map ((!) bl) [0..<n] = take n bl" using assms(2) by (intro nth_equalityI) auto
  let ?ws = "map (\<lambda>k. (bl ! k, f (bl ! k))) [0..<n]"
  have f: "map fst ?ws = take n bl" using t by (simp add: comp_def)
  show ?thesis
  proof (cases "b \<in> set (take n bl)")
    case True
    then obtain k where "k < n" "bl ! k = b" unfolding t [symmetric] by auto
    then have "(b, f b) \<in> set ?ws" by auto
    then show ?thesis using True upds_mem [of ?ws b "f b" g] f assms(1) by (simp add: committed_def)
  next
    case False
    then have "b \<notin> fst ` set ?ws" using f by (metis list.set_map)
    then show ?thesis using False by (simp add: committed_def upds_other)
  qed
qed

text \<open>
  A crash after any number of the writes of a commit. With \<open>g\<close> the blocks on disk before, whose header is empty, the
  writes that reached the disk leave a header that recovery can use, and recovery leaves either the old blocks or the
  new ones, all of them, outside the log.
\<close>

lemma crash_blocks:
  assumes bl: "log_blocks st n bl" and g: "length (g st) = BSIZE" "w32 (g st) 0 = 0" "f st = g st"
    and h: "h = upds g (take k (commit_writes st n bl f))"
  shows "\<exists>m cl. m \<le> LOGSIZE \<and> w32 (h st) 0 = of_nat m \<and> cl = map (\<lambda>i. w32 (h st) (4 + 4 * i)) [0..<m] \<and> log_blocks st m cl \<and>
    ((\<forall>b. \<not> in_log st b \<longrightarrow> upds h (recovery_writes st m cl h) b = g b) \<or>
     (\<forall>b. \<not> in_log st b \<longrightarrow> upds h (recovery_writes st m cl h) b = committed n bl f g b))"
proof -
  let ?W1 = "map (\<lambda>k. (lb st k, f (bl ! k))) [0..<n]" and ?W3 = "map (\<lambda>k. (bl ! k, f (bl ! k))) [0..<n]"
  let ?H = "header (of_nat n) bl (f st) n"
  have n: "n \<le> LOGSIZE" "n \<le> length bl" "distinct (take n bl)" and st: "log_blocks st 0 []"
    using bl by (auto simp: log_blocks_def)
  have inst: "in_log st st" by (simp add: in_log_def)
  have k1: "\<forall>b\<in>fst ` set ?W1. in_log st b \<and> b \<noteq> st" using log_blocksD(3,6) [OF bl] by auto
  have k3: "\<forall>b\<in>fst ` set ?W3. \<not> in_log st b" using log_blocksD(2) [OF bl] by auto
  have h0: "w32 (header 0 bl d 0) 0 = 0" "length d = BSIZE \<Longrightarrow> length (header 0 bl d 0) = BSIZE" if "length d = BSIZE" for d
    using header_w32(1,2) [where i = 0 and d = d and v = 0 and bl = bl] that by (auto simp: BSIZE_def)
  have H: "length ?H = BSIZE" "w32 ?H 0 = of_nat n" "map (\<lambda>i. w32 ?H (4 + 4 * i)) [0..<n] = map ((!) bl) [0..<n]"
    using header_w32 [where i = n and d = "f st" and v = "of_nat n" and bl = bl] header_bound [OF n(1)] g(1,3) by auto
  have clean: ?thesis if "w32 (h st) 0 = 0" "\<forall>b. \<not> in_log st b \<longrightarrow> h b = P b" "P = g \<or> P = committed n bl f g" for P
  proof -
    have "upds h (recovery_writes st 0 [] h) b = h b" if "\<not> in_log st b" for b
      using that inst by (auto simp: recovery_writes_def)
    with that st show ?thesis by (intro exI [of _ 0] exI [of _ "[]"]) auto
  qed
  consider "k \<le> n" | "n < k" "k \<le> 2 * n + 1" | "2 * n + 2 \<le> k" by linarith
  then show ?thesis
  proof cases
    case 1
    then have h1: "h = upds g (take k ?W1)" unfolding h commit_writes_def by simp
    have "fst ` set (take k ?W1) \<subseteq> fst ` set ?W1" using set_take_subset [of k ?W1] by blast
    then have "h b = g b" if "\<not> in_log st b \<or> b = st" for b unfolding h1 using that k1 by (intro upds_other) blast
    then show ?thesis using clean [of g] g(2) by simp
  next
    case 2
    define j where "j = k - n - 1"
    have h2: "h = upds (upds g (?W1 @ [(st, ?H)])) (take j ?W3)"
      unfolding h commit_writes_def j_def using 2 by (simp add: upds_append take_Cons')
    have sub: "fst ` set (take j ?W3) \<subseteq> fst ` set ?W3" using set_take_subset [of j ?W3] by blast
    have hin: "h b = upds g (?W1 @ [(st, ?H)]) b" if "in_log st b" for b
      unfolding h2 using that k3 sub by (intro upds_other) blast
    then have hst: "h st = ?H" using inst by (simp add: upds_append)
    have hlb: "h (lb st i) = f (bl ! i)" if "i < n" for i
    proof -
      have "upds g ?W1 (lb st i) = f (bl ! i)"
        by (rule upds_mem) (use that lb_distinct [OF bl] in \<open>auto simp: comp_def\<close>)
      then show ?thesis using hin [of "lb st i"] log_blocksD(3,6) [OF bl that] by (simp add: upds_append)
    qed
    have hout: "h b = g b" if "\<not> in_log st b" "b \<notin> set (take n bl)" for b
    proof -
      have "b \<notin> fst ` set ?W3" using that(2) n(2) by (auto simp: in_set_conv_nth)
      then have "h b = upds g (?W1 @ [(st, ?H)]) b" unfolding h2 using sub by (intro upds_other) blast
      also have "\<dots> = g b" using that(1) k1 inst by (intro upds_other) auto
      finally show ?thesis .
    qed
    define cl where "cl = map ((!) bl) [0..<n]"
    have cl: "cl = take n bl" unfolding cl_def using n(2) by (intro nth_equalityI) auto
    have w: "recovery_writes st n cl h = ?W3 @ [(st, header 0 cl (h st) 0)]"
      using hlb by (simp add: recovery_writes_def cl_def)
    have "upds h (recovery_writes st n cl h) b = committed n bl f g b" if "\<not> in_log st b" for b
    proof -
      have "upds h (recovery_writes st n cl h) b = committed n bl f h b"
        unfolding w committed_def upds_append using that inst by auto
      then show ?thesis using hout [OF that] unfolding committed_eq [OF n(3,2)] by simp
    qed
    moreover have "log_blocks st n cl" using bl n unfolding cl by (simp add: log_blocks_def)
    ultimately show ?thesis using n(1) H(2,3) hst cl_def by (intro exI [of _ n] exI [of _ cl]) simp
  next
    case 3
    let ?Z = "header 0 bl ?H 0"
    have h3: "h = upds (upds (upds g (?W1 @ [(st, ?H)])) ?W3) [(st, ?Z)]"
      unfolding h commit_writes_def using 3 by (simp add: upds_append)
    have "h b = committed n bl f g b" if "\<not> in_log st b" for b
    proof -
      have "upds g (?W1 @ [(st, ?H)]) b = g b" using that k1 inst by (intro upds_other) auto
      then show ?thesis unfolding h3 committed_def using that inst by (auto intro: upds_cong1)
    qed
    moreover have "h st = ?Z" unfolding h3 by simp
    ultimately show ?thesis using clean [of "committed n bl f g"] h0(1) [OF H(1)] by simp
  qed
qed

lemma commit_writes_ok:
  assumes "log_blocks st n bl" and "\<forall>m. length (f m) = BSIZE" and "w \<in> set (commit_writes st n bl f)"
  shows "fst w < 2 ^ 31" "length (snd w) = BSIZE"
proof -
  have n: "4 + 4 * n \<le> BSIZE" using assms(1) by (intro header_bound) (simp add: log_blocks_def)
  have h: "length (header v bl (f st) n) = BSIZE" for v using header_w32(1) [of n "f st" v bl] n assms(2) by simp
  then have "length (header 0 bl (header v bl (f st) n) 0) = BSIZE" for v
    using header_w32(1) [of 0 "header v bl (f st) n" 0 bl] by (simp add: BSIZE_def)
  then show "fst w < 2 ^ 31" "length (snd w) = BSIZE"
    using assms h log_blocksD(1,4) [OF assms(1)] by (auto simp: commit_writes_def log_blocks_def word_less_nat_alt)
qed

lemma recovery_writes_ok:
  assumes "log_blocks st n bl" and "w \<in> set (recovery_writes st n bl f)"
  shows "fst w < 2 ^ 31"
  using assms log_blocksD(1) [OF assms(1)] by (auto simp: recovery_writes_def log_blocks_def word_less_nat_alt)

lemma recovery_writes_cong:
  assumes "log_blocks st n bl" and "\<forall>m<2 ^ 31. f m = g m"
  shows "recovery_writes st n bl f = recovery_writes st n bl g"
  using assms log_blocksD(4) [OF assms(1)] by (auto simp: recovery_writes_def log_blocks_def word_less_nat_alt)

text \<open>Recovery after a crash, in the kernel that boots next: its cache is empty and its log variables are set.\<close>

definition booted :: "uint \<Rightarrow> uint \<Rightarrow> (uint64 \<Rightarrow> uchar list) \<Rightarrow> 'a klog_scheme \<Rightarrow> bool" where
  "booted dev st d u \<longleftrightarrow> bcache_empty u \<and> calm u \<and> log_dev u = dev \<and> log_start u = st \<and> length (lh_block u) = LOGSIZE \<and> disk u = d"

lemma recover_crashed:
  assumes bl: "log_blocks st n bl" and d: "\<forall>a. length (d a) = BSIZE" "w32 (d (sector st)) 0 = 0" and dev: "dev \<noteq> 0"
    and f: "\<forall>m. length (f m) = BSIZE" "f st = d (sector st)"
    and u: "booted dev st (upds d (take k (secs (commit_writes st n bl f)))) u"
  shows "\<exists>w. recover_from_log u = Ok () w \<and>
    ((\<forall>b<2 ^ 31. \<not> in_log st b \<longrightarrow> disk w (sector b) = d (sector b)) \<or>
     (\<forall>b<2 ^ 31. \<not> in_log st b \<longrightarrow> disk w (sector b) = committed n bl f (\<lambda>n. d (sector n)) b))"
proof -
  let ?W = "commit_writes st n bl f" and ?g = "\<lambda>n. d (sector n)"
  define h where "h = upds ?g (take k ?W)"
  have u': "bcache_empty u" "calm u" "log_dev u = dev" "log_start u = st" "length (lh_block u) = LOGSIZE"
    "disk u = upds d (secs (take k ?W))" using u by (simp_all add: booted_def take_map)
  have kW: "\<forall>w\<in>set (take k ?W). fst w < 2 ^ 31" "\<forall>w\<in>set (secs (take k ?W)). length (snd w) = BSIZE"
    using commit_writes_ok [OF bl f(1)] set_take_subset [of k ?W] by fastforce+
  have hd: "disk u (sector b) = h b" if "b < 2 ^ 31" for b
    unfolding u'(6) h_def by (rule upds_secs) (use kW that in auto)
  have len: "\<forall>a. length (disk u a) = BSIZE" unfolding u'(6) using upds_length [OF d(1) kW(2)] by blast
  obtain m cl where m: "m \<le> LOGSIZE" "w32 (h st) 0 = of_nat m" "cl = map (\<lambda>i. w32 (h st) (4 + 4 * i)) [0..<m]" "log_blocks st m cl"
    and res: "(\<forall>b. \<not> in_log st b \<longrightarrow> upds h (recovery_writes st m cl h) b = ?g b) \<or>
     (\<forall>b. \<not> in_log st b \<longrightarrow> upds h (recovery_writes st m cl h) b = committed n bl f ?g b)"
    using crash_blocks [OF bl, where g = ?g and f = f and h = h and k = k] d f(2) h_def by blast
  let ?A = "a_empty (disk u) (dtrace u)"
  have st: "st < 2 ^ 31" using bl by (simp add: log_blocks_def word_less_nat_alt)
  have A: "a_dat ?A = (\<lambda>n. disk u (sector n))" "a_held ?A = (\<lambda>_. None)" "a_rc ?A = (\<lambda>_. 0)" "a_dirty ?A = {}" "a_disk ?A = disk u"
    by (simp_all add: a_empty_def)
  have "cview dev ?A (strip u) u" by (rule cview_empty [OF u'(1,2) dev len])
  from recover_view [OF this, of st m cl] u' m A hd [OF st] cview_log_sel [OF this] obtain w y where
    w: "recover_from_log u = Ok () w" "cview dev (a_stores (recovery_writes st m cl (a_dat ?A)) ?A) y w" by auto
  have rw: "recovery_writes st m cl (a_dat ?A) = recovery_writes st m cl h"
    by (rule recovery_writes_cong [OF m(4)]) (simp add: A hd)
  have "disk w = upds (disk u) (secs (recovery_writes st m cl h))"
    using cviewD(6) [OF w(2)] by (simp add: a_stores_sel A(5) rw)
  then have "disk w (sector b) = upds h (recovery_writes st m cl h) b" if "b < 2 ^ 31" for b
    using upds_secs [of "disk u" h "recovery_writes st m cl h" b] hd recovery_writes_ok [OF m(4)] that by auto
  with w(1) res show ?thesis by auto
qed

end
