(* ===== verification/Crash.thy ===== *)
theory Crash
  imports Log_Proofs
begin

text \<open>
  Transactions: \<^verbatim>\<open>begin_op\<close>, \<^verbatim>\<open>log_write\<close> and \<^verbatim>\<open>end_op\<close> of \<^verbatim>\<open>kernel/log.c\<close>. A transaction reaches the disk as a whole or not at
  all, whenever the machine stops; and the space that \<^verbatim>\<open>begin_op\<close> reserves is compared with the space that \<^verbatim>\<open>log_write\<close>
  insists on.
\<close>

lemma klog_const_get [kframe]:
  "log_size (lock_st l s) = log_size s" "log_start (lock_st l s) = log_start s" "log_dev (lock_st l s) = log_dev s"
  by (simp_all add: lock_st_def push_st_def)

section \<open>Recording a block in the transaction\<close>

lemma absorb_eq:
  assumes "i + k \<le> length bl"
  shows "absorb bl b i k = (case find (\<lambda>j. bl ! j = b) [i..<i + k] of None \<Rightarrow> i + k | Some j \<Rightarrow> j)"
  using assms
proof (induction k arbitrary: i)
  case (Suc k)
  have "[i..<i + Suc k] = i # [Suc i..<Suc i + k]" by (simp add: upt_conv_Cons del: upt_Suc)
  then show ?case using Suc.IH [of "Suc i"] Suc.prems by (simp del: upt_Suc split: option.split)
qed simp

lemma absorb_mem:
  assumes "n \<le> length bl"
  shows "b \<notin> set (take n bl) \<Longrightarrow> absorb bl b 0 n = n"
    and "b \<in> set (take n bl) \<Longrightarrow> absorb bl b 0 n < n \<and> bl ! absorb bl b 0 n = b"
proof -
  have e: "absorb bl b 0 n = (case find (\<lambda>j. bl ! j = b) [0..<n] of None \<Rightarrow> n | Some j \<Rightarrow> j)"
    using absorb_eq [of 0 n bl b] assms by (simp split: option.split)
  have m: "b \<in> set (take n bl) \<longleftrightarrow> (\<exists>j<n. bl ! j = b)" using assms by (auto simp: in_set_conv_nth)
  show "b \<notin> set (take n bl) \<Longrightarrow> absorb bl b 0 n = n" using e m by (auto split: option.splits simp: find_Some_iff)
  show "b \<in> set (take n bl) \<Longrightarrow> absorb bl b 0 n < n \<and> bl ! absorb bl b 0 n = b"
    using e m by (auto split: option.splits simp: find_Some_iff find_None_iff)
qed

text \<open>
  \<^verbatim>\<open>log_write\<close> of a held buffer: a block already in the transaction is absorbed; a new one is added at the end and
  its buffer is pinned.
\<close>

lemma log_write_view:
  assumes v: "cview dev A z s" and b: "a_held A b = Some m" and rc: "a_rc A m < 2 ^ 32 - 1"
    and z: "lh_n z = int n" "n < length (lh_block z)" "length (lh_block z) = LOGSIZE" "int n < log_size z - 1" "1 \<le> log_outstanding z"
  shows "\<exists>t. log_write b s = Ok () t \<and>
    (if m \<in> set (take n (lh_block z)) then cview dev A z t
     else cview dev (a_ref m (a_rc A m + 1) A) (z\<lparr>lh_block := (lh_block z)[n := m], lh_n := int n + 1\<rparr>) t)"
proof -
  note f = cview_log_sel [OF v] and c = calmD(1,3) [OF cviewD(1) [OF v]] and h = held_buf [OF v b]
  let ?i = "absorb (lh_block z) m 0 n"
  have pre: "\<not> (int LOGSIZE \<le> lh_n s \<or> log_size s - 1 \<le> lh_n s)" "\<not> log_outstanding s < 1"
    using z f by auto
  have i: "?i < length (lh_block z)" using absorb_mem [of n "lh_block z" m] z(2) by (cases "m \<in> set (take n (lh_block z))") auto
  show ?thesis
  proof (cases "m \<in> set (take n (lh_block z))")
    case True
    then have a: "?i < n" "lh_block z ! ?i = m" using absorb_mem(2) [of n "lh_block z" m] z(2) by auto
    then have "(lh_block z)[?i := m] = lh_block z" by (metis list_update_id)
    then have "log_write b s = Ok () s"
      using pre c a(1) i z(1) f h(4) by (simp add: log_write_def upd_lh_block_def kstep kframe Let_def)
    with True v show ?thesis by auto
  next
    case False
    then have a: "?i = n" using absorb_mem(1) [of n "lh_block z" m] z(2) by auto
    let ?bf = "(bufs s b)\<lparr>b_refcnt := b_refcnt (bufs s b) + 1\<rparr>"
    let ?t = "s\<lparr>bufs := (bufs s)(b := ?bf), lh_block := (lh_block z)[n := m], lh_n := int n + 1\<rparr>"
    have k: "b_refcnt (bufs s b) + 1 = of_nat (a_rc A m + 1)" using refcnt_of_nat [OF v b] by simp
    have "log_write b s = Ok () (s\<lparr>lh_block := (lh_block z)[n := m], bufs := (bufs s)(b := ?bf), lh_n := int n + 1\<rparr>)"
      using pre c a i z(1,2) f h(4) by (simp add: log_write_def upd_lh_block_def bpin_def kstep kframe Let_def)
    moreover have "s\<lparr>lh_block := (lh_block z)[n := m], bufs := (bufs s)(b := ?bf), lh_n := int n + 1\<rparr> = ?t" by simp
    moreover have "cview dev (a_ref m (a_rc A m + 1) A) (z\<lparr>lh_block := (lh_block z)[n := m], lh_n := int n + 1\<rparr>) ?t"
      unfolding k by (intro cview_log ref_view [OF v b]) (use rc in auto)
    ultimately show ?thesis using False by auto
  qed
qed

section \<open>Beginning an operation\<close>

text \<open>
  The space reserved in the log: \<^verbatim>\<open>begin_op\<close> lets an operation start only when it and the operations under way can each
  add \<^verbatim>\<open>MAXOPBLOCKS\<close> blocks to what the log holds already; otherwise it sleeps.
\<close>

definition log_space :: "'a klog_scheme \<Rightarrow> bool" where
  "log_space s \<longleftrightarrow> lh_n s + log_outstanding s * int MAXOPBLOCKS \<le> int LOGSIZE"

lemma begin_op_step:
  assumes "calm s" and "\<not> log_committing s" "lh_n s + (log_outstanding s + 1) * int MAXOPBLOCKS \<le> int LOGSIZE"
  shows "begin_op s = Ok () (s\<lparr>log_outstanding := log_outstanding s + 1\<rparr>)"
  using calmD(1,3) [OF assms(1)] assms(2,3) by (simp add: begin_op_def begin_op_loop_def kstep kframe)

section \<open>Transactions are atomic\<close>

text \<open>
  \<open>txn_ready A s\<close>: no operation is using a buffer, and the in-memory header lists blocks that are pinned in the cache
  with the contents \<open>a_dat A\<close>; they are outside the log, and the header on disk is empty.
\<close>

definition txn_ready :: "acache \<Rightarrow> 'a klog_scheme \<Rightarrow> bool" where
  "txn_ready A s \<longleftrightarrow> cview (log_dev s) A (strip s) s \<and> 0 < lh_n s \<and> log_blocks (log_start s) (nat (lh_n s)) (lh_block s) \<and>
     a_held A = (\<lambda>_. None) \<and> (\<forall>m. a_rc A m < 2 ^ 32 - 1) \<and> (\<forall>k<nat (lh_n s). 0 < a_rc A (lh_block s ! k)) \<and>
     (\<forall>b\<in>a_dirty A. \<not> in_log (log_start s) b) \<and> card {n. 0 < a_rc A n} < NBUF \<and>
     (\<forall>a. length (disk s a) = BSIZE) \<and> w32 (disk s (sector (log_start s))) 0 = 0"

lemma end_op_commits:
  assumes "calm s" "log_outstanding s = 1" "\<not> log_committing s" "calm t"
    and "commit (s\<lparr>log_outstanding := 0, log_committing := True\<rparr>) = Ok () t"
  shows "end_op s = Ok () (wake_st ChLog (t\<lparr>log_committing := False\<rparr>))"
  using calmD(1,3) [OF assms(1)] calmD(1,3,4) [OF assms(4)] assms(2,3,5) by (simp add: end_op_def kstep kframe)

lemma end_op_txn:
  assumes r: "txn_ready A s" and o: "log_outstanding s = 1" "\<not> log_committing s"
  shows "\<exists>t. end_op s = Ok () t \<and> lh_n t = 0 \<and>
    disk t = upds (disk s) (secs (commit_writes (log_start s) (nat (lh_n s)) (lh_block s) (a_dat A))) \<and>
    dtrace t = dtrace s @ secs (commit_writes (log_start s) (nat (lh_n s)) (lh_block s) (a_dat A))"
proof -
  let ?n = "nat (lh_n s)" and ?u = "s\<lparr>log_outstanding := 0, log_committing := True\<rparr>"
  let ?W = "commit_writes (log_start s) ?n (lh_block s) (a_dat A)"
  have v: "cview (log_dev s) A ((strip s)\<lparr>log_outstanding := 0, log_committing := True\<rparr>) ?u"
    using r by (intro cview_log) (simp add: txn_ready_def)
  note z = cview_log_sel [OF v, symmetric]
  have "\<exists>t. commit ?u = Ok () t \<and> cview (log_dev s) (a_unpin (set (take ?n (lh_block s))) (a_stores ?W A)) ((strip s)\<lparr>log_outstanding := 0, log_committing := True, lh_n := 0\<rparr>) t"
    using commit_view [OF v, of "log_start s" ?n] r unfolding z by (simp add: txn_ready_def)
  then obtain t where t: "commit ?u = Ok () t"
    "cview (log_dev s) (a_unpin (set (take ?n (lh_block s))) (a_stores ?W A)) ((strip s)\<lparr>log_outstanding := 0, log_committing := True, lh_n := 0\<rparr>) t" by blast
  have s: "cview (log_dev s) A (strip s) s" using r by (simp add: txn_ready_def)
  have "end_op s = Ok () (wake_st ChLog (t\<lparr>log_committing := False\<rparr>))"
    by (rule end_op_commits [OF cviewD(1) [OF s] o cviewD(1) [OF t(2)] t(1)])
  then show ?thesis
    using cviewD(6,7) [OF t(2)] cview_log_sel(1) [OF t(2)] cviewD(6,7) [OF s] by (simp add: kframe a_stores_sel)
qed


text \<open>
  Such a state arises when the running process, on an empty cache and a disk of zeros with its log at block 2, begins an
  operation, changes the first byte of block 46, logs the block and releases it.
\<close>

lemma klog_const_keep [kframe]:
  "calm (s\<lparr>log_dev := d\<rparr>) = calm s" "calm (s\<lparr>log_start := st\<rparr>) = calm s" "calm (s\<lparr>log_size := n\<rparr>) = calm s"
  by (simp_all add: calm_def base_ok_def lk_free_def curproc_def)

definition fresh :: "(nat \<Rightarrow> buf) \<Rightarrow> ktrap" where
  "fresh B = running\<lparr>log_dev := 1, log_start := 2, log_size := 30, lh_n := 0, lh_block := replicate LOGSIZE 0, log_outstanding := 0, log_committing := False, bufs := B\<rparr>"

lemma fresh_empty: "\<exists>B. bcache_empty (fresh B)"
proof -
  obtain B L K where "bcache_empty (running\<lparr>bufs := B, locks := L, slocks := K\<rparr>)"
    using binit_empty [of running] by auto
  then have "bcache_empty (fresh B)" by (simp add: bcache_empty_def fresh_def zero_sleeplock_def)
  then show ?thesis by blast
qed

lemma fresh_sel:
  "log_dev (fresh B) = 1" "log_start (fresh B) = 2" "log_size (fresh B) = 30" "lh_n (fresh B) = 0" "lh_block (fresh B) = replicate LOGSIZE 0"
  "log_outstanding (fresh B) = 0" "\<not> log_committing (fresh B)" "disk (fresh B) = (\<lambda>_. replicate BSIZE 0)" "dtrace (fresh B) = []" "calm (fresh B)"
  by (simp_all add: fresh_def kframe)

lemma example_txn:
  "\<exists>A s :: ktrap. txn_ready A s \<and> log_outstanding s = 1 \<and> \<not> log_committing s \<and> log_start s = 2 \<and> lh_n s = 1 \<and>
     lh_block s ! 0 = 46 \<and> hd (a_dat A 46) = 7"
proof -
  obtain B where B: "bcache_empty (fresh B)" using fresh_empty by blast
  let ?E = "a_empty (\<lambda>_. replicate BSIZE 0) []" and ?y = "strip (fresh B)" 
  let ?z = "?y\<lparr>log_outstanding := 1\<rparr>"
  have "cview 1 ?E ?y (fresh B)" using cview_empty [OF B, of 1] by (simp add: fresh_sel)
  then have 1: "cview 1 ?E ?z ((fresh B)\<lparr>log_outstanding := 1\<rparr>)" by (rule cview_log(3))
  have z: "lh_n ?z = 0" "lh_block ?z = replicate LOGSIZE 0" "log_size ?z = 30" "log_outstanding ?z = 1" "log_start ?z = 2" "log_dev ?z = 1"
    "\<not> log_committing ?z" using cview_log_sel [OF 1] by (simp_all add: fresh_sel)
  obtain b t where 2: "cview 1 (a_take b 46 ?E) ?z t"
    using bread_view [OF 1, of 46] by (auto simp: a_empty_def NBUF_def MAXOPBLOCKS_def)
  let ?A1 = "a_take b 46 ?E"
  have h: "a_held ?A1 b = Some 46" "a_rc ?A1 = (\<lambda>_. 0)(46 := 1)" by (simp_all add: a_take_def a_empty_def)
  let ?A2 = "a_put 46 0 [7] ?A1"
  obtain u where 3: "cview 1 ?A2 ?z u" using put_bytes_view [OF 2 h(1), of 0 "[7]"] by (auto simp: BSIZE_def)
  have h2: "a_held ?A2 b = Some 46" "a_rc ?A2 = (\<lambda>_. 0)(46 := 1)" using h by (simp_all add: a_put_def)
  let ?A3 = "a_ref 46 (Suc (Suc 0)) ?A2" and ?z3 = "?z\<lparr>lh_block := (replicate LOGSIZE 0)[0 := 46], lh_n := 1\<rparr>"
  obtain w where 4: "cview 1 ?A3 ?z3 w"
    using log_write_view [OF 3 h2(1), of 0] h2(2) z by (auto simp: LOGSIZE_def MAXOPBLOCKS_def)
  have h3: "a_held ?A3 b = Some 46" "1 < a_rc ?A3 46" using h2 by (simp_all add: a_ref_def)
  let ?A4 = "a_drop b 46 ?A3"
  obtain x where 5: "cview 1 ?A4 ?z3 x" using brelse_view [OF 4 h3(1)] h3(2) by blast
  have A4: "a_held ?A4 = (\<lambda>_. None)" "a_rc ?A4 = (\<lambda>_. 0)(46 := 1)" "a_dirty ?A4 = {46}" "a_disk ?A4 = (\<lambda>_. replicate BSIZE 0)"
    "hd (a_dat ?A4 46) = 7"
    by (auto simp: a_drop_def a_ref_def a_put_def a_take_def a_empty_def fun_eq_iff splice_def)
  have x: "log_dev x = 1" "log_start x = 2" "lh_n x = 1" "lh_block x = (replicate LOGSIZE 0)[0 := 46]" "log_outstanding x = 1" "\<not> log_committing x"
    using cview_log_sel [OF 5] z by simp_all
  have "take 1 ((replicate LOGSIZE 0)[0 := 46]) = [46 :: uint]" by (simp add: LOGSIZE_def MAXOPBLOCKS_def eval_nat_numeral)
  then have bl: "log_blocks 2 1 ((replicate LOGSIZE 0)[0 := 46])"
    by (simp add: log_blocks_def LOGSIZE_def MAXOPBLOCKS_def in_log_def)
  have "{n. 0 < (((\<lambda>_. 0)(46 := 1)) :: uint \<Rightarrow> nat) n} = {46}" by auto
  then have "txn_ready ?A4 x"
    using 5 cviewD(6,11) [OF 5] bl unfolding txn_ready_def x A4 by (auto simp: in_log_def LOGSIZE_def MAXOPBLOCKS_def NBUF_def w32_def le32_def BSIZE_def)
  with x A4(5) show ?thesis by (intro exI [of _ ?A4] exI [of _ x]) (simp add: LOGSIZE_def MAXOPBLOCKS_def)
qed


section \<open>The space in the log\<close>

text \<open>
  C24: \<^verbatim>\<open>log_write\<close> on every branch. It panics exactly when the transaction already has as many blocks as the header, or the
  log area behind the header, can hold, or when no operation has begun; otherwise a block that is already in the
  transaction changes nothing, and a new one goes to the end of the header's list and its buffer is pinned.
\<close>

theorem log_write_cases:
  assumes "calm s" and "lh_n s = int n" and "length (lh_block s) = LOGSIZE"
  shows "log_write b s =
    (if LOGSIZE \<le> n \<or> log_size s - 1 \<le> int n then Panic ''too big a transaction''
     else if log_outstanding s < 1 then Panic ''log_write outside of trans''
     else if b_blockno (bufs s b) \<in> set (take n (lh_block s)) then Ok () s
     else Ok () (s\<lparr>lh_block := (lh_block s)[n := b_blockno (bufs s b)], lh_n := int n + 1,
                   bufs := (bufs s)(b := (bufs s b)\<lparr>b_refcnt := b_refcnt (bufs s b) + 1\<rparr>)\<rparr>))"
proof -
  note c = calmD(1,3) [OF assms(1)]
  let ?m = "b_blockno (bufs s b)" and ?bl = "lh_block s"
  let ?bf = "(bufs s b)\<lparr>b_refcnt := b_refcnt (bufs s b) + 1\<rparr>"
  consider (full) "LOGSIZE \<le> n \<or> log_size s - 1 \<le> int n" | (out) "\<not> (LOGSIZE \<le> n \<or> log_size s - 1 \<le> int n)" "log_outstanding s < 1"
    | (go) "\<not> (LOGSIZE \<le> n \<or> log_size s - 1 \<le> int n)" "\<not> log_outstanding s < 1" by blast
  then show ?thesis
  proof cases
    case full
    then show ?thesis using c assms(2) by (simp add: log_write_def kstep kframe)
  next
    case out
    then show ?thesis using c assms(2) by (simp add: log_write_def kstep kframe)
  next
    case go
    have n: "n < length ?bl" using go assms(3) by simp
    show ?thesis
    proof (cases "?m \<in> set (take n ?bl)")
      case True
      then have a: "absorb ?bl ?m 0 n < n" "?bl ! absorb ?bl ?m 0 n = ?m" using absorb_mem(2) [of n ?bl ?m] n by auto
      then have "?bl[absorb ?bl ?m 0 n := ?m] = ?bl" by (metis list_update_id)
      then show ?thesis
        using True go c a(1) n assms(2) by (simp add: log_write_def upd_lh_block_def kstep kframe Let_def)
    next
      case False
      then have a: "absorb ?bl ?m 0 n = n" using absorb_mem(1) [of n ?bl ?m] n by auto
      have "s\<lparr>lh_block := L, bufs := B, lh_n := k\<rparr> = s\<lparr>lh_block := L, lh_n := k, bufs := B\<rparr>" for L B k by simp
      then show ?thesis
        using False go c a n assms(2) by (simp add: log_write_def upd_lh_block_def bpin_def kstep kframe Let_def)
    qed
  qed
qed

theorem log_write_cases_witness:
  "log_write 3 ((fresh (\<lambda>_. zero_buf))\<lparr>lh_n := 29, log_outstanding := 3\<rparr>) = Panic ''too big a transaction''"
proof -
  let ?s = "(fresh (\<lambda>_. zero_buf))\<lparr>lh_n := int 29, log_outstanding := 3\<rparr>"
  have "calm ?s" "lh_n ?s = int 29" "length (lh_block ?s) = LOGSIZE" by (simp_all add: fresh_sel kframe)
  from log_write_cases [OF this, of 3] show ?thesis by (simp add: fresh_sel)
qed

text \<open>
  C25: \<^verbatim>\<open>begin_op\<close> reserves more than the log holds. On a log of \<^verbatim>\<open>LOGSIZE\<close> blocks, which is what \<^verbatim>\<open>mkfs\<close> makes, an operation is
  admitted as the third one, and the transaction may then grow to \<^verbatim>\<open>LOGSIZE\<close> blocks within the reservation; but
  \<^verbatim>\<open>log_write\<close> panics at the block numbered 29, counted from 0, because one block of the log is the header.
\<close>

theorem begin_op_overcommits:
  assumes "calm s" "\<not> log_committing s" "lh_n s = 0" "log_outstanding s = 2" "log_size s = int LOGSIZE" "length (lh_block s) = LOGSIZE"
  shows "\<exists>t. begin_op s = Ok () t \<and> log_space t \<and> lh_n t + log_outstanding t * int MAXOPBLOCKS = int LOGSIZE \<and>
    log_write b (t\<lparr>lh_n := int LOGSIZE - 1\<rparr>) = Panic ''too big a transaction''"
proof -
  let ?t = "s\<lparr>log_outstanding := log_outstanding s + 1\<rparr>"
  have "begin_op s = Ok () ?t" using assms by (intro begin_op_step) (simp_all add: LOGSIZE_def)
  moreover have "log_write b (?t\<lparr>lh_n := int LOGSIZE - 1\<rparr>) = Panic ''too big a transaction''"
    using calmD(1,3) [OF assms(1)] assms(5) by (simp add: log_write_def kstep kframe)
  ultimately show ?thesis using assms(3,4) by (intro exI [of _ ?t]) (simp add: log_space_def LOGSIZE_def)
qed

theorem begin_op_overcommits_witness:
  "\<exists>t. begin_op ((fresh (\<lambda>_. zero_buf))\<lparr>log_outstanding := 2\<rparr>) = Ok () t \<and>
     log_write 0 (t\<lparr>lh_n := int LOGSIZE - 1\<rparr>) = Panic ''too big a transaction''"
proof -
  let ?s = "(fresh (\<lambda>_. zero_buf))\<lparr>log_outstanding := 2\<rparr>"
  have "calm ?s" "\<not> log_committing ?s" "lh_n ?s = 0" "log_outstanding ?s = 2" "log_size ?s = int LOGSIZE" "length (lh_block ?s) = LOGSIZE"
    by (simp_all add: fresh_sel kframe LOGSIZE_def MAXOPBLOCKS_def)
  from begin_op_overcommits [OF this, of 0] show ?thesis by blast
qed

end
