(* ===== verification/Bcache_Props.thy ===== *)
theory Bcache_Props
  imports Crash
begin

text \<open>
  What the buffer cache of \<^verbatim>\<open>kernel/bio.c\<close> promises: an update of a block reaches the disk and disturbs nothing else, the
  least recently used free buffer is the one that is recycled, and no block is ever cached twice.
\<close>

section \<open>The cache as its users see it\<close>

text \<open>
  C4: reading, changing, writing and releasing a block through the buffer cache. In any state that the abstract cache
  \<open>A\<close> describes, with a buffer to spare, \<^verbatim>\<open>bread\<close> returns a locked buffer that no one else holds with the current
  contents of the block; after \<^verbatim>\<open>bwrite\<close> and \<^verbatim>\<open>brelse\<close> the block and the disk have the new contents, exactly one write has been
  made, every other block, every other buffer held and every reference count is as before, and so is the rest of
  the kernel's state.
\<close>

theorem bcache_update:
  assumes v: "cview dev A z s" and n: "n < 2 ^ 31" "a_rc A n < 2 ^ 32 - 1" "n \<notin> ran (a_held A)" "n \<notin> a_dirty A"
    and room: "0 < a_rc A n \<or> card {n. 0 < a_rc A n} < NBUF" and o': "o' + length bs \<le> BSIZE"
  shows "\<exists>b t u w x. bread dev n s = Ok b t \<and> a_held A b = None \<and> b_data (bufs t b) = a_dat A n \<and>
    put_bytes b o' bs t = Ok () u \<and> bwrite b u = Ok () w \<and> brelse b w = Ok () x \<and>
    disk x = (disk s)(sector n := splice (a_dat A n) o' bs) \<and> dtrace x = dtrace s @ [(sector n, splice (a_dat A n) o' bs)] \<and>
    cview dev (A\<lparr>a_dat := (a_dat A)(n := splice (a_dat A n) o' bs), a_disk := disk x, a_trace := dtrace x\<rparr>) z x"
proof -
  let ?d = "splice (a_dat A n) o' bs"
  obtain b t where 1: "bread dev n s = Ok b t" "a_held A b = None" "cview dev (a_take b n A) z t"
    using bread_view [OF v n(1-3) room] by blast
  have h1: "a_held (a_take b n A) b = Some n" by (simp add: a_take_def)
  obtain u where 2: "put_bytes b o' bs t = Ok () u" "cview dev (a_put n o' bs (a_take b n A)) z u"
    using put_bytes_view [OF 1(3) h1 o'] by blast
  have h2: "a_held (a_put n o' bs (a_take b n A)) b = Some n" using h1 by (simp add: a_put_def)
  obtain w where 3: "bwrite b u = Ok () w" "cview dev (a_flush n (a_put n o' bs (a_take b n A))) z w"
    using bwrite_view [OF 2(2) h2] by blast
  obtain x where 4: "brelse b w = Ok () x" "cview dev (a_drop b n (a_flush n (a_put n o' bs (a_take b n A)))) z x"
    using brelse_view [OF 3(2), of b n] h2 by (auto simp: a_flush_def)
  have A: "a_drop b n (a_flush n (a_put n o' bs (a_take b n A))) =
      A\<lparr>a_dat := (a_dat A)(n := ?d), a_disk := (a_disk A)(sector n := ?d), a_trace := a_trace A @ [(sector n, ?d)]\<rparr>"
    using 1(2) n(4) by (intro acache.equality ext) (auto simp: a_drop_def a_flush_def a_put_def a_take_def)
  have "disk x = (disk s)(sector n := ?d)" "dtrace x = dtrace s @ [(sector n, ?d)]"
    using cviewD(6,7) [OF 4(2)] cviewD(6,7) [OF v] unfolding A by simp_all
  moreover have "cview dev (A\<lparr>a_dat := (a_dat A)(n := ?d), a_disk := disk x, a_trace := dtrace x\<rparr>) z x"
    using 4(2) cviewD(6,7) [OF 4(2)] unfolding A by simp
  moreover have "b_data (bufs t b) = a_dat A n" using held_buf(3) [OF 1(3) h1] by (simp add: a_take_def)
  ultimately show ?thesis using 1(1,2) 2(1) 3(1) 4(1) by blast
qed

theorem bcache_update_witness:
  "\<exists>B b t u w x. bread 1 9 (fresh B) = Ok b t \<and> put_bytes b 0 [7] t = Ok () u \<and> bwrite b u = Ok () w \<and> brelse b w = Ok () x \<and>
     disk x = (disk (fresh B))(sector 9 := 7 # replicate 1023 0)"
proof -
  obtain B where B: "bcache_empty (fresh B)" using fresh_empty by blast
  let ?E = "a_empty (\<lambda>_. replicate BSIZE 0) []"
  have "cview 1 ?E (strip (fresh B)) (fresh B)" using cview_empty [OF B, of 1] by (simp add: fresh_sel)
  moreover have "splice (a_dat ?E 9) 0 [7] = 7 # replicate 1023 0" by (simp add: a_empty_def splice_def BSIZE_def)
  ultimately obtain b t u w x where "bread 1 9 (fresh B) = Ok b t" "put_bytes b 0 [7] t = Ok () u" "bwrite b u = Ok () w"
      "brelse b w = Ok () x" "disk x = (disk (fresh B))(sector 9 := 7 # replicate 1023 0)"
    using bcache_update [of 1 ?E "strip (fresh B)" "fresh B" 9 0 "[7]"]
    by (auto simp: a_empty_def BSIZE_def NBUF_def MAXOPBLOCKS_def)
  then show ?thesis by blast
qed

section \<open>Recycling\<close>

lemma find_filter: "find P xs = (case filter P xs of [] \<Rightarrow> None | y # ys \<Rightarrow> Some y)"
  by (induction xs) auto

lemma bget_calm:
  assumes "calm s" and "lru (bufs s) l"
  shows "bget dev n s =
    (case find (\<lambda>i. b_dev (bufs s i) = dev \<and> b_blockno (bufs s i) = n) l of
       Some b \<Rightarrow> thn (acquiresleep (SlBuf b)) (ret b) (s\<lparr>bufs := (bufs s)(b := (bufs s b)\<lparr>b_refcnt := b_refcnt (bufs s b) + 1\<rparr>)\<rparr>)
     | None \<Rightarrow> (case find (\<lambda>i. b_refcnt (bufs s i) = 0) (rev l) of
         Some b \<Rightarrow> thn (acquiresleep (SlBuf b)) (ret b)
           (s\<lparr>bufs := (bufs s)(b := (bufs s b)\<lparr>b_dev := dev, b_blockno := n, b_valid := False, b_refcnt := 1\<rparr>)\<rparr>)
       | None \<Rightarrow> Panic ''bget: no buffers''))"
  using calmD(1,3) [OF assms(1)] bscan_lru [of "lock_st LkBcache s" l, unfolded kbio_get, OF assms(2)]
  by (simp add: bget_def kstep kframe del: bscan.simps split: option.split)

text \<open>
  C23: \<^verbatim>\<open>bget\<close> of a block that is not cached takes the least recently used buffer that no one refers to, and gives it the
  block's identity with its contents marked invalid; when every buffer is referred to, and only then, it panics.
\<close>

theorem bget_recycles:
  assumes "calm s" and "lru (bufs s) l" and "\<forall>i<NBUF. \<not> (b_dev (bufs s i) = dev \<and> b_blockno (bufs s i) = n)"
    and "\<forall>i<NBUF. b_refcnt (bufs s i) = 0 \<longrightarrow> \<not> sl_locked (slocks s (SlBuf i))"
  shows "bget dev n s = (case filter (\<lambda>i. b_refcnt (bufs s i) = 0) l of
      [] \<Rightarrow> Panic ''bget: no buffers''
    | f # fs \<Rightarrow> let b = last (f # fs) in
        Ok b (slock_st (SlBuf b) (s\<lparr>bufs := (bufs s)(b := (bufs s b)\<lparr>b_dev := dev, b_blockno := n, b_valid := False, b_refcnt := 1\<rparr>)\<rparr>)))"
proof -
  have none: "find (\<lambda>i. b_dev (bufs s i) = dev \<and> b_blockno (bufs s i) = n) l = None"
    using assms(3) lruD(3) [OF assms(2)] by (auto simp: find_None_iff)
  let ?free = "\<lambda>i. b_refcnt (bufs s i) = 0"
  have find: "find ?free (rev l) = (case filter ?free l of [] \<Rightarrow> None | f # fs \<Rightarrow> Some (last (f # fs)))"
  proof (cases "filter ?free l" rule: rev_cases)
    case Nil
    then show ?thesis by (auto simp: find_None_iff filter_empty_conv)
  next
    case (snoc fs b)
    then have "filter ?free (rev l) = b # rev fs" by (simp add: rev_filter [symmetric])
    then have "find ?free (rev l) = Some b" by (simp add: find_filter)
    moreover have "filter ?free l \<noteq> []" "last (filter ?free l) = b" using snoc by auto
    ultimately show ?thesis by (cases "filter ?free l") auto
  qed
  show ?thesis
  proof (cases "filter ?free l")
    case Nil
    then show ?thesis using bget_calm [OF assms(1,2)] none find by simp
  next
    case (Cons f fs)
    let ?b = "last (f # fs)"
    have "?b \<in> set (filter ?free l)" unfolding Cons by (rule last_in_set) simp
    then have b: "?b < NBUF" "?free ?b" using lruD(3) [OF assms(2)] by auto
    then have "\<not> sl_locked (slocks s (SlBuf ?b))" using assms(4) by blast
    then show ?thesis
      using bget_calm [OF assms(1,2)] none find assms(1) unfolding Cons Let_def by (simp add: kstep kframe del: last.simps)
  qed
qed

theorem bget_recycles_witness:
  "\<exists>B t. bget 1 9 (fresh B) = Ok 0 t \<and> b_blockno (bufs t 0) = 9"
proof -
  obtain B L K where B: "lru B (rev [0..<NBUF])" "\<forall>i. same_but_links (B i) (bufs running i)"
    using binit_lru [of running] by blast
  have e: "b_dev (B i) = 0" "b_refcnt (B i) = 0" for i
    using same_linksD(1,3) [OF B(2) [rule_format, of i]] by (simp_all add: zero_buf_def)
  have f: "bufs (fresh B) = B" "slocks (fresh B) = (\<lambda>_. zero_sleeplock)" by (simp_all add: fresh_def)
  have "filter (\<lambda>i. b_refcnt (bufs (fresh B) i) = 0) (rev [0..<NBUF]) = rev [0..<NBUF]" by (simp add: e f)
  moreover have ne: "[0..<NBUF] \<noteq> []" by (simp add: NBUF_def MAXOPBLOCKS_def)
  obtain x xs where r: "rev [0..<NBUF] = x # xs" using ne by (cases "rev [0..<NBUF]") auto
  have "last (x # xs) = 0" unfolding r [symmetric] last_rev by (simp add: NBUF_def MAXOPBLOCKS_def)
  note r = r this
  ultimately show ?thesis
    using bget_recycles [of "fresh B" "rev [0..<NBUF]" 1 9] B(1)
    by (intro exI [of _ B]) (auto simp: f e fresh_sel zero_sleeplock_def kframe Let_def simp del: last.simps)
qed

section \<open>One buffer per block\<close>

text \<open>
  The states of the cache under any sequence of its operations, interleaved with changes of the rest of the kernel's
  state. Device 0 is not a device of the machine; the buffers carry its number until they are first used.
\<close>

definition bcache_inv :: "'a kbio_scheme \<Rightarrow> bool" where
  "bcache_inv s \<longleftrightarrow> (\<exists>l. lru (bufs s) l) \<and>
     (\<forall>i<NBUF. \<forall>j<NBUF. b_dev (bufs s i) \<noteq> 0 \<longrightarrow> b_dev (bufs s i) = b_dev (bufs s j) \<longrightarrow>
        b_blockno (bufs s i) = b_blockno (bufs s j) \<longrightarrow> i = j)"

inductive bstep :: "'a kbio_scheme \<Rightarrow> 'a kbio_scheme \<Rightarrow> bool" where
  step_bread: "calm s \<Longrightarrow> dev \<noteq> 0 \<Longrightarrow> bread dev n s = Ok b t \<Longrightarrow> bstep s t"
| step_put: "b < NBUF \<Longrightarrow> put_bytes b o' bs s = Ok () t \<Longrightarrow> bstep s t"
| step_bwrite: "calm s \<Longrightarrow> bwrite b s = Ok () t \<Longrightarrow> bstep s t"
| step_bpin: "calm s \<Longrightarrow> bpin b s = Ok () t \<Longrightarrow> bstep s t"
| step_bunpin: "calm s \<Longrightarrow> bunpin b s = Ok () t \<Longrightarrow> bstep s t"
| step_brelse: "calm s \<Longrightarrow> b < NBUF \<Longrightarrow> brelse b s = Ok () t \<Longrightarrow> bstep s t"
| step_other: "bufs t = bufs s \<Longrightarrow> bstep s t"

lemma bcache_inv_keep:
  assumes "bcache_inv s" and "bufs t = (bufs s)(b := bf)" "b_dev bf = b_dev (bufs s b)" "b_blockno bf = b_blockno (bufs s b)"
    "b_next bf = b_next (bufs s b)" "b_prev bf = b_prev (bufs s b)"
  shows "bcache_inv t"
proof -
  have "\<exists>l. lru (bufs t) l" unfolding assms(2) by (rule lru_keep [of "bufs s"]) (use assms in \<open>auto simp: bcache_inv_def\<close>)
  moreover have "b_dev (bufs t i) = b_dev (bufs s i)" "b_blockno (bufs t i) = b_blockno (bufs s i)" for i
    using assms(2-4) by simp_all
  ultimately show ?thesis using conjunct2 [OF assms(1) [unfolded bcache_inv_def]] unfolding bcache_inv_def by (simp only: simp_thms)
qed

lemma bget_inv:
  assumes "bcache_inv s" "calm s" "dev \<noteq> 0" "bget dev n s = Ok b t"
  shows "bcache_inv t"
proof -
  obtain l where l: "lru (bufs s) l" using assms(1) by (auto simp: bcache_inv_def)
  have acq: "u = slock_st (SlBuf c) v \<and> c = b" if "thn (acquiresleep (SlBuf c)) (ret c) v = Ok b u" "calm v" for c and u v :: "'a kbio_scheme"
    using that by (cases "sl_locked (slocks v (SlBuf c))") (auto simp: kstep)
  show ?thesis
  proof (cases "find (\<lambda>i. b_dev (bufs s i) = dev \<and> b_blockno (bufs s i) = n) l")
    case (Some c)
    let ?bf = "(bufs s c)\<lparr>b_refcnt := b_refcnt (bufs s c) + 1\<rparr>"
    have "t = slock_st (SlBuf c) (s\<lparr>bufs := (bufs s)(c := ?bf)\<rparr>)"
      using acq assms(2,4) Some bget_calm [OF assms(2) l] by (simp add: kframe)
    then show ?thesis by (intro bcache_inv_keep [OF assms(1), of t c ?bf]) (simp_all add: kframe)
  next
    case None
    show ?thesis
    proof (cases "find (\<lambda>i. b_refcnt (bufs s i) = 0) (rev l)")
      case (Some c)
      let ?bf = "(bufs s c)\<lparr>b_dev := dev, b_blockno := n, b_valid := False, b_refcnt := 1\<rparr>"
      have t: "bufs t = (bufs s)(c := ?bf)"
        using acq [of c "s\<lparr>bufs := (bufs s)(c := ?bf)\<rparr>" t] assms(2,4) None Some bget_calm [OF assms(2) l] by (simp add: kframe)
      have "\<exists>l. lru (bufs t) l" unfolding t by (rule lru_keep [of "bufs s"]) (use l in auto)
      moreover have "\<not> (b_dev (bufs s i) = dev \<and> b_blockno (bufs s i) = n)" if "i < NBUF" for i
        using None that lruD(3) [OF l] by (auto simp: find_None_iff)
      moreover have "i = j" if "i < NBUF" "j < NBUF" "b_dev (bufs t i) \<noteq> 0" "b_dev (bufs t i) = b_dev (bufs t j)"
          "b_blockno (bufs t i) = b_blockno (bufs t j)" for i j
        using that assms(1) calculation(2) [of i] calculation(2) [of j] unfolding t bcache_inv_def
        by (cases "i = c"; cases "j = c") auto
      ultimately show ?thesis unfolding bcache_inv_def by blast
    next
      case None': None
      then show ?thesis using None assms(4) bget_calm [OF assms(2) l] by simp
    qed
  qed
qed

lemma bstep_inv: "bstep s t \<Longrightarrow> bcache_inv s \<Longrightarrow> bcache_inv t"
proof (induction rule: bstep.induct)
  case (step_bread s dev n b t)
  obtain u where u: "bget dev n s = Ok b u" using step_bread(3) by (auto simp: bread_def bnd_eq_Ok kstep thn_eq_Ok)
  have "bcache_inv u" by (rule bget_inv [OF step_bread(4,1,2) u])
  moreover have "\<exists>d v. bufs t = (bufs u)(b := (bufs u b)\<lparr>b_data := d, b_valid := v\<rparr>)"
  proof (cases "b_valid (bufs u b)")
    case True
    then show ?thesis using step_bread(3) u
      by (auto simp: bread_def bnd_eq_Ok kstep thn_eq_Ok intro!: exI [of _ "b_data (bufs u b)"] exI [of _ True])
  next
    case False
    then show ?thesis using step_bread(3) u
      by (intro exI [of _ "disk u (sector (b_blockno (bufs u b)))"] exI [of _ True]) (auto simp: bread_def kstep disk_rw_def)
  qed
  ultimately show ?case using bcache_inv_keep by fastforce
next
  case (step_put b o' bs s t)
  then have "\<exists>d. bufs t = (bufs s)(b := (bufs s b)\<lparr>b_data := d\<rparr>)"
    by (auto simp: put_bytes_def kstep split: if_splits)
  then show ?case using bcache_inv_keep [OF step_put(3)] by fastforce
next
  case (step_bwrite s b t)
  then have "bufs t = bufs s" by (auto simp: bwrite_def disk_rw_def kstep split: if_splits)
  then show ?case using step_bwrite by (simp add: bcache_inv_def)
next
  case (step_bpin s b t)
  then have "bufs t = (bufs s)(b := (bufs s b)\<lparr>b_refcnt := b_refcnt (bufs s b) + 1\<rparr>)"
    using calmD(1,3) [OF step_bpin(1)] by (auto simp: bpin_def kstep kframe)
  then show ?case using bcache_inv_keep [OF step_bpin(3)] by fastforce
next
  case (step_bunpin s b t)
  then have "bufs t = (bufs s)(b := (bufs s b)\<lparr>b_refcnt := b_refcnt (bufs s b) - 1\<rparr>)"
    using calmD(1,3) [OF step_bunpin(1)] by (auto simp: bunpin_def kstep kframe)
  then show ?case using bcache_inv_keep [OF step_bunpin(3)] by fastforce
next
  case (step_brelse s b t)
  have h: "sl_locked (slocks s (SlBuf b))" "sl_pid (slocks s (SlBuf b)) = mypid s"
    using step_brelse(1,3) by (auto simp: brelse_def kstep split: if_splits)
  obtain B where B: "brelse b s = Ok () (sunlock_st (SlBuf b) (s\<lparr>bufs := B\<rparr>))" "\<exists>l. lru B l"
    "\<forall>i. same_but_links (B i) (((bufs s)(b := (bufs s b)\<lparr>b_refcnt := b_refcnt (bufs s b) - 1\<rparr>)) i)"
    using brelse_calm [OF step_brelse(1) _ step_brelse(2) h] step_brelse(4) by (auto simp: bcache_inv_def)
  have k: "b_dev (B i) = b_dev (bufs s i)" "b_blockno (B i) = b_blockno (bufs s i)" for i
    using same_linksD(1,2) [OF B(3) [rule_format, of i]] by (auto split: if_splits)
  have "bufs t = B" using B(1) step_brelse(3) by (simp add: kframe)
  then show ?case
    using B(2) conjunct2 [OF step_brelse(4) [unfolded bcache_inv_def]] unfolding bcache_inv_def by (simp only: k simp_thms)
next
  case (step_other t s)
  then show ?case by (simp add: bcache_inv_def)
qed

text \<open>
  C8: a block is never cached twice, and the list never loses a buffer. After \<^verbatim>\<open>binit\<close>, whatever sequence of cache operations
  has run, two buffers that hold the same block of a device are the same buffer, and the links still lead from the
  head through every buffer exactly once and back.
\<close>

theorem bcache_invariant:
  assumes "\<forall>i<NBUF. bufs s0 i = zero_buf" and "binit s0 = Ok () s" and "bstep\<^sup>*\<^sup>* s t"
  shows "(\<exists>l. dll (nx (bufs t)) (pv (bufs t)) bhead l bhead \<and> distinct l \<and> set l = {..<NBUF}) \<and>
    (\<forall>i<NBUF. \<forall>j<NBUF. b_dev (bufs t i) \<noteq> 0 \<longrightarrow> b_dev (bufs t i) = b_dev (bufs t j) \<longrightarrow>
       b_blockno (bufs t i) = b_blockno (bufs t j) \<longrightarrow> i = j)"
proof -
  obtain B L K where "binit s0 = Ok () (s0\<lparr>bufs := B, locks := L, slocks := K\<rparr>)" "bcache_empty (s0\<lparr>bufs := B, locks := L, slocks := K\<rparr>)"
    using binit_empty [OF assms(1)] by blast
  then have "bcache_inv s" using assms(2) by (auto simp: bcache_empty_def bcache_inv_def)
  with assms(3) have "bcache_inv t" by (induction rule: rtranclp_induct) (simp_all add: bstep_inv)
  then show ?thesis unfolding bcache_inv_def lru_def .
qed

theorem bcache_invariant_witness:
  "\<exists>s t. binit running = Ok () s \<and> put_bytes 3 0 [7] s = Ok () t \<and> bstep\<^sup>*\<^sup>* s t \<and>
     (\<exists>l. dll (nx (bufs t)) (pv (bufs t)) bhead l bhead \<and> distinct l \<and> set l = {..<NBUF})"
proof -
  obtain B L K where s: "binit running = Ok () (running\<lparr>bufs := B, locks := L, slocks := K\<rparr>)"
    "\<forall>i. same_but_links (B i) (bufs running i)" using binit_lru [of running] by blast
  let ?s = "running\<lparr>bufs := B, locks := L, slocks := K\<rparr>"
  have "b_data (B 3) = replicate BSIZE 0" using same_linksD(5) [OF s(2) [rule_format, of 3]] by (simp add: zero_buf_def)
  then obtain t where t: "put_bytes 3 0 [7] ?s = Ok () t" by (simp add: put_bytes_def kstep BSIZE_def)
  have b: "bstep ?s t" by (rule step_put [OF _ t]) (simp add: NBUF_def MAXOPBLOCKS_def)
  have "\<forall>i<NBUF. bufs running i = zero_buf" by simp
  from bcache_invariant [OF this s(1) r_into_rtranclp [of bstep, OF b]] s(1) t b show ?thesis by blast
qed

end
