(* ===== verification/Digits.thy ===== *)
theory Digits
  imports Main
begin

text \<open>
  Positional notation, shared by the proofs about the number printing and number reading of the kernel
  and of the user library.
\<close>

text \<open>The digits of a number, least significant first, as the printing loops produce them.\<close>

function rdigits :: "nat \<Rightarrow> nat \<Rightarrow> nat list" where
  "rdigits b n = (n mod b) # (if b \<le> 1 \<or> n div b = 0 then [] else rdigits b (n div b))"
  by pat_completeness auto
termination
proof (relation "measure snd")
  fix b n :: nat
  assume "\<not> (b \<le> 1 \<or> n div b = 0)"
  then have "1 < b" and "0 < n" by (auto intro: gr0I)
  then show "((b, n div b), b, n) \<in> measure snd" by simp
qed simp

declare rdigits.simps [simp del]

text \<open>The number a digit string denotes, most significant first, as reading accumulates it.\<close>

abbreviation horner :: "nat \<Rightarrow> nat \<Rightarrow> nat list \<Rightarrow> nat" where
  "horner b n ds \<equiv> foldl (\<lambda>n d. n * b + d) n ds"

lemma horner_rdigits: "1 < b \<Longrightarrow> horner b 0 (rev (rdigits b n)) = n"
proof (induction b n rule: rdigits.induct)
  case (1 b n)
  show ?case
  proof (cases "n div b = 0")
    case True
    with 1 show ?thesis by (simp add: rdigits.simps [of b n] div_eq_0_iff)
  next
    case False
    with 1 show ?thesis by (simp add: rdigits.simps [of b n])
  qed
qed

lemma rdigits_bound: "1 < b \<Longrightarrow> \<forall>d\<in>set (rdigits b n). d < b"
proof (induction b n rule: rdigits.induct)
  case (1 b n)
  show ?case
  proof (cases "n div b = 0")
    case True
    with 1 show ?thesis by (simp add: rdigits.simps [of b n])
  next
    case False
    with 1 show ?thesis by (simp add: rdigits.simps [of b n])
  qed
qed

lemma rdigits_not_Nil [simp]: "rdigits b n \<noteq> []"
  by (simp add: rdigits.simps [of b n])

lemma length_rdigits_le:
  assumes "1 < b"
  shows "length (rdigits b n) \<le> Suc k \<longleftrightarrow> n < b ^ Suc k"
proof (induction k arbitrary: n)
  case 0
  have "0 < length (rdigits b m)" for m by simp
  with assms show ?case
    by (auto simp: rdigits.simps [of b n] div_eq_0_iff)
next
  case (Suc k)
  have iff: "n div b < b ^ Suc k \<longleftrightarrow> n < b ^ Suc (Suc k)"
    using assms by (simp add: div_less_iff_less_mult mult.commute mult.assoc)
  show ?case
  proof (cases "n div b = 0")
    case True
    then have "rdigits b n = [n mod b]" by (simp add: rdigits.simps [of b n])
    moreover have "n < b ^ Suc (Suc k)" using iff True assms by (metis zero_less_power zero_less_one order_less_trans)
    ultimately show ?thesis by simp
  next
    case False
    with assms have "rdigits b n = n mod b # rdigits b (n div b)" by (simp add: rdigits.simps [of b n])
    then show ?thesis by (simp only: list.size Suc_le_mono Suc.IH iff add_0_right add_Suc_right)
  qed
qed

lemma horner_less:
  assumes "\<forall>d\<in>set ds. d < b" and "0 < b"
  shows "horner b n ds < (n + 1) * b ^ length ds"
  using assms(1)
proof (induction ds arbitrary: n)
  case (Cons d ds)
  have "horner b (n * b + d) ds < (n * b + d + 1) * b ^ length ds"
    using Cons by simp
  also have "\<dots> \<le> ((n + 1) * b) * b ^ length ds"
    using Cons.prems by (intro mult_right_mono) auto
  finally show ?case by (simp add: algebra_simps)
qed simp

lemma horner_mono_prefix: "n \<le> horner b n ds" if "0 < b"
proof (induction ds arbitrary: n)
  case (Cons d ds)
  have "n \<le> n * b + d" using that by (simp add: trans_le_add1)
  also have "\<dots> \<le> horner b (n * b + d) ds" by (rule Cons.IH)
  finally show ?case by simp
qed simp

end
