(* ===== verification/Printf_Proofs.thy ===== *)
theory Printf_Proofs
  imports Boot Digits
begin

text \<open>
  What the kernel's \<^verbatim>\<open>printint\<close> stores into its 16-byte buffer: the digits of the number, or too many of
  them.
\<close>

lemma printint_loop_rdigits:
  assumes "2 \<le> base" and "length buf \<le> 16"
  shows "printint_loop base x buf s =
    (if length buf + length (rdigits (unat base) (unat x)) \<le> 16
     then Ok (buf @ map ((!) digits) (rdigits (unat base) (unat x))) s
     else UB ''printint: buf overflow'')"
  using assms
proof (induction base x buf arbitrary: s rule: printint_loop.induct)
  case (1 base x buf)
  let ?b = "unat base" and ?n = "unat x"
  have b: "1 < ?b" "\<not> base < 2" using "1.prems"(1) by (auto simp: word_le_nat_alt word_less_nat_alt)
  have zero: "x div base = 0 \<longleftrightarrow> ?n div ?b = 0"
    by (metis unat_div unat_eq_zero)
  have pos: "0 < length (rdigits ?b ?n)" by simp
  show ?case
  proof (cases "16 \<le> length buf")
    case True
    with pos have "\<not> length buf + length (rdigits ?b ?n) \<le> 16" by linarith
    with True b show ?thesis by (simp add: printint_loop.simps [of base x] undef_def)
  next
    case short: False
    show ?thesis
    proof (cases "?n div ?b = 0")
      case True
      then have "rdigits ?b ?n = [?n mod ?b]" by (simp add: rdigits.simps [of ?b ?n])
      then show ?thesis
        using True zero b short by (simp add: printint_loop.simps [of base x] unat_mod ret_def)
    next
      case False
      then have r: "rdigits ?b ?n = ?n mod ?b # rdigits ?b (?n div ?b)"
        using b by (simp add: rdigits.simps [of ?b ?n])
      have "printint_loop base x buf s = printint_loop base (x div base) (buf @ [digits ! (?n mod ?b)]) s"
        using False zero b short by (simp add: printint_loop.simps [of base x] unat_mod)
      also have "\<dots> = (if length buf + 1 + length (rdigits ?b (?n div ?b)) \<le> 16
          then Ok ((buf @ [digits ! (?n mod ?b)]) @ map ((!) digits) (rdigits ?b (?n div ?b))) s
          else UB ''printint: buf overflow'')"
        using "1.IH" [OF b(2) short refl, of s] False zero "1.prems"(1) short
        by (simp add: unat_mod unat_div)
      finally show ?thesis by (simp add: r)
    qed
  qed
qed

text \<open>
  C33: the buffer of the kernel's \<^verbatim>\<open>printint\<close> holds 16 decimal digits: for a number below \<open>10 ^ 16\<close> the
  loop stores exactly its digits, and for every number from there on (and so for \<^verbatim>\<open>%u\<close> of every
  negative \<^verbatim>\<open>int\<close>, which is widened with its sign) it stores past the end of the buffer.
\<close>

theorem printint_buffer:
  fixes s :: "'a kcons_scheme"
  shows "(unat x < 10 ^ 16 \<longrightarrow>
      printint_loop 10 x [] s = Ok (map ((!) digits) (rdigits 10 (unat x))) s) \<and>
    (10 ^ 16 \<le> unat x \<longrightarrow> printint x 10 False s = UB ''printint: buf overflow'') \<and>
    (sint (v :: 32 word) < 0 \<longrightarrow> convert (CvInt 10 False) 0 [AInt v] s = UB ''printint: buf overflow'')"
proof -
  have len: "length (rdigits 10 n) \<le> 16 \<longleftrightarrow> n < 10 ^ 16" for n
    using length_rdigits_le [of 10 n 15] by simp
  have small: "unat x < 10 ^ 16 \<Longrightarrow> printint_loop 10 x [] s = Ok (map ((!) digits) (rdigits 10 (unat x))) s" for x
    using printint_loop_rdigits [of 10 "[]" x s] len [of "unat x"] by (simp add: word_le_nat_alt)
  have big: "printint x 10 False s = UB ''printint: buf overflow''" if "10 ^ 16 \<le> unat x" for x
    using printint_loop_rdigits [of 10 "[]" x s] len [of "unat x"] that
    by (simp add: printint_def bnd_def word_le_nat_alt)
  have neg: "10 ^ 16 \<le> unat (scast v :: uint64)" if "sint v < 0"
  proof -
    have "uint (scast v :: uint64) = sint v mod 2 ^ LENGTH(64)"
      unfolding scast_eq by (rule uint_word_of_int)
    then have u: "uint (scast v :: uint64) = sint v mod 18446744073709551616" by simp
    have low: "- 2147483648 \<le> sint v" using sint_greater_eq [of v] by simp
    have "(sint v + 18446744073709551616) mod 18446744073709551616 = sint v + 18446744073709551616"
      using that low by (intro mod_pos_pos_trivial) linarith+
    then have "uint (scast v :: uint64) = sint v + 18446744073709551616"
      unfolding u mod_add_self2 .
    then have "10000000000000000 \<le> uint (scast v :: uint64)" using low by linarith
    from nat_mono [OF this] have "10000000000000000 \<le> unat (scast v :: uint64)"
      unfolding unat_eq_nat_uint by (simp only: nat_numeral)
    moreover have "(10 :: nat) ^ 16 = 10000000000000000" by simp
    ultimately show ?thesis by (simp only:)
  qed
  have "convert (CvInt 10 False) 0 [AInt v] s = UB ''printint: buf overflow''" if "sint v < 0"
    using big [OF neg [OF that]] by (simp add: convert_def thn_def bnd_def)
  with small big show ?thesis by blast
qed

theorem printint_buffer_witness:
  "printint 10000000000000000 10 False running = UB ''printint: buf overflow'' \<and>
    convert (CvInt 10 False) 0 [AInt (- 1)] running = UB ''printint: buf overflow'' \<and>
    printint_loop 10 7 [] running = Ok [55] running"
proof -
  have "rdigits 10 7 = [7]" by (simp add: rdigits.simps [of 10 7])
  then show ?thesis
    using printint_buffer [of 10000000000000000 running "- 1"] printint_buffer [of 7 running 0]
    by (simp add: digits_def cbytes_def of_char_def)
qed

end
