(* ===== verification/ULib.thy ===== *)
theory ULib
  imports CString
begin

text \<open>
  \<^verbatim>\<open>user/ulib.c\<close>, the C library of the user programs, and the view the user programs of this
  development have of the system calls that read. A pointer that is only read is the list of the bytes
  from it to the end of the object it points into; a function that would read past that end gives
  \<open>None\<close>. The functions that move memory work on the whole address space, as those of
  \<^verbatim>\<open>kernel/string.c\<close> do.
\<close>

section \<open>Descriptors open for reading\<close>

text \<open>
  What a process sees of a descriptor it reads from: the results of the reads to come, each an error or
  a chunk of bytes. A read of fewer bytes than the next chunk has leaves the rest of it; behind the
  last chunk every read returns 0, the end of the file.
\<close>

type_synonym source = "uchar list option list"

fun uread :: "nat \<Rightarrow> source \<Rightarrow> uchar list option \<times> source" where
  "uread n [] = (Some [], [])"
| "uread n (None # cs) = (None, cs)"
| "uread n (Some c # cs) =
     (if length c \<le> n then (Some c, cs) else (Some (take n c), Some (drop n c) # cs))"

text \<open>A measure that every successful read decreases.\<close>

primrec pending :: "source \<Rightarrow> nat" where
  "pending [] = 0"
| "pending (c # cs) = Suc (case c of None \<Rightarrow> 0 | Some d \<Rightarrow> length d) + pending cs"

lemma uread_pending: "uread n cs = (Some d, cs') \<Longrightarrow> d \<noteq> [] \<Longrightarrow> pending cs' < pending cs"
  by (cases "(n, cs)" rule: uread.cases) (auto split: if_splits)

text \<open>The bytes a source without errors delivers.\<close>

abbreviation delivers :: "source \<Rightarrow> uchar list \<Rightarrow> bool" where
  "delivers cs t \<equiv> None \<notin> set cs \<and> Some [] \<notin> set cs \<and> concat (map the cs) = t"

lemma uread_delivers:
  assumes "delivers cs t" and "0 < n"
  obtains d t' cs' where "uread n cs = (Some d, cs')" and "length d \<le> n" and "d = [] \<longleftrightarrow> t = []"
    and "t = d @ t'" and "delivers cs' t'"
proof (cases "(n, cs)" rule: uread.cases)
  case (3 m c ds)
  show thesis
  proof (cases "length c \<le> n")
    case True
    with 3 assms show thesis by (intro that [of c ds "concat (map the ds)"]) auto
  next
    case False
    with 3 assms show thesis
      by (intro that [of "take n c" "Some (drop n c) # ds" "drop n c @ concat (map the ds)"]) auto
  qed
qed (use assms in \<open>auto intro: that\<close>)

lemma uread_byte:
  assumes "delivers cs (b # t)"
  shows "\<exists>cs'. uread 1 cs = (Some [b], cs') \<and> delivers cs' t"
proof (cases "(1 :: nat, cs)" rule: uread.cases)
  case (3 n c ds)
  with assms obtain c' where "c = b # c'" by (cases c) auto
  with 3 assms show ?thesis by (cases c') auto
qed (use assms in auto)

section \<open>Strings\<close>

text \<open>The byte at an index of a string, whose NUL is behind its last byte.\<close>

definition byte_at :: "uchar list \<Rightarrow> nat \<Rightarrow> uchar" where
  "byte_at s i = (if i < length s then s ! i else 0)"

lemma byte_at_simps [simp]:
  "byte_at [] i = 0" "byte_at (c # s) 0 = c" "byte_at (c # s) (Suc i) = byte_at s i"
  by (simp_all add: byte_at_def)

fun u_strcpy :: "uchar list \<Rightarrow> uchar list \<Rightarrow> uchar list option" where
  "u_strcpy (d # ds) (t # ts) = (if t \<noteq> 0 then map_option ((#) t) (u_strcpy ds ts) else Some (t # ds))"
| "u_strcpy s t = None"

fun u_strcmp :: "uchar list \<Rightarrow> uchar list \<Rightarrow> int option" where
  "u_strcmp (p # ps) (q # qs) =
     (if p \<noteq> 0 \<and> p = q then u_strcmp ps qs else Some (uint p - uint q))"
| "u_strcmp p q = None"

fun u_strlen :: "uchar list \<Rightarrow> nat option" where
  "u_strlen (c # s) = (if c \<noteq> 0 then map_option Suc (u_strlen s) else Some 0)"
| "u_strlen [] = None"

fun u_strchr :: "uchar list \<Rightarrow> uchar \<Rightarrow> nat option option" where
  "u_strchr (x # s) c =
     (if x = 0 then Some None
      else if x = c then Some (Some 0)
      else map_option (map_option Suc) (u_strchr s c))"
| "u_strchr [] c = None"

text \<open>The digits are added up in a 32-bit \<^verbatim>\<open>int\<close>.\<close>

fun atoi_loop :: "uint \<Rightarrow> uchar list \<Rightarrow> uint option" where
  "atoi_loop n (c # s) =
     (if 48 \<le> c \<and> c \<le> 57 then atoi_loop (n * 10 + ucast c - 48) s else Some n)"
| "atoi_loop n [] = None"

definition u_atoi :: "uchar list \<Rightarrow> uint option" where
  "u_atoi s = atoi_loop 0 s"

text \<open>\<^verbatim>\<open>gets\<close> reads descriptor 0 byte by byte; the result is the string it leaves in the buffer.\<close>

function gets_loop :: "nat \<Rightarrow> uchar list \<Rightarrow> source \<Rightarrow> uchar list \<times> source" where
  "gets_loop lim buf cs =
     (if length buf + 1 < lim then
        (case uread 1 cs of
           (Some [c], cs') \<Rightarrow>
             if c = 10 \<or> c = 13 then (buf @ [c], cs') else gets_loop lim (buf @ [c]) cs'
         | (_, cs') \<Rightarrow> (buf, cs'))
      else (buf, cs))"
  by pat_completeness auto
termination
  by (relation "measure (\<lambda>(lim, buf, cs). lim - length buf)") auto

declare gets_loop.simps [simp del]

definition u_gets :: "nat \<Rightarrow> source \<Rightarrow> uchar list \<times> source" where
  "u_gets lim cs = (case gets_loop lim [] cs of (buf, cs') \<Rightarrow> (buf @ [0], cs'))"

section \<open>Memory\<close>

primrec u_memset :: "mem \<Rightarrow> uint64 \<Rightarrow> uchar \<Rightarrow> nat \<Rightarrow> mem" where
  "u_memset m dst c 0 = m"
| "u_memset m dst c (Suc n) = (u_memset m dst c n)(dst + of_nat n := c)"

definition u_memmove :: "mem \<Rightarrow> uint64 \<Rightarrow> uint64 \<Rightarrow> int \<Rightarrow> mem" where
  "u_memmove m vdst vsrc n =
     (if vsrc > vdst then copy_up m vdst vsrc (nat n)
      else copy_down m (vdst + of_int n) (vsrc + of_int n) (nat n))"

definition u_memcpy :: "mem \<Rightarrow> uint64 \<Rightarrow> uint64 \<Rightarrow> uint \<Rightarrow> mem" where
  "u_memcpy m dst src n = u_memmove m dst src (sint n)"

fun u_memcmp :: "uchar list \<Rightarrow> uchar list \<Rightarrow> nat \<Rightarrow> int option" where
  "u_memcmp s1 s2 0 = Some 0"
| "u_memcmp (x # s1) (y # s2) (Suc n) =
     (if x \<noteq> y then Some (uint x - uint y) else u_memcmp s1 s2 n)"
| "u_memcmp s1 s2 (Suc n) = None"

section \<open>Lemmas\<close>

text \<open>The bytes of a C string: a list without NUL, and the object that holds it.\<close>

abbreviation cstring :: "uchar list \<Rightarrow> uchar list" where
  "cstring s \<equiv> s @ [0]"

lemma u_strlen_cstring: "0 \<notin> set s \<Longrightarrow> u_strlen (s @ 0 # r) = Some (length s)"
  by (induction s) auto

lemma u_strlen_None: "u_strlen s = None \<longleftrightarrow> 0 \<notin> set s"
  by (induction s) auto

lemma u_strcmp_eq_0:
  "0 \<notin> set p \<Longrightarrow> 0 \<notin> set q \<Longrightarrow> u_strcmp (p @ 0 # x) (q @ 0 # y) = Some 0 \<longleftrightarrow> p = q"
proof (induction p arbitrary: q)
  case Nil
  then show ?case by (cases q) (auto simp: word_uint_eq_iff)
next
  case (Cons a p)
  then show ?case by (cases q) (auto simp: word_uint_eq_iff)
qed

lemma u_strcpy_cstring:
  "0 \<notin> set s \<Longrightarrow> length s < length d \<Longrightarrow>
    u_strcpy d (s @ 0 # r) = Some (s @ 0 # drop (Suc (length s)) d)"
proof (induction s arbitrary: d)
  case Nil
  then show ?case by (cases d) auto
next
  case (Cons a s)
  then show ?case by (cases d) auto
qed

lemma u_strchr_absent: "0 \<notin> set s \<Longrightarrow> c \<notin> set s \<Longrightarrow> u_strchr (s @ 0 # r) c = Some None"
  by (induction s) auto

lemma u_strchr_found:
  "0 \<notin> set s \<Longrightarrow> c \<notin> set s \<Longrightarrow> c \<noteq> 0 \<Longrightarrow> u_strchr (s @ c # r) c = Some (Some (length s))"
  by (induction s) auto



end
