(* ===== verification/Grep.thy ===== *)
theory Grep
  imports ULib
begin

text \<open>
  \<^verbatim>\<open>user/grep.c\<close>: the regular expression matcher and the line loop. A string is the list of its
  bytes, and behind its end a NUL is read. The matcher is proved equivalent to the language its
  patterns denote, and the line loop to a filter on the lines of the input, however the reads cut it
  up.
\<close>

section \<open>The matcher\<close>

function matchhere :: "uchar list \<Rightarrow> uchar list \<Rightarrow> bool"
  and matchstar :: "uchar \<Rightarrow> uchar list \<Rightarrow> uchar list \<Rightarrow> bool" where
  "matchhere re text =
     (if byte_at re 0 = 0 then True
      else if byte_at re 1 = 42 then matchstar (byte_at re 0) (drop 2 re) text
      else if byte_at re 0 = 36 \<and> byte_at re 1 = 0 then byte_at text 0 = 0
      else if byte_at text 0 \<noteq> 0 \<and> (byte_at re 0 = 46 \<or> byte_at re 0 = byte_at text 0)
      then matchhere (drop 1 re) (drop 1 text)
      else False)"
| "matchstar c re text =
     (if matchhere re text then True
      else if byte_at text 0 \<noteq> 0 \<and> (byte_at text 0 = c \<or> c = 46)
      then matchstar c re (drop 1 text)
      else False)"
  by pat_completeness auto
termination
  by (relation "measures [\<lambda>x. case x of Inl (re, text) \<Rightarrow> length re | Inr (c, re, text) \<Rightarrow> length re,
      \<lambda>x. case x of Inl (re, text) \<Rightarrow> length text | Inr (c, re, text) \<Rightarrow> length text,
      \<lambda>x. case x of Inl _ \<Rightarrow> 0 | Inr _ \<Rightarrow> 1]") (auto simp: byte_at_def split: if_splits)

function match_from :: "uchar list \<Rightarrow> uchar list \<Rightarrow> bool" where
  "match_from re text =
     (if matchhere re text then True
      else if byte_at text 0 \<noteq> 0 then match_from re (drop 1 text)
      else False)"
  by pat_completeness auto
termination
  by (relation "measure (\<lambda>(re, text). length text)") (auto simp: byte_at_def split: if_splits)

declare matchhere.simps [simp del] matchstar.simps [simp del] match_from.simps [simp del]

definition match :: "uchar list \<Rightarrow> uchar list \<Rightarrow> bool" where
  "match re text =
     (if byte_at re 0 = 94 then matchhere (drop 1 re) text else match_from re text)"

section \<open>The line loop\<close>

lemma u_strchr_bound: "u_strchr s c = Some (Some q) \<Longrightarrow> q < length s \<and> s ! q = c \<and> c \<noteq> 0"
  by (induction s arbitrary: q) (auto split: if_splits)

text \<open>
  \<open>grep_lines pat p\<close> is the inner loop over the bytes from \<open>p\<close> to the NUL stored behind them: the
  bytes handed to \<^verbatim>\<open>write\<close>, and the bytes of the last, incomplete line.
\<close>

function grep_lines :: "uchar list \<Rightarrow> uchar list \<Rightarrow> uchar list \<times> uchar list" where
  "grep_lines pat p =
     (case u_strchr (cstring p) 10 of
        Some (Some q) \<Rightarrow>
          (case grep_lines pat (drop (q + 1) p) of (out, p') \<Rightarrow>
             ((if match pat (take q p) then take (q + 1) p else []) @ out, p'))
      | _ \<Rightarrow> ([], p))"
  by pat_completeness auto
termination
proof (relation "measure (\<lambda>(pat, p). length p)")
  fix pat p :: "uchar list" and x q
  assume "u_strchr (cstring p) 10 = Some x" and "x = Some q"
  then have "q < length (cstring p) \<and> cstring p ! q = 10"
    using u_strchr_bound by blast
  then have "q < length p" by (cases "q = length p") (auto simp: nth_append)
  then show "((pat, drop (q + 1) p), pat, p) \<in> measure (\<lambda>(pat, p). length p)" by auto
qed simp

text \<open>The buffer holds \<open>m\<close> bytes; a read asks for as many as fit before the last byte of the buffer.\<close>

function grep :: "uchar list \<Rightarrow> uchar list \<Rightarrow> source \<Rightarrow> uchar list" where
  "grep pat buf cs =
     (case uread (1024 - length buf - 1) cs of
        (Some (d # ds), cs') \<Rightarrow>
          (case grep_lines pat (buf @ d # ds) of (out, p) \<Rightarrow> out @ grep pat p cs')
      | _ \<Rightarrow> [])"
  by pat_completeness auto
termination
  by (relation "measure (\<lambda>(pat, buf, cs). pending cs)") (auto dest!: sym [of _ "uread _ _"] uread_pending)

declare grep_lines.simps [simp del] grep.simps [simp del]


section \<open>What a pattern denotes\<close>

text \<open>
  A pattern is a sequence of items, each one character, any number of characters, or the end of the
  line; a character stands for itself, and \<^verbatim>\<open>.\<close> for every character.
\<close>

datatype item = One uchar | Star uchar | End

fun items :: "uchar list \<Rightarrow> item list" where
  "items [] = []"
| "items [c] = (if c = 36 then [End] else [One c])"
| "items (c # d # re) = (if d = 42 then Star c # items re else One c # items (d # re))"

definition sat :: "uchar \<Rightarrow> uchar \<Rightarrow> bool" where
  "sat c x \<longleftrightarrow> c = 46 \<or> c = x"

text \<open>\<open>denotes is pre post\<close>: the items match the text \<open>pre\<close> when \<open>post\<close> follows it.\<close>

inductive denotes :: "item list \<Rightarrow> uchar list \<Rightarrow> uchar list \<Rightarrow> bool" where
  nil: "denotes [] [] post"
| one: "sat c x \<Longrightarrow> denotes is pre post \<Longrightarrow> denotes (One c # is) (x # pre) post"
| star: "\<forall>x\<in>set xs. sat c x \<Longrightarrow> denotes is pre post \<Longrightarrow> denotes (Star c # is) (xs @ pre) post"
| eol: "denotes is [] [] \<Longrightarrow> denotes (End # is) [] []"

inductive_cases denotes_NilE [elim!]: "denotes [] pre post"
inductive_cases denotes_OneE [elim!]: "denotes (One c # is) pre post"
inductive_cases denotes_StarE: "denotes (Star c # is) pre post"
inductive_cases denotes_EndE [elim!]: "denotes (End # is) pre post"

definition finds :: "uchar list \<Rightarrow> uchar list \<Rightarrow> bool" where
  "finds re text \<longleftrightarrow>
     (if take 1 re = [94]
      then (\<exists>mid post. text = mid @ post \<and> denotes (items (drop 1 re)) mid post)
      else (\<exists>pre mid post. text = pre @ mid @ post \<and> denotes (items re) mid post))"

section \<open>The matcher finds what the pattern denotes\<close>

definition prefix_match :: "item list \<Rightarrow> uchar list \<Rightarrow> bool" where
  "prefix_match is text \<longleftrightarrow> (\<exists>mid post. text = mid @ post \<and> denotes is mid post)"

lemma prefix_matchI: "denotes is mid post \<Longrightarrow> text = mid @ post \<Longrightarrow> prefix_match is text"
  by (auto simp: prefix_match_def)

lemma prefix_nil: "prefix_match [] text"
  unfolding prefix_match_def using denotes.nil by blast

lemma prefix_one:
  "prefix_match (One c # is) text \<longleftrightarrow> (\<exists>x t. text = x # t \<and> sat c x \<and> prefix_match is t)"
  (is "?l \<longleftrightarrow> ?r")
proof
  assume ?l
  then obtain x pre post where "text = x # pre @ post" "sat c x" "denotes is pre post"
    by (auto simp: prefix_match_def)
  then show ?r by (auto simp: prefix_match_def)
next
  assume ?r
  then obtain x mid post where "text = x # mid @ post" "sat c x" "denotes is mid post"
    by (auto simp: prefix_match_def)
  then show ?l by (intro prefix_matchI [of _ "x # mid" post]) (auto intro: denotes.one)
qed

lemma prefix_eol: "prefix_match [End] text \<longleftrightarrow> text = []"
  by (auto simp: prefix_match_def intro: denotes.intros)

lemma prefix_star:
  "prefix_match (Star c # is) text \<longleftrightarrow>
    prefix_match is text \<or> (\<exists>x t. text = x # t \<and> sat c x \<and> prefix_match (Star c # is) t)"
    (is "?l \<longleftrightarrow> ?r")
proof
  assume ?l
  then obtain xs pre post where *: "text = xs @ pre @ post" "\<forall>x\<in>set xs. sat c x" "denotes is pre post"
    by (auto simp: prefix_match_def elim: denotes_StarE)
  show ?r
  proof (cases xs)
    case Nil
    with * show ?thesis by (auto simp: prefix_match_def)
  next
    case (Cons x ys)
    have "denotes (Star c # is) (ys @ pre) post" using * Cons by (intro denotes.star) auto
    then have "prefix_match (Star c # is) (ys @ pre @ post)" by (rule prefix_matchI) simp
    with * Cons show ?thesis by auto
  qed
next
  assume ?r
  then show ?l
  proof
    assume "prefix_match is text"
    then obtain mid post where *: "text = mid @ post" "denotes is mid post"
      by (auto simp: prefix_match_def)
    with denotes.star [of "[]" c "is" mid post] show ?l by (intro prefix_matchI) auto
  next
    assume "\<exists>x t. text = x # t \<and> sat c x \<and> prefix_match (Star c # is) t"
    then obtain x xs pre post where
      "text = x # xs @ pre @ post" "\<forall>y\<in>set (x # xs). sat c y" "denotes is pre post"
      by (auto simp: prefix_match_def elim!: denotes_StarE)
    with denotes.star [of "x # xs" c "is" pre post] show ?l
      by (intro prefix_matchI [of _ "(x # xs) @ pre" post]) auto
  qed
qed

lemma byte_at_0_iff: "0 \<notin> set s \<Longrightarrow> byte_at s 0 = 0 \<longleftrightarrow> s = []"
  by (cases s) auto

lemma matchhere_pattern:
  "matchhere [] s"
  "c \<noteq> 0 \<Longrightarrow> matchhere [c] s \<longleftrightarrow>
    (if c = 36 then byte_at s 0 = 0 else byte_at s 0 \<noteq> 0 \<and> sat c (byte_at s 0))"
  "c \<noteq> 0 \<Longrightarrow> d \<noteq> 0 \<Longrightarrow> matchhere (c # d # re) s \<longleftrightarrow>
    (if d = 42 then matchstar c re s
     else byte_at s 0 \<noteq> 0 \<and> sat c (byte_at s 0) \<and> matchhere (d # re) (drop 1 s))"
  by (simp_all add: matchhere.simps [of "[]"] matchhere.simps [of "[c]"]
      matchhere.simps [of "c # d # re"] sat_def)

lemma matchstar_pattern:
  "matchstar c re [] \<longleftrightarrow> matchhere re []"
  "x \<noteq> 0 \<Longrightarrow> matchstar c re (x # s) \<longleftrightarrow> matchhere re (x # s) \<or> sat c x \<and> matchstar c re s"
  using matchstar.simps [of c re "[]"] matchstar.simps [of c re "x # s"] by (auto simp: sat_def)

lemma prefix_star_pattern:
  "prefix_match (Star c # is) [] \<longleftrightarrow> prefix_match is []"
  "prefix_match (Star c # is) (x # s) \<longleftrightarrow>
    prefix_match is (x # s) \<or> sat c x \<and> prefix_match (Star c # is) s"
  using prefix_star [of c "is" "[]"] prefix_star [of c "is" "x # s"] by auto

lemma match_loops:
  "0 \<notin> set re \<Longrightarrow> 0 \<notin> set text \<Longrightarrow> matchhere re text \<longleftrightarrow> prefix_match (items re) text"
  "0 \<notin> set re \<Longrightarrow> 0 \<notin> set text \<Longrightarrow> matchstar c re text \<longleftrightarrow> prefix_match (Star c # items re) text"
proof (induction re "text" and c re "text" rule: matchhere_matchstar.induct)
  case here: (1 re "text")
  show ?case
  proof (cases re rule: items.cases)
    case 1
    then show ?thesis using prefix_nil by (simp add: matchhere_pattern)
  next
    case (2 c)
    with here.prems show ?thesis
      by (cases "text") (simp_all add: matchhere_pattern prefix_one prefix_eol prefix_nil)
  next
    case (3 c d r)
    show ?thesis
    proof (cases "d = 42")
      case True
      with 3 here.prems here.IH(1) show ?thesis by (simp add: matchhere_pattern)
    next
      case False
      with 3 here.prems here.IH(2) show ?thesis
        by (cases "text") (auto simp: matchhere_pattern prefix_one sat_def)
    qed
  qed
next
  case there: (2 c re "text")
  then show ?case
    by (cases "text") (auto simp: matchstar_pattern prefix_star_pattern sat_def)
qed

lemma match_from_iff:
  assumes "0 \<notin> set re"
  shows "0 \<notin> set text \<Longrightarrow>
    match_from re text \<longleftrightarrow> (\<exists>pre rest. text = pre @ rest \<and> prefix_match (items re) rest)"
proof (induction "text")
  case Nil
  with assms show ?case by (simp add: match_from.simps [of re] match_loops)
next
  case (Cons x "text")
  have "(\<exists>pre rest. x # text = pre @ rest \<and> P rest) \<longleftrightarrow>
      P (x # text) \<or> (\<exists>pre rest. text = pre @ rest \<and> P rest)" for P
    by (metis append_eq_Cons_conv)
  with Cons assms show ?case by (simp add: match_from.simps [of re "x # text"] match_loops)
qed

lemma finds_prefix:
  "finds re text \<longleftrightarrow>
    (if take 1 re = [94] then prefix_match (items (drop 1 re)) text
     else (\<exists>pre rest. text = pre @ rest \<and> prefix_match (items re) rest))"
  unfolding finds_def prefix_match_def by (auto; blast)

text \<open>
  C14: \<^verbatim>\<open>match\<close> is equivalent to the language its pattern denotes: it returns 1 exactly when the text
  contains, at its beginning if the pattern starts with \<^verbatim>\<open>^\<close> and anywhere otherwise, a stretch that
  is a sequence of single characters, of repeated characters for \<^verbatim>\<open>c*\<close>, and of the end of the line
  for a final \<^verbatim>\<open>$\<close>. In particular the shortest-first search of \<^verbatim>\<open>matchstar\<close> misses nothing.
\<close>

theorem match_equiv:
  assumes "0 \<notin> set re" and "0 \<notin> set text"
  shows "match re text \<longleftrightarrow> finds re text"
  using assms by (cases re) (simp_all add: match_def finds_prefix match_from_iff match_loops)

theorem match_equiv_witness:
  "finds [94, 97, 46, 42, 98, 36] [97, 120, 98, 98] \<and> \<not> finds [94, 97, 46, 42, 98, 36] [97, 98, 120]"
proof -
  have "match [94, 97, 46, 42, 98, 36] [97, 120, 98, 98]"
    "\<not> match [94, 97, 46, 42, 98, 36] [97, 98, 120]"
    by code_simp+
  then show ?thesis by (simp add: match_equiv)
qed

section \<open>The line loop filters the lines of its input\<close>

abbreviation unlines :: "uchar list list \<Rightarrow> uchar list" where
  "unlines ls \<equiv> concat (map (\<lambda>l. l @ [10]) ls)"

abbreviation hits :: "uchar list \<Rightarrow> uchar list list \<Rightarrow> uchar list" where
  "hits pat ls \<equiv> unlines (filter (match pat) ls)"

lemma u_strchr_missing: "c \<notin> set s \<Longrightarrow> u_strchr (cstring s) c = Some None"
  by (induction s) auto

lemma grep_lines_unlines:
  assumes "\<forall>l\<in>set ls. 10 \<notin> set l \<and> 0 \<notin> set l" and "10 \<notin> set rest"
  shows "grep_lines pat (unlines ls @ rest) = (hits pat ls, rest)"
  using assms(1)
proof (induction ls)
  case Nil
  with assms(2) show ?case by (simp add: grep_lines.simps [of pat rest] u_strchr_missing)
next
  case (Cons l ls)
  let ?p = "l @ 10 # unlines ls @ rest"
  have "u_strchr (cstring ?p) 10 = Some (Some (length l))"
    using Cons.prems u_strchr_found [of l 10] by simp
  with Cons show ?case by (simp add: grep_lines.simps [of pat ?p])
qed

lemma unlines_split:
  assumes "x @ y = unlines ls @ rest" and "\<forall>l\<in>set ls. 10 \<notin> set l" and "10 \<notin> set rest"
  obtains ls1 ls2 z where "ls = ls1 @ ls2" and "x = unlines ls1 @ z" and "10 \<notin> set z"
    and "z @ y = unlines ls2 @ rest"
  using assms
proof (induction ls arbitrary: x thesis)
  case Nil
  then show ?case by (intro Nil.prems(1) [of "[]" "[]" x]) auto
next
  case (Cons l ls)
  show ?case
  proof (cases "length x \<le> length l")
    case True
    with Cons.prems(2) have "x = take (length x) l"
      by (auto simp: append_eq_append_conv_if)
    then have "10 \<notin> set x" using Cons.prems(3) by (metis in_set_takeD list.set_intros(1))
    with Cons.prems show ?thesis by (intro Cons.prems(1) [of "[]" "l # ls" x]) auto
  next
    case False
    with Cons.prems(2) obtain x' where x: "x = (l @ [10]) @ x'"
      by (auto simp: append_eq_append_conv2 append_eq_Cons_conv)
    with Cons.prems(2) have "x' @ y = unlines ls @ rest" by simp
    then obtain ls1 ls2 z where "ls = ls1 @ ls2" "x' = unlines ls1 @ z" "10 \<notin> set z"
        "z @ y = unlines ls2 @ rest"
      using Cons.IH Cons.prems(3,4) by (metis list.set_intros(2))
    with x show ?thesis by (intro Cons.prems(1) [of "l # ls1" ls2 z]) auto
  qed
qed

lemma no_newline_no_lines:
  assumes "buf @ t = unlines ls @ rest" and "10 \<notin> set buf"
    and "\<forall>l\<in>set ls. length l < length buf \<or> t = []"
  shows "ls = []"
proof (rule ccontr)
  assume "ls \<noteq> []"
  then obtain l ls' where ls: "ls = l # ls'" by (cases ls) auto
  have "(buf @ t) ! length l = 10" unfolding assms(1) by (simp add: ls nth_append)
  moreover have "length l < length buf"
    using assms(3) arg_cong [OF assms(1), of length] by (auto simp: ls)
  ultimately show False using assms(2) by (metis nth_append nth_mem)
qed

lemma grep_filters:
  assumes "\<forall>l\<in>set ls. length l < 1023 \<and> 10 \<notin> set l \<and> 0 \<notin> set l" and "10 \<notin> set rest"
    and "delivers cs t" and "buf @ t = unlines ls @ rest" and "10 \<notin> set buf" and "length buf < 1024"
  shows "grep pat buf cs = hits pat ls"
  using assms
proof (induction "pending cs" arbitrary: buf cs t ls rule: less_induct)
  case less
  show ?case
  proof (cases "length buf < 1023 \<and> t \<noteq> []")
    case False
    then have "ls = []"
      using less.prems by (intro no_newline_no_lines [of buf t ls rest]) auto
    moreover have "\<exists>cs'. uread (1024 - length buf - 1) cs = (Some [], cs')"
    proof (cases "length buf < 1023")
      case True
      with False less.prems(3) show ?thesis by (cases "(0 :: nat, cs)" rule: uread.cases) auto
    next
      case False
      with less.prems(3,6) show ?thesis by (cases "(0 :: nat, cs)" rule: uread.cases) auto
    qed
    ultimately show ?thesis by (auto simp: grep.simps [of pat buf])
  next
    case True
    then have pos: "0 < 1024 - length buf - 1" by simp
    obtain d t' cs' where d: "uread (1024 - length buf - 1) cs = (Some d, cs')"
        "length d \<le> 1024 - length buf - 1" "d \<noteq> []" "t = d @ t'" "delivers cs' t'"
      using uread_delivers [OF less.prems(3) pos] True by metis
    obtain ls1 ls2 z where z: "ls = ls1 @ ls2" "buf @ d = unlines ls1 @ z" "10 \<notin> set z"
        "z @ t' = unlines ls2 @ rest"
      using unlines_split [of "buf @ d" t' ls rest] less.prems(1,2,4) d(4) by auto
    have "length (buf @ d) < 1024" using d(2) less.prems(6) by simp
    then have "length z < 1024" unfolding z(2) by simp
    then have IH: "grep pat z cs' = hits pat ls2"
      using less.prems(1,2) d z uread_pending [OF d(1,3)] by (intro less.hyps [of cs' ls2 t']) auto
    have "grep_lines pat (buf @ d) = (hits pat ls1, z)"
      unfolding z(2) using less.prems(1) z(1,3) by (intro grep_lines_unlines) auto
    with IH d(1,3) z(1) show ?thesis by (cases d) (simp_all add: grep.simps [of pat buf])
  qed
qed

text \<open>
  C15: \<^verbatim>\<open>grep\<close> prints exactly the matching lines of its input, in order, however the reads cut the
  input into chunks, if every line fits the buffer with its newline. What follows the last newline is
  never looked at: a last line that is not terminated is not printed even if it matches.
\<close>

theorem grep_prints_hits:
  assumes "\<forall>l\<in>set ls. length l < 1023 \<and> 10 \<notin> set l \<and> 0 \<notin> set l" and "10 \<notin> set rest"
    and "None \<notin> set cs" and "Some [] \<notin> set cs" and "concat (map the cs) = unlines ls @ rest"
  shows "grep pat [] cs = unlines (filter (match pat) ls)"
  using assms by (intro grep_filters [where t = "unlines ls @ rest"]) auto

theorem grep_prints_hits_witness:
  "grep [97] [] [Some [98, 97], Some [10, 98], Some [10, 97]] = [98, 97, 10]"
proof -
  have "filter (match [97]) [[98, 97], [98]] = [[98, 97]]" by code_simp
  then show ?thesis
    using grep_prints_hits [of "[[98, 97], [98]]" "[97]" "[Some [98, 97], Some [10, 98], Some [10, 97]]" "[97]"]
    by simp
qed



end
