(* ===== verification/UPrintf.thy ===== *)
theory UPrintf
  imports ULib Digits
begin

text \<open>
  \<^verbatim>\<open>user/printf.c\<close>. Every character goes out through \<^verbatim>\<open>putc\<close>, one \<^verbatim>\<open>write\<close> of one byte; the functions
  give the bytes written, or \<open>None\<close> where the code would store past the end of its buffer or read
  an argument that was not passed or a string that is not terminated.
\<close>

definition u_digits :: "uchar list" where
  "u_digits = map of_char ''0123456789ABCDEF''"

text \<open>The digits are stored, least significant first, into \<^verbatim>\<open>char buf[16]\<close>.\<close>

function u_printint_loop :: "uint \<Rightarrow> uint \<Rightarrow> uchar list \<Rightarrow> uchar list option" where
  "u_printint_loop base x buf =
     (if base < 2 \<or> 16 \<le> length buf then None
      else let buf' = buf @ [u_digits ! unat (x mod base)] in
        if x div base = 0 then Some buf' else u_printint_loop base (x div base) buf')"
  by pat_completeness auto
termination
  by (relation "measure (\<lambda>(base, x, buf). 16 - length buf)") auto

declare u_printint_loop.simps [simp del]

definition u_printint :: "uint \<Rightarrow> uint \<Rightarrow> bool \<Rightarrow> uchar list option" where
  "u_printint xx base sgnd =
     (let neg = sgnd \<and> sint xx < 0;
          x = (if neg then - xx else xx)
      in case u_printint_loop base x [] of
           None \<Rightarrow> None
         | Some buf \<Rightarrow>
             if neg then (if 16 \<le> length buf then None else Some (rev (buf @ [45])))
             else Some (rev buf))"

definition u_printptr :: "uint64 \<Rightarrow> uchar list" where
  "u_printptr x = [48, 120] @ map (\<lambda>i. u_digits ! unat (drop_bit 60 (push_bit (4 * i) x))) [0..<16]"

text \<open>
  A variable argument is a 64-bit slot or a string pointer; \<^verbatim>\<open>va_arg(ap, int)\<close> takes the low half of a
  slot, and so does passing a \<^verbatim>\<open>uint64\<close> to the \<^verbatim>\<open>int\<close> parameter of \<^verbatim>\<open>printint\<close>.
\<close>

datatype varg = VSlot uint64 | VStr "uchar list option"

fun va_int :: "varg list \<Rightarrow> uint \<Rightarrow> bool \<Rightarrow> (uchar list \<times> varg list) option" where
  "va_int (VSlot v # as) base sgnd = map_option (\<lambda>s. (s, as)) (u_printint (ucast v) base sgnd)"
| "va_int _ base sgnd = None"

fun va_ptr :: "varg list \<Rightarrow> (uchar list \<times> varg list) option" where
  "va_ptr (VSlot v # as) = Some (u_printptr v, as)"
| "va_ptr _ = None"

fun va_str :: "varg list \<Rightarrow> (uchar list \<times> varg list) option" where
  "va_str (VStr None # as) = Some (map of_char ''(null)'', as)"
| "va_str (VStr (Some s) # as) = map_option (\<lambda>n. (take n s, as)) (u_strlen s)"
| "va_str _ = None"

text \<open>One conversion: what it prints, the arguments left, and the characters after \<open>c0\<close> it takes.\<close>

definition u_convert ::
    "uchar \<Rightarrow> uchar \<Rightarrow> uchar \<Rightarrow> varg list \<Rightarrow> ((uchar list \<times> varg list) option \<times> nat)" where
  "u_convert c0 c1 c2 as =
     (if c0 = 100 then (va_int as 10 True, 0)
      else if c0 = 108 \<and> c1 = 100 then (va_int as 10 True, 1)
      else if c0 = 108 \<and> c1 = 108 \<and> c2 = 100 then (va_int as 10 True, 2)
      else if c0 = 117 then (va_int as 10 False, 0)
      else if c0 = 108 \<and> c1 = 117 then (va_int as 10 False, 1)
      else if c0 = 108 \<and> c1 = 108 \<and> c2 = 117 then (va_int as 10 False, 2)
      else if c0 = 120 then (va_int as 16 False, 0)
      else if c0 = 108 \<and> c1 = 120 then (va_int as 16 False, 1)
      else if c0 = 108 \<and> c1 = 108 \<and> c2 = 120 then (va_int as 16 False, 2)
      else if c0 = 112 then (va_ptr as, 0)
      else if c0 = 115 then (va_str as, 0)
      else if c0 = 37 then (Some ([37], as), 0)
      else (Some ([37, c0], as), 0))"

function u_vprintf :: "uchar list \<Rightarrow> varg list \<Rightarrow> uchar list option" where
  "u_vprintf fmt as =
     (if byte_at fmt 0 = 0 then Some []
      else if byte_at fmt 0 \<noteq> 37 then map_option ((#) (byte_at fmt 0)) (u_vprintf (drop 1 fmt) as)
      else if byte_at fmt 1 = 0 then Some []
      else
        (case u_convert (byte_at fmt 1) (byte_at fmt 2)
            (if byte_at fmt 2 \<noteq> 0 then byte_at fmt 3 else 0) as of
           (None, _) \<Rightarrow> None
         | (Some (out, as'), k) \<Rightarrow> map_option ((@) out) (u_vprintf (drop (2 + k) fmt) as')))"
  by pat_completeness auto
termination
  by (relation "measure (\<lambda>(fmt, as). length fmt)") (auto simp: byte_at_def split: if_splits)

declare u_vprintf.simps [simp del]

text \<open>\<^verbatim>\<open>printf\<close> is \<^verbatim>\<open>fprintf\<close> on descriptor 1; the result is the descriptor and the bytes written to it.\<close>

definition u_fprintf :: "int \<Rightarrow> string \<Rightarrow> varg list \<Rightarrow> (int \<times> uchar list) option" where
  "u_fprintf fd fmt as = map_option (Pair fd) (u_vprintf (map of_char fmt) as)"

definition u_printf :: "string \<Rightarrow> varg list \<Rightarrow> (int \<times> uchar list) option" where
  "u_printf fmt as = u_fprintf 1 fmt as"

section \<open>Numbers\<close>

lemma u_printint_loop_rdigits:
  assumes "base = 10 \<or> base = 16" and "length buf + length (rdigits (unat base) (unat x)) \<le> 16"
  shows "u_printint_loop base x buf = Some (buf @ map ((!) u_digits) (rdigits (unat base) (unat x)))"
  using assms
proof (induction base x buf rule: u_printint_loop.induct)
  case (1 base x buf)
  let ?b = "unat base" and ?n = "unat x"
  have b: "1 < ?b" "\<not> base < 2" using "1.prems"(1) by (auto simp: word_less_nat_alt)
  have "0 < length (rdigits ?b ?n)" by simp
  with "1.prems"(2) have short: "\<not> 16 \<le> length buf" by linarith
  have zero: "x div base = 0 \<longleftrightarrow> ?n div ?b = 0"
    by (metis unat_div unat_eq_zero)
  show ?case
  proof (cases "?n div ?b = 0")
    case True
    then have "rdigits ?b ?n = [?n mod ?b]" by (simp add: rdigits.simps [of ?b ?n])
    then show ?thesis
      using True zero b short by (simp add: u_printint_loop.simps [of base x] unat_mod)
  next
    case False
    then have r: "rdigits ?b ?n = ?n mod ?b # rdigits ?b (?n div ?b)"
      using b by (simp add: rdigits.simps [of ?b ?n])
    with "1.IH" "1.prems" False zero b short show ?thesis
      by (simp add: u_printint_loop.simps [of base x] unat_mod unat_div)
  qed
qed

lemma u_printint_nonneg:
  assumes "base = 10 \<or> base = 16" and "\<not> (sgnd \<and> sint xx < 0)"
  shows "u_printint xx base sgnd = Some (rev (map ((!) u_digits) (rdigits (unat base) (unat xx))))"
    and "length (rdigits (unat base) (unat xx)) \<le> 10"
proof -
  have "unat xx < 2 ^ 32" using unat_lt2p [of xx] by simp
  then have "unat xx < unat base ^ Suc 9"
    using assms(1) by (elim disjE) (auto elim: order_less_le_trans)
  moreover have "1 < unat base" using assms(1) by auto
  ultimately show "length (rdigits (unat base) (unat xx)) \<le> 10"
    using length_rdigits_le [of "unat base" "unat xx" 9] by simp
  then show "u_printint xx base sgnd = Some (rev (map ((!) u_digits) (rdigits (unat base) (unat xx))))"
    using assms u_printint_loop_rdigits [of base "[]" xx] by (auto simp: u_printint_def Let_def)
qed

lemma u_digits_decimal:
  "d < 10 \<Longrightarrow> 48 \<le> u_digits ! d \<and> u_digits ! d \<le> 57 \<and> ucast (u_digits ! d) = (48 + of_nat d :: uint)"
proof -
  assume "d < 10"
  then have "d \<in> set [0, 1, 2, 3, 4, 5, 6, 7, 8, 9]" by auto
  then show ?thesis by (auto simp: u_digits_def of_char_def)
qed

lemma atoi_loop_digits:
  "\<forall>d\<in>set ds. d < 10 \<Longrightarrow>
    atoi_loop (of_nat n) (map ((!) u_digits) ds @ [0]) = Some (of_nat (horner 10 n ds))"
proof (induction ds arbitrary: n)
  case (Cons d ds)
  have "(of_nat n * 10 + ucast (u_digits ! d) - 48 :: uint) = of_nat (n * 10 + d)"
    using Cons.prems u_digits_decimal [of d] by simp
  with Cons u_digits_decimal [of d] show ?case by (simp del: of_nat_add of_nat_mult)
qed simp

text \<open>
  C29: what \<^verbatim>\<open>printint\<close> prints for \<^verbatim>\<open>%d\<close> or \<^verbatim>\<open>%u\<close> of a number that is not negative as an \<^verbatim>\<open>int\<close>, \<^verbatim>\<open>atoi\<close>
  reads back as the same number; at most ten characters are stored, none of them a NUL, so the
  16-byte buffer never overflows.
\<close>

theorem printint_atoi_roundtrip:
  assumes "0 \<le> sint xx"
  shows "\<exists>s. u_printint xx 10 sgnd = Some s \<and> length s \<le> 10 \<and> 0 \<notin> set s \<and> u_atoi (cstring s) = Some xx"
proof -
  let ?ds = "rdigits 10 (unat xx)"
  let ?s = "rev (map ((!) u_digits) ?ds)"
  have "u_printint xx 10 sgnd = Some ?s" and "length ?s \<le> 10"
    using u_printint_nonneg [of 10 sgnd xx] assms by simp_all
  moreover have ds: "\<forall>d\<in>set ?ds. d < 10" by (rule rdigits_bound) simp
  then have "0 \<notin> set ?s"
    using u_digits_decimal by fastforce
  moreover have "u_atoi (cstring ?s) = Some xx"
    using atoi_loop_digits [of "rev ?ds" 0] ds horner_rdigits [of 10 "unat xx"]
    by (simp add: u_atoi_def rev_map)
  ultimately show ?thesis by blast
qed

theorem printint_atoi_roundtrip_witness:
  "\<exists>s. u_printint 2024 10 True = Some s \<and> u_atoi (cstring s) = Some 2024"
  using printint_atoi_roundtrip [of 2024 True] by (auto simp: sint_uint)

text \<open>\<^verbatim>\<open>%ld\<close> and \<^verbatim>\<open>%lld\<close> print only the low half of the 64-bit argument they take.\<close>

lemma ld_truncates: "u_vprintf (map of_char ''%ld'') [VSlot (2 ^ 32 + 7)] = Some (map of_char ''7'')"
  by code_simp

end
