(* ===== verification/Filters.thy ===== *)
theory Filters
  imports Grep UPrintf
begin

text \<open>
  The user programs that read files and write to standard output: \<^verbatim>\<open>user/cat.c\<close>, \<^verbatim>\<open>user/wc.c\<close>,
  \<^verbatim>\<open>user/echo.c\<close> and the main function of \<^verbatim>\<open>user/grep.c\<close>. A program is the list of what it writes,
  each entry a descriptor and the bytes passed to one \<^verbatim>\<open>write\<close> or one \<^verbatim>\<open>printf\<close>, and its exit status.
  What it reads are sources, and which path names can be opened is a parameter.
\<close>

type_synonym uwrites = "(int \<times> uchar list) list"

text \<open>A \<^verbatim>\<open>printf\<close> as an entry of the list; every call below passes the arguments its format takes.\<close>

definition say :: "int \<Rightarrow> string \<Rightarrow> varg list \<Rightarrow> uwrites" where
  "say fd fmt as = (case u_fprintf fd fmt as of None \<Rightarrow> [] | Some w \<Rightarrow> [w])"

text \<open>What a descriptor has received in the end.\<close>

definition received :: "int \<Rightarrow> uwrites \<Rightarrow> uchar list" where
  "received fd ws = concat (map snd (filter (\<lambda>w. fst w = fd) ws))"

lemma received_simps [simp]:
  "received fd [] = []"
  "received fd (w # ws) = (if fst w = fd then snd w @ received fd ws else received fd ws)"
  "received fd (ws @ ws') = received fd ws @ received fd ws'"
  by (simp_all add: received_def)

section \<open>The loop over the files\<close>

text \<open>
  \<^verbatim>\<open>cat\<close>, \<^verbatim>\<open>wc\<close> and \<^verbatim>\<open>grep\<close> handle their files in the same loop: \<open>opn\<close> tells what opening a path gives,
  \<open>complain\<close> is what they write when it fails, and \<open>body\<close> is the work on one file, which returns or
  exits with a status.
\<close>

fun each_file ::
    "(uchar list \<Rightarrow> source option) \<Rightarrow> (uchar list \<Rightarrow> uwrites) \<Rightarrow>
     (uchar list \<Rightarrow> source \<Rightarrow> uwrites \<times> int option) \<Rightarrow> uchar list list \<Rightarrow> uwrites \<times> int" where
  "each_file opn complain body [] = ([], 0)"
| "each_file opn complain body (f # fs) =
     (case opn f of
        None \<Rightarrow> (complain f, 1)
      | Some cs \<Rightarrow>
          (case body f cs of
             (ws, Some st) \<Rightarrow> (ws, st)
           | (ws, None) \<Rightarrow> map_prod ((@) ws) id (each_file opn complain body fs)))"

section \<open>cat.c\<close>

text \<open>\<open>wr\<close> is the number of bytes a \<^verbatim>\<open>write\<close> says it has written.\<close>

function cat :: "(uchar list \<Rightarrow> int) \<Rightarrow> source \<Rightarrow> uwrites \<times> int option" where
  "cat wr cs =
     (case uread 512 cs of
        (None, _) \<Rightarrow> (say 2 (''cat: read error'' @ [CHR 0x0A]) [], Some 1)
      | (Some [], _) \<Rightarrow> ([], None)
      | (Some (d # ds), cs') \<Rightarrow>
          if wr (d # ds) \<noteq> int (length (d # ds))
          then ((1, d # ds) # say 2 (''cat: write error'' @ [CHR 0x0A]) [], Some 1)
          else map_prod ((#) (1, d # ds)) id (cat wr cs'))"
  by pat_completeness auto
termination
  by (relation "measure (\<lambda>(wr, cs). pending cs)") (auto dest!: sym [of _ "uread _ _"] uread_pending)

declare cat.simps [simp del]

definition cat_main ::
    "(uchar list \<Rightarrow> int) \<Rightarrow> source \<Rightarrow> (uchar list \<Rightarrow> source option) \<Rightarrow> uchar list list \<Rightarrow> uwrites \<times> int" where
  "cat_main wr stdin opn argv =
     (if length argv \<le> 1 then
        (case cat wr stdin of (ws, Some st) \<Rightarrow> (ws, st) | (ws, None) \<Rightarrow> (ws, 0))
      else each_file opn (\<lambda>f. say 2 (''cat: cannot open %s'' @ [CHR 0x0A]) [VStr (Some (cstring f))])
        (\<lambda>f. cat wr) (drop 1 argv))"

section \<open>wc.c\<close>

text \<open>The counters are 32-bit integers.\<close>

record wcount =
  wc_l :: uint
  wc_w :: uint
  wc_c :: uint
  wc_inword :: bool

definition wc_byte :: "uchar \<Rightarrow> wcount \<Rightarrow> wcount" where
  "wc_byte b s =
     (let s = s\<lparr>wc_c := wc_c s + 1\<rparr>;
          s = (if b = 10 then s\<lparr>wc_l := wc_l s + 1\<rparr> else s)
      in if u_strchr (cstring [32, 13, 9, 10, 11]) b \<noteq> Some None then s\<lparr>wc_inword := False\<rparr>
         else if \<not> wc_inword s then s\<lparr>wc_w := wc_w s + 1, wc_inword := True\<rparr>
         else s)"

function wc_loop :: "source \<Rightarrow> wcount \<Rightarrow> wcount option" where
  "wc_loop cs s =
     (case uread 512 cs of
        (None, _) \<Rightarrow> None
      | (Some [], _) \<Rightarrow> Some s
      | (Some (d # ds), cs') \<Rightarrow> wc_loop cs' (fold wc_byte (d # ds) s))"
  by pat_completeness auto
termination
  by (relation "measure (\<lambda>(cs, s). pending cs)") (auto dest!: sym [of _ "uread _ _"] uread_pending)

declare wc_loop.simps [simp del]

definition wc :: "uchar list \<Rightarrow> source \<Rightarrow> uwrites \<times> int option" where
  "wc name cs =
     (case wc_loop cs \<lparr>wc_l = 0, wc_w = 0, wc_c = 0, wc_inword = False\<rparr> of
        None \<Rightarrow> (say 1 (''wc: read error'' @ [CHR 0x0A]) [], Some 1)
      | Some s \<Rightarrow>
          (say 1 (''%d %d %d %s'' @ [CHR 0x0A])
             [VSlot (ucast (wc_l s)), VSlot (ucast (wc_w s)), VSlot (ucast (wc_c s)), VStr (Some (cstring name))],
           None))"

definition wc_main :: "source \<Rightarrow> (uchar list \<Rightarrow> source option) \<Rightarrow> uchar list list \<Rightarrow> uwrites \<times> int" where
  "wc_main stdin opn argv =
     (if length argv \<le> 1 then
        (case wc [] stdin of (ws, Some st) \<Rightarrow> (ws, st) | (ws, None) \<Rightarrow> (ws, 0))
      else each_file opn (\<lambda>f. say 1 (''wc: cannot open %s'' @ [CHR 0x0A]) [VStr (Some (cstring f))])
        wc (drop 1 argv))"

section \<open>grep.c and echo.c\<close>

definition grep_main :: "source \<Rightarrow> (uchar list \<Rightarrow> source option) \<Rightarrow> uchar list list \<Rightarrow> uwrites \<times> int" where
  "grep_main stdin opn argv =
     (if length argv \<le> 1 then (say 2 (''usage: grep pattern [file ...]'' @ [CHR 0x0A]) [], 1)
      else if length argv \<le> 2 then ([(1, grep (argv ! 1) [] stdin)], 0)
      else each_file opn (\<lambda>f. say 1 (''grep: cannot open %s'' @ [CHR 0x0A]) [VStr (Some (cstring f))])
        (\<lambda>f cs. ([(1, grep (argv ! 1) [] cs)], None)) (drop 2 argv))"

fun echo_loop :: "uchar list list \<Rightarrow> uwrites" where
  "echo_loop [] = []"
| "echo_loop (a # as) = (1, a) # (1, if as \<noteq> [] then [32] else [10]) # echo_loop as"

definition echo_main :: "uchar list list \<Rightarrow> uwrites \<times> int" where
  "echo_main argv = (echo_loop (drop 1 argv), 0)"

section \<open>cat copies and wc counts\<close>

lemma cat_copies:
  assumes "\<And>d. wr d = int (length d)" and "delivers cs t"
  shows "\<exists>ws. cat wr cs = (ws, None) \<and> received 1 ws = t \<and> received 2 ws = []"
  using assms(2)
proof (induction "pending cs" arbitrary: cs t rule: less_induct)
  case less
  obtain d t' cs' where d: "uread 512 cs = (Some d, cs')" "d = [] \<longleftrightarrow> t = []" "t = d @ t'" "delivers cs' t'"
    using uread_delivers [OF less.prems, of 512] by (metis zero_less_numeral)
  show ?case
  proof (cases d)
    case Nil
    with d show ?thesis by (simp add: cat.simps [of wr cs])
  next
    case (Cons b bs)
    then obtain ws where "cat wr cs' = (ws, None)" "received 1 ws = t'" "received 2 ws = []"
      using less.hyps [OF uread_pending [OF d(1)] d(4)] by auto
    with d Cons assms(1) show ?thesis by (simp add: cat.simps [of wr cs])
  qed
qed

lemma wc_loop_fold:
  "delivers cs t \<Longrightarrow> wc_loop cs s = Some (fold wc_byte t s)"
proof (induction "pending cs" arbitrary: cs t s rule: less_induct)
  case less
  obtain d t' cs' where d: "uread 512 cs = (Some d, cs')" "d = [] \<longleftrightarrow> t = []" "t = d @ t'" "delivers cs' t'"
    using uread_delivers [OF less.prems, of 512] by (metis zero_less_numeral)
  show ?case
  proof (cases d)
    case Nil
    with d show ?thesis by (simp add: wc_loop.simps [of cs s])
  next
    case (Cons b bs)
    then have "wc_loop cs' (fold wc_byte d s) = Some (fold wc_byte t' (fold wc_byte d s))"
      using less.hyps [OF uread_pending [OF d(1)] d(4)] by auto
    with d Cons show ?thesis by (simp add: wc_loop.simps [of cs s])
  qed
qed

text \<open>The words of a text: the maximal stretches without white space.\<close>

definition blank :: "uchar \<Rightarrow> bool" where
  "blank b \<longleftrightarrow> b \<in> {32, 13, 9, 10, 11}"

function words :: "uchar list \<Rightarrow> uchar list list" where
  "words t =
     (let u = dropWhile blank t in
      if u = [] then [] else takeWhile (Not \<circ> blank) u # words (dropWhile (Not \<circ> blank) u))"
  by pat_completeness auto
termination
proof (relation "measure length")
  fix t u :: "uchar list"
  assume u: "u = dropWhile blank t" "u \<noteq> []"
  then have "\<not> blank (hd u)" by (metis hd_dropWhile)
  then have "length (dropWhile (Not \<circ> blank) u) < length u"
    using u(2) by (cases u) (auto simp: le_imp_less_Suc length_dropWhile_le)
  also have "length u \<le> length t" unfolding u(1) by (rule length_dropWhile_le)
  finally show "(dropWhile (Not \<circ> blank) u, t) \<in> measure length" by simp
qed simp

declare words.simps [simp del]

lemma words_blank: "blank b \<Longrightarrow> words (b # t) = words t"
  by (simp add: words.simps [of "b # t"] words.simps [of t])

lemma words_letter: "\<not> blank b \<Longrightarrow> length (words (b # t)) = Suc (length (words (dropWhile (Not \<circ> blank) t)))"
  by (simp add: words.simps [of "b # t"])

lemma wc_byte_simps [simp]:
  "wc_c (wc_byte b s) = wc_c s + 1"
  "wc_l (wc_byte b s) = (if b = 10 then wc_l s + 1 else wc_l s)"
  "wc_w (wc_byte b s) = (if \<not> blank b \<and> \<not> wc_inword s then wc_w s + 1 else wc_w s)"
  "wc_inword (wc_byte b s) = (\<not> blank b)"
  by (auto simp: wc_byte_def Let_def blank_def)

lemma wc_fold:
  "wc_c (fold wc_byte t s) = wc_c s + of_nat (length t)"
  "wc_l (fold wc_byte t s) = wc_l s + of_nat (length (filter ((=) 10) t))"
  "wc_w (fold wc_byte t s) =
     wc_w s + of_nat (length (words (if wc_inword s then dropWhile (Not \<circ> blank) t else t)))"
proof (induction t arbitrary: s)
  case Nil
  { case 1 show ?case by simp
  next case 2 show ?case by simp
  next case 3 show ?case by (simp add: words.simps [of "[]"]) }
next
  case (Cons b t)
  { case 1 show ?case using Cons by simp
  next case 2 show ?case using Cons by simp
  next
    case 3
    have "wc_w (fold wc_byte (b # t) s) = wc_w (wc_byte b s) +
        of_nat (length (words (if \<not> blank b then dropWhile (Not \<circ> blank) t else t)))"
      using Cons(3) [of "wc_byte b s"] by simp
    then show ?case
      using words_blank [of b t] words_letter [of b t] by (cases "blank b") simp_all }
qed

text \<open>
  C30: \<^verbatim>\<open>wc\<close> prints the number of newlines, of words and of bytes of its input, followed by the name,
  however the reads cut the input into chunks: a word that is read in two parts is counted once. The
  counters are those numbers modulo \<open>2 ^ 32\<close>.
\<close>

theorem wc_counts:
  assumes "None \<notin> set cs" and "Some [] \<notin> set cs" and "concat (map the cs) = t"
  shows "wc name cs =
    (say 1 (''%d %d %d %s'' @ [CHR 0x0A])
       [VSlot (ucast (of_nat (length (filter ((=) 10) t)) :: uint)),
        VSlot (ucast (of_nat (length (words t)) :: uint)),
        VSlot (ucast (of_nat (length t) :: uint)), VStr (Some (name @ [0]))], None)"
  using wc_loop_fold [of cs t] assms by (simp add: wc_def wc_fold)

theorem wc_counts_witness:
  "wc [102] [Some [97, 98], Some [99, 32], Some [100, 10]] = ([(1, map of_char ''1 2 6 f'' @ [10])], None)"
proof -
  have "length (words [97, 98, 99, 32, 100, 10]) = 2"
    by (simp add: words_blank words_letter words.simps [of "[]"] blank_def)
  moreover have "say 1 (''%d %d %d %s'' @ [CHR 0x0A])
      [VSlot (ucast (1 :: uint)), VSlot (ucast (2 :: uint)), VSlot (ucast (6 :: uint)), VStr (Some [102, 0])]
      = [(1, map of_char ''1 2 6 f'' @ [10])]"
    by code_simp
  ultimately show ?thesis
    using wc_counts [of "[Some [97, 98], Some [99, 32], Some [100, 10]]" "[97, 98, 99, 32, 100, 10]" "[102]"]
    by simp
qed

end
