(* ===== verification/Primes.thy ===== *)
theory Primes
  imports Kernel
begin

text \<open>
  \<^verbatim>\<open>user/primes.c\<close>: a pipeline of processes, each of which prints the first number it reads and passes
  on those of the others that are not its multiples. Every write puts one whole \<^verbatim>\<open>int\<close> into the pipe
  and every read takes one, so a pipe carries a list of numbers. A process prints before it forks the
  next one, which makes the order of the lines that of the processes; and since each process does
  nothing but read its one input and write its one output, the lists do not depend on how the
  processes are scheduled.
\<close>

text \<open>\<open>sieve pfd\<close>: the numbers printed by the process that reads the list \<open>pfd\<close> and by those behind it.\<close>

fun sieve :: "int list \<Rightarrow> int list" where
  "sieve [] = []"
| "sieve (prime # pfd) = prime # sieve (filter (\<lambda>n. n mod prime \<noteq> 0) pfd)"

definition primes_main :: "int list" where
  "primes_main = sieve [2..280]"

text \<open>The processes of the pipeline: one for each number printed, and the one that reads nothing.\<close>

fun sieve_processes :: "int list \<Rightarrow> nat" where
  "sieve_processes [] = 1"
| "sieve_processes (prime # pfd) = Suc (sieve_processes (filter (\<lambda>n. n mod prime \<noteq> 0) pfd))"

lemma sieve_processes_length: "sieve_processes xs = Suc (length (sieve xs))"
  by (induction xs rule: sieve.induct) auto

definition is_prime :: "int \<Rightarrow> bool" where
  "is_prime p \<longleftrightarrow> 2 \<le> p \<and> (\<forall>d\<in>{2..<p}. \<not> d dvd p)"

text \<open>The numbers from \<open>k\<close> on that have no divisor below \<open>k\<close>: what reaches the process of the prime \<open>k\<close>.\<close>

definition rough :: "int \<Rightarrow> int \<Rightarrow> int list" where
  "rough k n = filter (\<lambda>m. \<forall>d\<in>{2..<k}. \<not> d dvd m) [k..n]"

lemma rough_step:
  assumes "2 \<le> k" and "k \<le> n"
    and that: "rough' = filter (\<lambda>m. \<forall>d\<in>{2..<k}. \<not> d dvd m) [k + 1..n]"
  shows "rough k n =
    (if is_prime k then k # rough' else rough (k + 1) n) \<and>
    (is_prime k \<longrightarrow> filter (\<lambda>m. m mod k \<noteq> 0) rough' = rough (k + 1) n)"
proof -
  have up: "[k..n] = k # [k + 1..n]" using assms(2) by (rule upto_rec1)
  have ins: "{2..<k + 1} = insert k {2..<k}" using assms(1) by auto
  show ?thesis
  proof (cases "is_prime k")
    case True
    then have "rough k n = k # rough'" by (simp add: rough_def up that is_prime_def)
    moreover have "filter (\<lambda>m. m mod k \<noteq> 0) rough' = rough (k + 1) n"
      by (auto simp: rough_def that ins dvd_eq_mod_eq_0 intro!: filter_cong)
    ultimately show ?thesis using True by simp
  next
    case False
    then obtain d where d: "d \<in> {2..<k}" "d dvd k" using assms(1) by (auto simp: is_prime_def)
    have "(\<forall>e\<in>{2..<k}. \<not> e dvd m) = (\<forall>e\<in>{2..<k + 1}. \<not> e dvd m)" for m
      unfolding ins using d dvd_trans by blast
    then have "rough k n = rough (k + 1) n"
      using False assms(1) by (auto simp: rough_def up is_prime_def)
    with False show ?thesis by simp
  qed
qed

lemma sieve_rough: "2 \<le> k \<Longrightarrow> sieve (rough k n) = filter is_prime [k..n]"
proof (induction "nat (n + 1 - k)" arbitrary: k)
  case 0
  then show ?case by (simp add: rough_def)
next
  case (Suc x)
  then have IH: "sieve (rough (k + 1) n) = filter is_prime [k + 1..n]" and less: "k \<le> n" by simp_all
  note step = rough_step [OF Suc.prems less refl]
  have "[k..n] = k # [k + 1..n]" using less by (rule upto_rec1)
  with step IH show ?case by (cases "is_prime k") simp_all
qed

lemma sieve_primes: "sieve [2..n] = filter is_prime [2..n]"
  using sieve_rough [of 2 n] by (simp add: rough_def)


end
