(* ===== verification/Xargs.thy ===== *)
theory Xargs
  imports ULib
begin

text \<open>
  \<^verbatim>\<open>user/xargs.c\<close>. The program is the list of the argument vectors it hands to \<^verbatim>\<open>exec\<close>, one for each line,
  and how it ends. The variable \<open>c\<close> is declared inside the loop and has no value until a byte has been
  read into it; a branch on it before that is undefined.
\<close>

datatype xend = Exited | Undefined

text \<open>\<open>read_line buf c cs\<close>: the line, the last byte read if any, and what is left to read.\<close>

function read_line ::
    "uchar list \<Rightarrow> uchar option \<Rightarrow> source \<Rightarrow> uchar list \<times> uchar option \<times> source" where
  "read_line buf c cs =
     (case uread 1 cs of
        (Some [x], cs') \<Rightarrow>
          if x \<noteq> 10 then read_line (if length buf < 511 then buf @ [x] else buf) (Some x) cs'
          else (buf, Some x, cs')
      | (_, cs') \<Rightarrow> (buf, c, cs'))"
  by pat_completeness auto
termination
  by (relation "measure (\<lambda>(buf, c, cs). pending cs)") (auto dest!: sym [of _ "uread _ _"] uread_pending)

declare read_line.simps [simp del]

abbreviation space :: "uchar \<Rightarrow> bool" where
  "space b \<equiv> b = 32 \<or> b = 9"

text \<open>
  The arguments found in a line, at most \<open>k\<close> more of them; each is terminated in place by a NUL, and
  read by \<^verbatim>\<open>exec\<close> up to its first NUL.
\<close>

fun split_args :: "nat \<Rightarrow> uchar list \<Rightarrow> uchar list list" where
  "split_args 0 buf = []"
| "split_args (Suc k) buf =
     (let b = dropWhile space buf in
      if b = [] then []
      else takeWhile ((\<noteq>) 0) (takeWhile (Not \<circ> space) b) #
        split_args k (drop 1 (dropWhile (Not \<circ> space) b)))"

text \<open>At most \<^verbatim>\<open>MAXARG - 2\<close> arguments of the command line are kept, and the vector holds \<^verbatim>\<open>MAXARG - 1\<close>.\<close>

definition xargs_cmd :: "uchar list list \<Rightarrow> uchar list \<Rightarrow> uchar list list" where
  "xargs_cmd argv buf = (let cmd = take 30 (drop 1 argv) in cmd @ split_args (31 - length cmd) buf)"

lemma read_line_stop:
  "\<nexists>y ds. uread 1 cs = (Some [y], ds) \<Longrightarrow> read_line buf c cs = (buf, c, snd (uread 1 cs))"
  by (auto simp: read_line.simps [of buf c cs] split: prod.splits option.splits list.splits)

lemma read_line_byte:
  "uread 1 cs = (Some [y], ds) \<Longrightarrow> read_line buf c cs =
    (if y = 10 then (buf, Some y, ds)
     else read_line (if length buf < 511 then buf @ [y] else buf) (Some y) ds)"
  by (simp add: read_line.simps [of buf c cs])

lemma read_line_le: "pending (snd (snd (read_line buf c cs))) \<le> pending cs"
proof (induction "pending cs" arbitrary: buf c cs rule: less_induct)
  case less
  show ?case
  proof (cases "\<exists>y ds. uread 1 cs = (Some [y], ds)")
    case True
    then obtain y ds where y: "uread 1 cs = (Some [y], ds)" by blast
    then have "pending ds < pending cs" using uread_pending [of 1 cs "[y]" ds] by simp
    with less y show ?thesis by (simp add: read_line_byte less_imp_le order_trans [of _ "pending ds"])
  next
    case False
    then show ?thesis
      by (cases "(1 :: nat, cs)" rule: uread.cases) (auto simp: read_line_stop)
  qed
qed

lemma read_line_pending:
  assumes "read_line buf None cs = (buf', Some x, cs')"
  shows "pending cs' < pending cs"
proof (cases "\<exists>y ds. uread 1 cs = (Some [y], ds)")
  case True
  then obtain y ds where y: "uread 1 cs = (Some [y], ds)" by blast
  then have "pending ds < pending cs" using uread_pending [of 1 cs "[y]" ds] by simp
  moreover have "pending cs' \<le> pending ds"
    using assms read_line_le [of "if length buf < 511 then buf @ [y] else buf" "Some y" ds]
    by (auto simp: read_line_byte [OF y] split: if_splits)
  ultimately show ?thesis by simp
next
  case False
  with assms show ?thesis by (simp add: read_line_stop)
qed

function xargs :: "uchar list list \<Rightarrow> source \<Rightarrow> uchar list list list \<times> xend" where
  "xargs argv cs =
     (case read_line [] None cs of (buf, c, cs') \<Rightarrow>
        if buf = [] \<and> c = None then ([], Undefined)
        else if buf = [] \<and> c \<noteq> Some 10 then ([], Exited)
        else if c \<noteq> Some 10 then ([xargs_cmd argv buf], Exited)
        else map_prod ((#) (xargs_cmd argv buf)) id (xargs argv cs'))"
  by pat_completeness auto
termination
  by (relation "measure (\<lambda>(argv, cs). pending cs)")
    (auto dest!: sym [of _ "read_line _ _ _"] read_line_pending)

declare xargs.simps [simp del]

section \<open>Lines and arguments\<close>

lemma read_line_line:
  assumes "None \<notin> set cs" and "Some [] \<notin> set cs" and "concat (map the cs) = l @ 10 # t"
    and "10 \<notin> set l" and "length buf + length l \<le> 511"
  shows "\<exists>cs'. read_line buf c cs = (buf @ l, Some 10, cs') \<and> delivers cs' t"
  using assms
proof (induction l arbitrary: buf c cs)
  case Nil
  then obtain ds where "uread 1 cs = (Some [10], ds)" "delivers ds t"
    using uread_byte [of cs 10 t] by auto
  then show ?case by (simp add: read_line_byte [of cs 10 ds])
next
  case (Cons b l)
  then obtain ds where "uread 1 cs = (Some [b], ds)" "delivers ds (l @ 10 # t)"
    using uread_byte [of cs b "l @ 10 # t"] by auto
  with Cons.prems Cons.IH [of ds "buf @ [b]" "Some b"] show ?case
    by (simp add: read_line_byte [of cs b ds])
qed

lemma read_line_end: "delivers cs [] \<Longrightarrow> read_line buf c cs = (buf, c, snd (uread 1 cs))"
  by (cases "(1 :: nat, cs)" rule: uread.cases) (auto simp: read_line_stop)



end
