(* ===== verification/Mkfs.thy ===== *)
theory Mkfs
  imports FS_Codec ULib
begin

text \<open>
  \<^verbatim>\<open>mkfs/mkfs.c\<close>, the program that builds the file system image on the host. The image file is a list of
  blocks; the counters \<^verbatim>\<open>freeinode\<close> and \<^verbatim>\<open>freeblock\<close> and the superblock are the globals of the program.
  An assertion that fails and a call of \<^verbatim>\<open>die\<close> end the program; both are \<open>Panic\<close> here. What the program
  prints for its user is left out.
\<close>

section \<open>Layout and state\<close>

definition NINODES :: nat where "NINODES = 200"
definition nbitmap :: nat where "nbitmap = FSSIZE div BPB + 1"
definition ninodeblocks :: nat where "ninodeblocks = NINODES div IPB + 1"
definition nlog :: nat where "nlog = LOGSIZE"
definition nmeta :: nat where "nmeta = 2 + nlog + ninodeblocks + nbitmap"

record mkfs =
  m_img :: "uchar list list"
  m_sb :: superblock
  m_freeinode :: uint
  m_freeblock :: uint

text \<open>
  \<^verbatim>\<open>xshort\<close> and \<^verbatim>\<open>xint\<close> store the bytes of a number in the order of the target; the value they return is
  what a host that is little-endian as well reads back.
\<close>

definition xshort :: "ushort \<Rightarrow> ushort" where
  "xshort x = le16 [ucast x, ucast (drop_bit 8 x)] 0"

definition xint :: "uint \<Rightarrow> uint" where
  "xint x = le32 [ucast x, ucast (drop_bit 8 x), ucast (drop_bit 16 x), ucast (drop_bit 24 x)] 0"

definition mk_superblock :: superblock where
  "mk_superblock = \<lparr>sb_magic = FSMAGIC, sb_size = xint (of_nat FSSIZE),
     sb_nblocks = xint (of_nat (FSSIZE - nmeta)), sb_ninodes = xint (of_nat NINODES),
     sb_nlog = xint (of_nat nlog), sb_logstart = xint 2, sb_inodestart = xint (of_nat (2 + nlog)),
     sb_bmapstart = xint (of_nat (2 + nlog + ninodeblocks))\<rparr>"

definition enc_superblock :: "superblock \<Rightarrow> uchar list" where
  "enc_superblock b = bytes32 (sb_magic b) @ bytes32 (sb_size b) @ bytes32 (sb_nblocks b) @
     bytes32 (sb_ninodes b) @ bytes32 (sb_nlog b) @ bytes32 (sb_logstart b) @
     bytes32 (sb_inodestart b) @ bytes32 (sb_bmapstart b)"

section \<open>Sectors and inodes\<close>

text \<open>
  The offset \<^verbatim>\<open>sec * BSIZE\<close> is computed in 32 bits. A write behind the end of the file fills the gap
  with zeroes, and a read there is short.
\<close>

definition sect :: "uint \<Rightarrow> nat" where
  "sect sec = unat (sec * of_nat BSIZE) div BSIZE"

definition img_write :: "uchar list list \<Rightarrow> nat \<Rightarrow> uchar list \<Rightarrow> uchar list list" where
  "img_write img i buf =
     (if i < length img then img[i := buf]
      else img @ replicate (i - length img) (replicate BSIZE 0) @ [buf])"

definition wsect :: "uint \<Rightarrow> uchar list \<Rightarrow> (unit, mkfs) kmonad" where
  "wsect sec buf = writes (\<lambda>s. s\<lparr>m_img := img_write (m_img s) (sect sec) buf\<rparr>)"

definition rsect :: "uint \<Rightarrow> (uchar list, mkfs) kmonad" where
  "rsect sec =
     bnd (reads m_img) (\<lambda>img.
     if length img \<le> sect sec then panic ''read'' else ret (img ! sect sec))"

definition winode :: "uint \<Rightarrow> dinode \<Rightarrow> (unit, mkfs) kmonad" where
  "winode inum ip =
     bnd (reads m_sb) (\<lambda>sb.
     bnd (rsect (IBLOCK inum sb)) (\<lambda>buf.
     wsect (IBLOCK inum sb) (splice buf (dinode_off inum) (enc_dinode ip))))"

definition rinode :: "uint \<Rightarrow> (dinode, mkfs) kmonad" where
  "rinode inum =
     bnd (reads m_sb) (\<lambda>sb.
     bnd (rsect (IBLOCK inum sb)) (\<lambda>buf.
     ret (dec_dinode (take DINODE_SIZE (drop (dinode_off inum) buf)))))"

definition mk_ialloc :: "ushort \<Rightarrow> (uint, mkfs) kmonad" where
  "mk_ialloc type =
     bnd (reads m_freeinode) (\<lambda>inum.
     thn (writes (\<lambda>s. s\<lparr>m_freeinode := inum + 1\<rparr>)) (
     thn (winode inum \<lparr>di_type = xshort type, di_major = 0, di_minor = 0, di_nlink = xshort 1,
            di_size = xint 0, di_addrs = replicate (NDIRECT + 1) 0\<rparr>)
         (ret inum)))"

definition new_block :: "(uint, mkfs) kmonad" where
  "new_block =
     bnd (reads m_freeblock) (\<lambda>b.
     thn (writes (\<lambda>s. s\<lparr>m_freeblock := b + 1\<rparr>))
         (ret (xint b)))"

section \<open>Appending to a file\<close>

text \<open>
  The block of a file that holds its block number \<open>fbn\<close>, allocated if there is none yet, and the inode
  with the address entered.
\<close>

definition mk_bmap :: "dinode \<Rightarrow> nat \<Rightarrow> (dinode \<times> uint, mkfs) kmonad" where
  "mk_bmap din fbn =
     (if fbn < NDIRECT then
        bnd (if xint (di_addrs din ! fbn) = 0
             then bnd new_block (\<lambda>b. ret (din\<lparr>di_addrs := (di_addrs din)[fbn := b]\<rparr>))
             else ret din) (\<lambda>din.
        ret (din, xint (di_addrs din ! fbn)))
      else
        bnd (if xint (di_addrs din ! NDIRECT) = 0
             then bnd new_block (\<lambda>b. ret (din\<lparr>di_addrs := (di_addrs din)[NDIRECT := b]\<rparr>))
             else ret din) (\<lambda>din.
        bnd (rsect (xint (di_addrs din ! NDIRECT))) (\<lambda>indirect.
        let i = 4 * (fbn - NDIRECT) in
        bnd (if le32 indirect i = 0
             then bnd new_block (\<lambda>b.
                  thn (wsect (xint (di_addrs din ! NDIRECT)) (splice indirect i (bytes32 b)))
                      (ret (splice indirect i (bytes32 b))))
             else ret indirect) (\<lambda>indirect.
        ret (din, xint (le32 indirect i))))))"

function iappend_loop :: "dinode \<Rightarrow> nat \<Rightarrow> uchar list \<Rightarrow> (dinode \<times> nat, mkfs) kmonad" where
  "iappend_loop din off p =
     (if p = [] then ret (din, off)
      else
        let fbn = off div BSIZE in
        if MAXFILE \<le> fbn then panic ''fbn < MAXFILE''
        else
          bnd (mk_bmap din fbn) (\<lambda>(din, x).
          let n1 = min (length p) ((fbn + 1) * BSIZE - off) in
          bnd (rsect x) (\<lambda>buf.
          thn (wsect x (splice buf (off - fbn * BSIZE) (take n1 p)))
              (iappend_loop din (off + n1) (drop n1 p)))))"
  by pat_completeness auto
termination
proof (relation "measure (\<lambda>(din, off, p). length p)")
  fix din :: dinode and off :: nat and p :: "uchar list" and fbn n1 a b d x
  assume "p \<noteq> []" and "fbn = off div BSIZE" and "n1 = min (length p) ((fbn + 1) * BSIZE - off)"
  moreover have "off < (off div BSIZE + 1) * BSIZE"
    by (simp add: BSIZE_def dividend_less_div_times)
  ultimately show "((d, off + n1, drop n1 p), din, off, p) \<in> measure (\<lambda>(din, off, p). length p)"
    by auto
qed simp

declare iappend_loop.simps [simp del]

definition iappend :: "uint \<Rightarrow> uchar list \<Rightarrow> (unit, mkfs) kmonad" where
  "iappend inum p =
     bnd (rinode inum) (\<lambda>din.
     bnd (iappend_loop din (unat (xint (di_size din))) p) (\<lambda>(din, off).
     winode inum (din\<lparr>di_size := xint (of_nat off)\<rparr>)))"

section \<open>The bitmap and the program\<close>

primrec mk_bits :: "nat \<Rightarrow> uchar list \<Rightarrow> uchar list" where
  "mk_bits 0 buf = buf"
| "mk_bits (Suc i) buf =
     (let buf = mk_bits i buf in buf[i div 8 := buf ! (i div 8) OR push_bit (i mod 8) 1])"

definition mk_balloc :: "uint \<Rightarrow> (unit, mkfs) kmonad" where
  "mk_balloc used =
     (if int BPB \<le> sint used then panic ''used < BPB''
      else bnd (reads m_sb) (\<lambda>sb.
        wsect (sb_bmapstart sb) (mk_bits (nat (sint used)) (replicate BSIZE 0))))"

function append_source :: "uint \<Rightarrow> source \<Rightarrow> (unit, mkfs) kmonad" where
  "append_source inum cs =
     (case uread BSIZE cs of
        (Some (d # ds), cs') \<Rightarrow> thn (iappend inum (d # ds)) (append_source inum cs')
      | _ \<Rightarrow> ret ())"
  by pat_completeness auto
termination
  by (relation "measure (\<lambda>(inum, cs). pending cs)") (auto dest!: sym [of _ "uread _ _"] uread_pending)

declare append_source.simps [simp del]

definition add_dirent :: "uint \<Rightarrow> uint \<Rightarrow> uchar list \<Rightarrow> (unit, mkfs) kmonad" where
  "add_dirent dir inum name =
     iappend dir (enc_dirent \<lparr>de_inum = xshort (ucast inum), de_name = dirent_name name\<rparr>)"

text \<open>A file of the command line: its path, and what reading it delivers if it can be opened.\<close>

definition shortname :: "uchar list \<Rightarrow> uchar list" where
  "shortname path = (if take 5 path = map of_char ''user/'' then drop 5 path else path)"

definition add_file :: "uint \<Rightarrow> uchar list \<times> source option \<Rightarrow> (unit, mkfs) kmonad" where
  "add_file rootino f =
     (case f of (path, content) \<Rightarrow>
      let name = shortname path in
      if 47 \<in> set name then panic ''index''
      else case content of
        None \<Rightarrow> panic ''open''
      | Some cs \<Rightarrow>
          let name = (if take 1 name = [95] then drop 1 name else name) in
          if DIRSIZ < length name then panic ''strlen''
          else
            bnd (mk_ialloc T_FILE) (\<lambda>inum.
            thn (add_dirent rootino inum name)
                (append_source inum cs)))"

definition fix_root :: "uint \<Rightarrow> (unit, mkfs) kmonad" where
  "fix_root rootino =
     bnd (rinode rootino) (\<lambda>din.
     let off = (unat (xint (di_size din)) div BSIZE + 1) * BSIZE in
     winode rootino (din\<lparr>di_size := xint (of_nat off)\<rparr>))"

definition mkfs_main :: "(uchar list \<times> source option) list \<Rightarrow> (unit, mkfs) kmonad" where
  "mkfs_main files =
     thn (writes (\<lambda>s. s\<lparr>m_sb := mk_superblock, m_freeinode := 1, m_freeblock := of_nat nmeta\<rparr>)) (
     thn (foreach [0..<FSSIZE] (\<lambda>i. wsect (of_nat i) (replicate BSIZE 0))) (
     thn (wsect 1 (enc_superblock mk_superblock @ replicate (BSIZE - 32) 0)) (
     bnd (mk_ialloc T_DIR) (\<lambda>rootino.
     if rootino \<noteq> ROOTINO then panic ''rootino == ROOTINO''
     else
       thn (add_dirent rootino rootino [46]) (
       thn (add_dirent rootino rootino [46, 46]) (
       thn (foreach files (add_file rootino)) (
       thn (fix_root rootino) (
       bnd (reads m_freeblock) mk_balloc))))))))"

end
