(* ===== verification/Mkfs_Files.thy ===== *)
theory Mkfs_Files
  imports Mkfs
begin

text \<open>
  Files in the image of \<^verbatim>\<open>mkfs\<close>: a file is described by its contents and the blocks that hold them, and
  the loop of \<^verbatim>\<open>iappend\<close> keeps that description, across the direct and the indirect blocks.
\<close>

section \<open>Numbers\<close>

lemma xshort_id [simp]: "xshort x = x"
  using le16_at [of "[]" x "[]"] by (simp add: xshort_def bytes16_def)

lemma xint_id [simp]: "xint x = x"
  using le32_at [of "[]" x "[]"] by (simp add: xint_def bytes32_def)

lemmas layout_defs = BSIZE_def IPB_def DINODE_SIZE_def NDIRECT_def NINDIRECT_def MAXFILE_def FSSIZE_def
  BPB_def nmeta_def nlog_def ninodeblocks_def nbitmap_def LOGSIZE_def MAXOPBLOCKS_def NINODES_def

lemma nmeta_eq: "nmeta = 46" by (simp add: layout_defs)

lemma unat_small: "n < 4294967296 \<Longrightarrow> unat (of_nat n :: uint) = n"
  by (simp add: unat_of_nat_small)

lemma sect_of_nat: "n < 4194304 \<Longrightarrow> sect (of_nat n) = n"
proof -
  assume n: "n < 4194304"
  have "(of_nat n * of_nat BSIZE :: uint) = of_nat (n * 1024)" by (simp add: BSIZE_def)
  then have "unat (of_nat n * of_nat BSIZE :: uint) = n * 1024" using n unat_small [of "n * 1024"] by simp
  then show ?thesis by (simp add: sect_def BSIZE_def)
qed

lemma of_nat_eq_0: "n < 4294967296 \<Longrightarrow> (of_nat n :: uint) = 0 \<longleftrightarrow> n = 0"
  using unat_small [of n] unat_eq_zero [of "of_nat n :: uint"] by simp

section \<open>Slots and blocks\<close>

lemma slot_splice:
  assumes "length data = BSIZE" and "length (di_addrs d) = NDIRECT + 1"
  shows "slot (splice data (dinode_off i) (enc_dinode d)) i = d"
    and "unat j mod IPB \<noteq> unat i mod IPB \<Longrightarrow> slot (splice data (dinode_off i) (enc_dinode d)) j = slot data j"
    and "length (splice data (dinode_off i) (enc_dinode d)) = BSIZE"
proof -
  let ?e = "enc_dinode d"
  have len: "length ?e = DINODE_SIZE"
    using assms(2) by (simp add: length_enc_dinode NDIRECT_def DINODE_SIZE_def)
  have fit: "dinode_off k + DINODE_SIZE \<le> length data" for k
    using dinode_off_bound assms(1) by simp
  show "slot (splice data (dinode_off i) ?e) i = d"
    using splice_same [of "dinode_off i" ?e data] len fit dec_enc_dinode [OF assms(2)] by (simp add: slot_def)
  show "slot (splice data (dinode_off i) ?e) j = slot data j" if "unat j mod IPB \<noteq> unat i mod IPB"
  proof -
    from that have "dinode_off j + DINODE_SIZE \<le> dinode_off i \<or> dinode_off i + DINODE_SIZE \<le> dinode_off j"
      by (auto simp: dinode_off_def DINODE_SIZE_def)
    then show ?thesis unfolding slot_def using splice_apart [of "dinode_off i" ?e data] len fit by simp
  qed
  show "length (splice data (dinode_off i) ?e) = BSIZE" using len fit [of i] assms(1) by simp
qed

lemma le32_splice:
  assumes "4 * k + 4 \<le> length d" and "4 * j + 4 \<le> length d"
  shows "le32 (splice d (4 * k) (bytes32 v)) (4 * j) = (if j = k then v else le32 d (4 * j))"
proof -
  have "le32 (take 4 (drop (4 * j) x)) 0 = le32 x (4 * j)" if "4 * j + 4 \<le> length x" for x
    using that by (simp add: le32_def)
  note part = this
  have len: "length (splice d (4 * k) (bytes32 v)) = length d" using assms(1) by simp
  show ?thesis
  proof (cases "j = k")
    case True
    have "take 4 (drop (4 * k) (splice d (4 * k) (bytes32 v))) = bytes32 v"
      using splice_same [of "4 * k" "bytes32 v" d] assms(1) by simp
    with True show ?thesis
      using part [of "splice d (4 * k) (bytes32 v)"] len assms le32_at [of "[]" v "[]"] by simp
  next
    case False
    then have "take 4 (drop (4 * j) (splice d (4 * k) (bytes32 v))) = take 4 (drop (4 * j) d)"
      using assms by (intro splice_apart) auto
    with False show ?thesis
      using part [of "splice d (4 * k) (bytes32 v)"] part [of d] len assms by simp
  qed
qed

lemma concat_update_splice:
  assumes "\<forall>b\<in>set bs. length b = n" and "k < length bs" and "j + length q \<le> n"
  shows "concat (bs[k := splice (bs ! k) j q]) = splice (concat bs) (k * n + j) q"
  using assms
proof (induction bs arbitrary: k)
  case (Cons b bs)
  show ?case
  proof (cases k)
    case 0
    with Cons.prems show ?thesis by (simp add: splice_def)
  next
    case (Suc k')
    with Cons have "concat (bs[k' := splice (bs ! k') j q]) = splice (concat bs) (k' * n + j) q" by simp
    moreover have "splice (b @ concat bs) (n + m) q = b @ splice (concat bs) m q" for m
      using Cons.prems(1) by (simp add: splice_def add.assoc)
    ultimately show ?thesis using Suc by (simp add: add.assoc)
  qed
qed simp

lemma map_nth_update:
  assumes "distinct bs" and "k < length bs" and "bs ! k < length img"
  shows "map ((!) (img[bs ! k := v])) bs = (map ((!) img) bs)[k := v]"
  using assms by (intro nth_equalityI) (auto simp: nth_list_update nth_eq_iff_index_eq)

lemma map_nth_other: "b \<notin> set bs \<Longrightarrow> map ((!) (img[b := v])) bs = map ((!) img) bs"
  by (intro map_cong refl nth_list_update_neq) auto

section \<open>Files\<close>

text \<open>
  \<open>file_at img as c bs ind\<close>: the addresses \<open>as\<close> of an inode lead to the data blocks \<open>bs\<close>, the later ones
  through the block \<open>ind\<close>, and the blocks hold the contents \<open>c\<close>, padded with zeroes.
\<close>

definition file_at :: "uchar list list \<Rightarrow> uint list \<Rightarrow> uchar list \<Rightarrow> nat list \<Rightarrow> nat option \<Rightarrow> bool" where
  "file_at img as c bs ind \<longleftrightarrow>
     length as = NDIRECT + 1 \<and> length bs \<le> MAXFILE \<and> length c \<le> BSIZE * length bs \<and>
     (\<forall>k<NDIRECT. as ! k = (if k < length bs then of_nat (bs ! k) else 0)) \<and>
     as ! NDIRECT = (case ind of None \<Rightarrow> 0 | Some b \<Rightarrow> of_nat b) \<and>
     (ind = None \<longleftrightarrow> length bs \<le> NDIRECT) \<and>
     (\<forall>b. ind = Some b \<longrightarrow> (\<forall>k<NINDIRECT.
        le32 (img ! b) (4 * k) = (if NDIRECT + k < length bs then of_nat (bs ! (NDIRECT + k)) else 0))) \<and>
     concat (map ((!) img) bs) = c @ replicate (BSIZE * length bs - length c) 0"

abbreviation blocks_of :: "nat list \<Rightarrow> nat option \<Rightarrow> nat list" where
  "blocks_of bs ind \<equiv> bs @ (case ind of None \<Rightarrow> [] | Some b \<Rightarrow> [b])"

text \<open>The image has its final size, and the blocks from \<open>fb\<close> on are unused and zero.\<close>

definition img_ok :: "uchar list list \<Rightarrow> nat \<Rightarrow> bool" where
  "img_ok img fb \<longleftrightarrow> length img = FSSIZE \<and> (\<forall>b\<in>set img. length b = BSIZE) \<and> nmeta \<le> fb \<and> fb \<le> FSSIZE \<and>
     (\<forall>b. fb \<le> b \<longrightarrow> b < FSSIZE \<longrightarrow> img ! b = replicate BSIZE 0)"

lemma img_okD:
  assumes "img_ok img fb"
  shows "length img = 2000" and "b < 2000 \<Longrightarrow> length (img ! b) = BSIZE" and "46 \<le> fb" and "fb \<le> 2000"
    and "fb \<le> b \<Longrightarrow> b < 2000 \<Longrightarrow> img ! b = replicate BSIZE 0"
  using assms by (auto simp: img_ok_def FSSIZE_def nmeta_eq)

lemma img_ok_update:
  "img_ok img fb \<Longrightarrow> length v = BSIZE \<Longrightarrow> b < fb \<Longrightarrow> img_ok (img[b := v]) fb"
  by (auto simp: img_ok_def nth_list_update dest!: set_update_subset_insert [THEN subsetD])

lemma img_ok_next: "img_ok img fb \<Longrightarrow> fb < 2000 \<Longrightarrow> img_ok img (Suc fb)"
  by (auto simp: img_ok_def FSSIZE_def)

lemma file_at_cong:
  assumes "file_at img as c bs ind" and "\<And>b. b \<in> set (blocks_of bs ind) \<Longrightarrow> img' ! b = img ! b"
  shows "file_at img' as c bs ind"
proof -
  have m: "map ((!) img') bs = map ((!) img) bs" using assms(2) by simp
  have "img' ! b = img ! b" if "ind = Some b" for b using assms(2) that by simp
  with assms(1) show ?thesis unfolding file_at_def m by simp
qed

section \<open>Steps of the program\<close>

lemma new_block_ok: "m_freeblock s = of_nat fb \<Longrightarrow> new_block s = Ok (of_nat fb) (s\<lparr>m_freeblock := of_nat (Suc fb)\<rparr>)"
  by (simp add: new_block_def bnd_def thn_def reads_def writes_def ret_def add.commute)

lemma rsect_ok: "length (m_img s) = 2000 \<Longrightarrow> b < 2000 \<Longrightarrow> rsect (of_nat b) s = Ok (m_img s ! b) s"
  by (simp add: rsect_def bnd_def reads_def ret_def sect_of_nat)

lemma wsect_ok:
  "length (m_img s) = 2000 \<Longrightarrow> b < 2000 \<Longrightarrow> wsect (of_nat b) v s = Ok () (s\<lparr>m_img := (m_img s)[b := v]\<rparr>)"
  by (simp add: wsect_def writes_def img_write_def sect_of_nat)

text \<open>A file in an image, with its blocks below \<open>fb\<close> and all different.\<close>

definition held :: "uchar list list \<Rightarrow> nat \<Rightarrow> uint list \<Rightarrow> uchar list \<Rightarrow> nat list \<Rightarrow> nat option \<Rightarrow> bool" where
  "held img fb as c bs ind \<longleftrightarrow> img_ok img fb \<and> file_at img as c bs ind \<and> distinct (blocks_of bs ind) \<and>
     set (blocks_of bs ind) \<subseteq> {46..<fb}"

text \<open>What appending may change: the blocks of the file, and blocks that were unused before.\<close>

definition extends :: "uchar list list \<Rightarrow> nat \<Rightarrow> nat list \<Rightarrow> uchar list list \<Rightarrow> nat \<Rightarrow> nat list \<Rightarrow> bool" where
  "extends img fb bl img' fb' bl' \<longleftrightarrow> fb \<le> fb' \<and> set bl' \<subseteq> set bl \<union> {fb..<fb'} \<and> set bl \<subseteq> set bl' \<and>
     fb' + length bl = fb + length bl' \<and> (\<forall>b. b \<notin> set bl' \<longrightarrow> img' ! b = img ! b)"

lemma extends_refl: "extends img fb bl img fb bl"
  by (simp add: extends_def)

lemma extends_trans:
  "extends img fb bl img' fb' bl' \<Longrightarrow> extends img' fb' bl' img'' fb'' bl'' \<Longrightarrow> extends img fb bl img'' fb'' bl''"
  unfolding extends_def by (intro conjI; fastforce)

lemma zeros_concat:
  "concat (map ((!) img) bs) = c @ replicate (BSIZE * length bs - length c) 0 \<Longrightarrow>
    length c \<le> BSIZE * length bs \<Longrightarrow> img ! b = replicate BSIZE 0 \<Longrightarrow>
    concat (map ((!) img) (bs @ [b])) = c @ replicate (BSIZE * length (bs @ [b]) - length c) 0"
  by (simp add: replicate_add [symmetric] algebra_simps)

lemma le32_zero: "4 * k + 4 \<le> n \<Longrightarrow> le32 (replicate n 0) (4 * k) = 0"
  by (simp add: le32_def)

lemma held_addr:
  assumes "held img fb as c bs ind" and "b \<in> set (blocks_of bs ind)"
  shows "(of_nat b :: uint) \<noteq> 0" and "b < 2000" and "46 \<le> b" and "b < fb"
proof -
  have "46 \<le> b" "b < fb" "fb \<le> 2000" using assms img_okD(4) by (auto simp: held_def)
  then show "(of_nat b :: uint) \<noteq> 0" "b < 2000" "46 \<le> b" "b < fb" using of_nat_eq_0 [of b] by auto
qed

lemma mk_bmap_old:
  assumes h: "held (m_img s) fb (di_addrs d) c bs ind" and k: "k < length bs"
  shows "mk_bmap d k s = Ok (d, of_nat (bs ! k)) s"
proof -
  have f: "file_at (m_img s) (di_addrs d) c bs ind" and len: "length (m_img s) = 2000"
    using h img_okD(1) by (auto simp: held_def)
  have nz: "(of_nat (bs ! k) :: uint) \<noteq> 0" using held_addr(1) [OF h] k by simp
  show ?thesis
  proof (cases "k < NDIRECT")
    case True
    then have "di_addrs d ! k = of_nat (bs ! k)" using f k by (simp add: file_at_def)
    with True nz show ?thesis by (simp add: mk_bmap_def bnd_def ret_def)
  next
    case False
    then obtain b where b: "ind = Some b" using f k by (cases ind) (auto simp: file_at_def)
    have "di_addrs d ! NDIRECT = of_nat b" using f b by (simp add: file_at_def)
    moreover have "(of_nat b :: uint) \<noteq> 0" "b < 2000" using held_addr [OF h, of b] b by simp_all
    moreover have "k - NDIRECT < NINDIRECT" using f k False unfolding file_at_def MAXFILE_def by linarith
    then have "le32 (m_img s ! b) (4 * (k - NDIRECT)) = of_nat (bs ! k)"
      using f b k False by (simp add: file_at_def)
    ultimately show ?thesis
      using False nz by (simp add: mk_bmap_def bnd_def ret_def rsect_ok [OF len])
  qed
qed



lemma file_at_direct:
  assumes f: "file_at img as c bs ind" and k: "length bs < NDIRECT" and z: "img ! b = replicate BSIZE 0"
  shows "file_at img (as[length bs := of_nat b]) c (bs @ [b]) None"
proof -
  have "concat (map ((!) img) (bs @ [b])) = c @ replicate (BSIZE * length (bs @ [b]) - length c) 0"
    using f z by (intro zeros_concat) (simp_all add: file_at_def)
  with f k show ?thesis
    unfolding file_at_def by (auto simp: nth_list_update nth_append MAXFILE_def split: option.splits)
qed

lemma file_at_first:
  assumes f: "file_at img as c bs ind" and k: "length bs = NDIRECT" and z: "img ! b = replicate BSIZE 0"
    and i: "img ! i = replicate BSIZE 0" "i \<notin> set bs" "i \<noteq> b" "i < length img"
  shows "file_at (img[i := splice (replicate BSIZE 0) 0 (bytes32 (of_nat b))]) (as[NDIRECT := of_nat i]) c
    (bs @ [b]) (Some i)"
proof -
  let ?v = "splice (replicate BSIZE 0) 0 (bytes32 (of_nat b))"
  have m: "map ((!) (img[i := ?v])) (bs @ [b]) = map ((!) img) (bs @ [b])" using i by (intro map_nth_other) simp
  have "concat (map ((!) img) (bs @ [b])) = c @ replicate (BSIZE * length (bs @ [b]) - length c) 0"
    using f z by (intro zeros_concat) (simp_all add: file_at_def)
  moreover have "le32 ?v (4 * j) = (if j = 0 then of_nat b else 0)" if "j < NINDIRECT" for j
    using le32_splice [of 0 "replicate BSIZE 0" j "of_nat b"] le32_zero [of j BSIZE] that
    by (simp add: layout_defs)
  moreover have "Suc 0 \<le> NINDIRECT" by (simp add: layout_defs)
  ultimately show ?thesis using f k i
    unfolding file_at_def m by (auto simp: nth_append MAXFILE_def)
qed

lemma file_at_rest:
  assumes f: "file_at img as c bs (Some i)" and k: "NDIRECT < length bs" "length bs < MAXFILE"
    and z: "img ! b = replicate BSIZE 0" and i: "i \<notin> set bs" "i \<noteq> b" "i < length img" "length (img ! i) = BSIZE"
  shows "file_at (img[i := splice (img ! i) (4 * (length bs - NDIRECT)) (bytes32 (of_nat b))]) as c
    (bs @ [b]) (Some i)"
proof -
  let ?v = "splice (img ! i) (4 * (length bs - NDIRECT)) (bytes32 (of_nat b))"
  have m: "map ((!) (img[i := ?v])) (bs @ [b]) = map ((!) img) (bs @ [b])" using i by (intro map_nth_other) simp
  have "concat (map ((!) img) (bs @ [b])) = c @ replicate (BSIZE * length (bs @ [b]) - length c) 0"
    using f z by (intro zeros_concat) (simp_all add: file_at_def)
  moreover have "le32 ?v (4 * j) = (if NDIRECT + j = length bs then of_nat b else le32 (img ! i) (4 * j))"
    if "j < NINDIRECT" for j
    using le32_splice [of "length bs - NDIRECT" "img ! i" j "of_nat b"] that i k
    by (auto simp: layout_defs MAXFILE_def)
  ultimately show ?thesis using f k i
    unfolding file_at_def m by (auto simp: nth_append)
qed

lemma mk_bmap_new:
  assumes h: "held (m_img s) fb (di_addrs d) c bs ind" and k: "k = length bs" and m: "k < MAXFILE"
    and fb: "m_freeblock s = of_nat fb" and room: "fb + (if k = NDIRECT then 2 else 1) \<le> 2000"
  shows "\<exists>as' ind' img' fb' b. mk_bmap d k s =
      Ok (d\<lparr>di_addrs := as'\<rparr>, of_nat b) (s\<lparr>m_img := img', m_freeblock := of_nat fb'\<rparr>) \<and>
    held img' fb' as' c (bs @ [b]) ind' \<and>
    extends (m_img s) fb (blocks_of bs ind) img' fb' (blocks_of (bs @ [b]) ind')"
proof -
  have f: "file_at (m_img s) (di_addrs d) c bs ind" and ok: "img_ok (m_img s) fb"
    and dis: "distinct (blocks_of bs ind)" and sub: "set (blocks_of bs ind) \<subseteq> {46..<fb}"
    using h by (simp_all add: held_def)
  note len = img_okD(1) [OF ok]
  have z: "m_img s ! b = replicate BSIZE 0" if "fb \<le> b" "b < 2000" for b
    using img_okD(5) [OF ok] that .
  consider (direct) "k < NDIRECT" | (first) "k = NDIRECT" | (rest) "NDIRECT < k" by linarith
  then show ?thesis
  proof cases
    case direct
    let ?as = "(di_addrs d)[k := of_nat fb]"
    have lt: "fb < 2000" using room by (simp split: if_splits)
    have none: "ind = None" using f direct k by (simp add: file_at_def)
    have "di_addrs d ! k = 0" "k < length (di_addrs d)" using f direct k by (simp_all add: file_at_def)
    then have "mk_bmap d k s = Ok (d\<lparr>di_addrs := ?as\<rparr>, of_nat fb) (s\<lparr>m_img := m_img s, m_freeblock := of_nat (Suc fb)\<rparr>)"
      using direct by (simp add: mk_bmap_def bnd_def ret_def new_block_ok [OF fb])
    moreover have "file_at (m_img s) ?as c (bs @ [fb]) None"
      using file_at_direct [OF f _ z [of fb]] direct k lt by simp
    moreover have "img_ok (m_img s) (Suc fb)" using img_ok_next [OF ok lt] .
    ultimately show ?thesis using dis sub none img_okD(3) [OF ok]
      by (intro exI [of _ ?as] exI [of _ None] exI [of _ "m_img s"] exI [of _ "Suc fb"] exI [of _ fb])
        (auto simp: held_def extends_def)
  next
    case first
    let ?as = "(di_addrs d)[NDIRECT := of_nat fb]" and ?b = "Suc fb"
    let ?v = "splice (replicate BSIZE 0) 0 (bytes32 (of_nat ?b))"
    let ?img = "(m_img s)[fb := ?v]"
    have lt: "fb < 2000" "?b < 2000" using room first by simp_all
    have none: "ind = None" using f first k by (simp add: file_at_def)
    have a: "di_addrs d ! NDIRECT = 0" "NDIRECT < length (di_addrs d)" using f none by (simp_all add: file_at_def)
    have l: "le32 (replicate BSIZE 0) 0 = 0" "le32 ?v 0 = of_nat ?b"
      using le32_zero [of 0 BSIZE] le32_splice [of 0 "replicate BSIZE 0" 0 "of_nat ?b"] by (simp_all add: layout_defs)
    have "mk_bmap d k s = Ok (d\<lparr>di_addrs := ?as\<rparr>, of_nat ?b) (s\<lparr>m_img := ?img, m_freeblock := of_nat (Suc ?b)\<rparr>)"
      using first a l lt len fb z [of fb]
      by (simp add: mk_bmap_def bnd_def thn_def ret_def new_block_ok rsect_ok wsect_ok del: of_nat_Suc)
    moreover have "file_at ?img ?as c (bs @ [?b]) (Some fb)"
    proof (rule file_at_first [OF f])
      show "fb \<notin> set bs" using sub by auto
    qed (use first k lt len z in simp_all)
    moreover have "length ?v = BSIZE" by (simp add: layout_defs)
    then have "img_ok ?img (Suc ?b)" using ok lt by (intro img_ok_update img_ok_next) simp_all
    ultimately show ?thesis using dis sub none img_okD(3) [OF ok]
      by (intro exI [of _ ?as] exI [of _ "Some fb"] exI [of _ ?img] exI [of _ "Suc ?b"] exI [of _ ?b])
        (auto simp: held_def extends_def simp del: of_nat_Suc)
  next
    case rest
    have lt: "fb < 2000" using room by (simp split: if_splits)
    obtain i where i: "ind = Some i" using f rest k by (cases ind) (auto simp: file_at_def)
    let ?o = "4 * (k - NDIRECT)"
    let ?v = "splice (m_img s ! i) ?o (bytes32 (of_nat fb))"
    let ?img = "(m_img s)[i := ?v]"
    have il: "i < fb" "46 \<le> i" "i < 2000" "(of_nat i :: uint) \<noteq> 0" using held_addr [OF h, of i] i by simp_all
    have a: "di_addrs d ! NDIRECT = of_nat i" using f i by (simp add: file_at_def)
    have n: "k - NDIRECT < NINDIRECT" using rest m unfolding MAXFILE_def by linarith
    then have lb: "?o + 4 \<le> length (m_img s ! i)" "length (m_img s ! i) = BSIZE"
      using img_okD(2) [OF ok, of i] il by (simp_all add: layout_defs)
    have l: "le32 (m_img s ! i) ?o = 0" "le32 ?v ?o = of_nat fb"
      using f i n rest k le32_splice [OF lb(1) lb(1), of "of_nat fb"] by (simp_all add: file_at_def)
    have "mk_bmap d k s = Ok (d\<lparr>di_addrs := di_addrs d\<rparr>, of_nat fb) (s\<lparr>m_img := ?img, m_freeblock := of_nat (Suc fb)\<rparr>)"
      using rest a l il len fb
      by (simp add: mk_bmap_def Let_def bnd_def thn_def ret_def new_block_ok rsect_ok wsect_ok del: of_nat_Suc)
    moreover have "file_at ?img (di_addrs d) c (bs @ [fb]) (Some i)"
      unfolding k
    proof (rule file_at_rest [OF f [unfolded i]])
      show "i \<notin> set bs" using dis i by simp
    qed (use rest k m lt il len lb z in simp_all)
    moreover have "length ?v = BSIZE" using lb by simp
    then have "img_ok ?img (Suc fb)" using ok lt il by (intro img_ok_update img_ok_next) simp_all
    ultimately show ?thesis using dis sub i img_okD(3) [OF ok]
      by (intro exI [of _ "di_addrs d"] exI [of _ "Some i"] exI [of _ ?img] exI [of _ "Suc fb"] exI [of _ fb])
        (auto simp: held_def extends_def simp del: of_nat_Suc)
  qed
qed


text \<open>The number of data blocks, and of all blocks, that a file of \<open>n\<close> bytes takes.\<close>

definition nblk :: "nat \<Rightarrow> nat" where
  "nblk n = (n + (BSIZE - 1)) div BSIZE"

definition need :: "nat \<Rightarrow> nat" where
  "need n = nblk n + (if NDIRECT < nblk n then 1 else 0)"

lemma nblk_mono: "m \<le> n \<Longrightarrow> nblk m \<le> nblk n"
  unfolding nblk_def by (intro div_le_mono) simp

lemma need_mono: "m \<le> n \<Longrightarrow> need m \<le> need n"
  using nblk_mono [of m n] by (auto simp: need_def)

lemma nblk_step:
  "0 < m \<Longrightarrow> n + m \<le> (n div BSIZE + 1) * BSIZE \<Longrightarrow> nblk (n + m) = Suc (n div BSIZE)"
proof -
  assume a: "0 < m" "n + m \<le> (n div BSIZE + 1) * BSIZE"
  have "n div BSIZE * BSIZE \<le> n" by simp
  then have "n + m + (BSIZE - 1) = Suc (n div BSIZE) * BSIZE + (n + m - 1 - n div BSIZE * BSIZE)"
    and "n + m - 1 - n div BSIZE * BSIZE < BSIZE" using a by (simp_all add: BSIZE_def)
  then show "nblk (n + m) = Suc (n div BSIZE)" unfolding nblk_def by (simp only: div_mult_self4) (simp add: BSIZE_def)
qed

lemma nblk_cases: "nblk n = n div BSIZE \<or> nblk n = Suc (n div BSIZE) \<and> 0 < n mod BSIZE"
proof -
  have "nblk n = (n mod BSIZE + (BSIZE - 1) + n div BSIZE * BSIZE) div BSIZE" unfolding nblk_def by simp
  also have "\<dots> = n div BSIZE + (n mod BSIZE + (BSIZE - 1)) div BSIZE" by (rule div_mult_self1) (simp add: BSIZE_def)
  finally have e: "nblk n = n div BSIZE + (n mod BSIZE + (BSIZE - 1)) div BSIZE" .
  have "n mod BSIZE < BSIZE" by (simp add: BSIZE_def)
  then have "(n mod BSIZE + (BSIZE - 1)) div BSIZE = (if n mod BSIZE = 0 then 0 else 1)"
    by (auto simp: BSIZE_def intro!: div_nat_eqI)
  with e show ?thesis by simp
qed

lemma held_blocks: "held img fb as c bs ind \<Longrightarrow> length bs = nblk n \<Longrightarrow> length (blocks_of bs ind) = need n"
  by (auto simp: held_def file_at_def need_def split: option.splits)

lemma mk_bmap_at:
  assumes h: "held (m_img s) fb (di_addrs d) c bs ind" and n: "length bs = nblk (length c)"
    and k: "k = length c div BSIZE" "k < MAXFILE"
    and fb: "m_freeblock s = of_nat fb" and room: "fb + need (length c + 1) \<le> 2000 + need (length c)"
  shows "\<exists>as' bs' ind' img' fb'. mk_bmap d k s =
      Ok (d\<lparr>di_addrs := as'\<rparr>, of_nat (bs' ! k)) (s\<lparr>m_img := img', m_freeblock := of_nat fb'\<rparr>) \<and>
    held img' fb' as' c bs' ind' \<and> length bs' = Suc k \<and>
    extends (m_img s) fb (blocks_of bs ind) img' fb' (blocks_of bs' ind')"
proof (cases "nblk (length c) = k")
  case False
  then have len: "length bs = Suc k" using n k nblk_cases [of "length c"] by simp
  show ?thesis
    using mk_bmap_old [OF h, of k] h len extends_refl [of "m_img s" fb "blocks_of bs ind"]
    by (intro exI [of _ "di_addrs d"] exI [of _ bs] exI [of _ ind] exI [of _ "m_img s"] exI [of _ fb]) (simp add: fb [symmetric])
next
  case True
  have "nblk (length c + 1) = Suc k" unfolding k(1) by (rule nblk_step) (simp_all add: BSIZE_def dividend_less_div_times Suc_leI)
  then have r: "fb + (if k = NDIRECT then 2 else 1) \<le> 2000"
    using room True by (auto simp: need_def split: if_splits)
  have l: "k = length bs" using n True by simp
  obtain as' ind' img' fb' b where
    "mk_bmap d k s = Ok (d\<lparr>di_addrs := as'\<rparr>, of_nat b) (s\<lparr>m_img := img', m_freeblock := of_nat fb'\<rparr>)"
    "held img' fb' as' c (bs @ [b]) ind'"
    "extends (m_img s) fb (blocks_of bs ind) img' fb' (blocks_of (bs @ [b]) ind')"
    using mk_bmap_new [OF h l k(2) fb r] by blast
  then show ?thesis using l
    by (intro exI [of _ as'] exI [of _ "bs @ [b]"] exI [of _ ind'] exI [of _ img'] exI [of _ fb']) simp
qed

lemma splice_pad: "length q \<le> n \<Longrightarrow> splice (c @ replicate n 0) (length c) q = (c @ q) @ replicate (n - length q) 0"
  by (simp add: splice_def)

lemma held_write:
  assumes h: "held img fb as c bs ind" and k: "k = length c div BSIZE" "k < length bs"
    and q: "length c mod BSIZE + length q \<le> BSIZE"
  shows "held (img[bs ! k := splice (img ! (bs ! k)) (length c mod BSIZE) q]) fb as (c @ q) bs ind"
proof -
  let ?b = "bs ! k" and ?v = "splice (img ! (bs ! k)) (length c mod BSIZE) q"
  have f: "file_at img as c bs ind" and ok: "img_ok img fb" and dis: "distinct (blocks_of bs ind)"
    using h by (simp_all add: held_def)
  have lt: "?b < fb" "?b < 2000" using held_addr [OF h, of ?b] k by simp_all
  have lb: "length (img ! ?b) = BSIZE" using img_okD(2) [OF ok lt(2)] .
  have off: "k * BSIZE + length c mod BSIZE = length c" using k by simp
  have fits: "length (c @ q) \<le> BSIZE * length bs"
  proof -
    have "length c + length q \<le> (k + 1) * BSIZE" using q off by (simp add: algebra_simps)
    also have "\<dots> \<le> length bs * BSIZE" using k by (intro mult_right_mono) simp_all
    finally show ?thesis by (simp add: mult.commute)
  qed
  have "\<forall>b\<in>set (map ((!) img) bs). length b = BSIZE"
    using img_okD(2) [OF ok] held_addr(2) [OF h] by simp
  then have "concat ((map ((!) img) bs)[k := ?v]) = splice (concat (map ((!) img) bs)) (k * BSIZE + length c mod BSIZE) q"
    using concat_update_splice [of "map ((!) img) bs" BSIZE k "length c mod BSIZE" q] k q by simp
  also have "\<dots> = (c @ q) @ replicate (BSIZE * length bs - length (c @ q)) 0"
    unfolding off using f fits splice_pad [of q "BSIZE * length bs - length c" c] by (simp add: file_at_def)
  also have "(map ((!) img) bs)[k := ?v] = map ((!) (img[?b := ?v])) bs"
    using map_nth_update [of bs k img ?v] dis k lt img_okD(1) [OF ok] by simp
  finally have c: "concat (map ((!) (img[?b := ?v])) bs) = (c @ q) @ replicate (BSIZE * length bs - length (c @ q)) 0" .
  have "img[?b := ?v] ! i = img ! i" if "ind = Some i" for i
    using dis that nth_mem [OF k(2)] by (intro nth_list_update_neq) auto
  with f c fits have "file_at (img[?b := ?v]) as (c @ q) bs ind" unfolding file_at_def by simp
  moreover have "img_ok (img[?b := ?v]) fb" using ok lt q lb by (intro img_ok_update) simp_all
  ultimately show ?thesis using h by (simp add: held_def)
qed


lemma mkfs_swap: "s\<lparr>m_freeblock := x, m_img := y\<rparr> = s\<lparr>m_img := y, m_freeblock := x\<rparr>"
  by simp

lemma extends_update: "extends img fb bl img' fb' bl' \<Longrightarrow> b \<in> set bl' \<Longrightarrow> extends img fb bl (img'[b := v]) fb' bl'"
  unfolding extends_def by (metis nth_list_update_neq)

lemma iappend_turn:
  assumes h: "held (m_img s) fb (di_addrs d) c bs ind" and n: "length bs = nblk (length c)" and fb: "m_freeblock s = of_nat fb"
    and mx: "length c + length p \<le> MAXFILE * BSIZE" and room: "fb + need (length c + length p) \<le> 2000 + need (length c)"
    and p: "p \<noteq> []"
  shows "\<exists>n as' bs' ind' img' fb'. 0 < n \<and> n \<le> length p \<and> iappend_loop d (length c) p s =
      iappend_loop (d\<lparr>di_addrs := as'\<rparr>) (length c + n) (drop n p) (s\<lparr>m_img := img', m_freeblock := of_nat fb'\<rparr>) \<and>
    held img' fb' as' (c @ take n p) bs' ind' \<and> length bs' = nblk (length c + n) \<and>
    extends (m_img s) fb (blocks_of bs ind) img' fb' (blocks_of bs' ind')"
proof -
  let ?k = "length c div BSIZE" and ?o = "length c mod BSIZE"
  let ?n = "min (length p) ((?k + 1) * BSIZE - length c)"
  let ?q = "take ?n p"
  have split: "?k * BSIZE + ?o = length c" "?o < BSIZE" by (simp_all add: BSIZE_def)
  then have b: "(?k + 1) * BSIZE - length c = BSIZE - ?o" unfolding add_mult_distrib by linarith
  have pos: "0 < ?n" unfolding b using p split(2) by simp
  have lim: "length c + ?n \<le> (?k + 1) * BSIZE" using split unfolding add_mult_distrib by linarith
  have "length c < MAXFILE * BSIZE" using mx p by (cases p) simp_all
  then have k: "?k < MAXFILE" by (simp add: less_mult_imp_div_less)
  have "need (length c + 1) \<le> need (length c + length p)" using p by (intro need_mono) (cases p, simp_all)
  then have r: "fb + need (length c + 1) \<le> 2000 + need (length c)" using room by simp
  obtain as' bs' ind' img' fb' where bm: "mk_bmap d ?k s =
      Ok (d\<lparr>di_addrs := as'\<rparr>, of_nat (bs' ! ?k)) (s\<lparr>m_img := img', m_freeblock := of_nat fb'\<rparr>)"
    and h': "held img' fb' as' c bs' ind'" and len': "length bs' = Suc ?k"
    and g: "extends (m_img s) fb (blocks_of bs ind) img' fb' (blocks_of bs' ind')"
    using mk_bmap_at [OF h n refl k fb r] by blast
  let ?x = "bs' ! ?k"
  let ?img = "img'[?x := splice (img' ! ?x) ?o ?q]"
  have x: "?x < 2000" "?x \<in> set (blocks_of bs' ind')" using held_addr(2) [OF h', of ?x] len' by simp_all
  have li: "length img' = 2000" using h' img_okD(1) by (auto simp: held_def)
  have "iappend_loop d (length c) p s =
      iappend_loop (d\<lparr>di_addrs := as'\<rparr>) (length c + ?n) (drop ?n p) (s\<lparr>m_img := ?img, m_freeblock := of_nat fb'\<rparr>)"
    using p k x li
    by (subst iappend_loop.simps)
      (simp add: Let_def bm bnd_def thn_def rsect_ok wsect_ok not_le minus_div_mult_eq_mod mkfs_swap)
  moreover have "?o + length ?q \<le> BSIZE" using split(2) b by simp
  then have "held ?img fb' as' (c @ ?q) bs' ind'" using held_write [OF h' refl _] len' by simp
  moreover have "length bs' = nblk (length c + ?n)" unfolding nblk_step [OF pos lim] by (rule len')
  moreover have "?n \<le> length p" by simp
  ultimately show ?thesis using pos extends_update [OF g x(2)] by blast
qed

lemma iappend_loop_ok:
  assumes "held (m_img s) fb (di_addrs d) c bs ind" and "length bs = nblk (length c)" and "m_freeblock s = of_nat fb"
    and "length c + length p \<le> MAXFILE * BSIZE" and "fb + need (length c + length p) \<le> 2000 + need (length c)"
  shows "\<exists>as' bs' ind' img' fb'. iappend_loop d (length c) p s =
      Ok (d\<lparr>di_addrs := as'\<rparr>, length c + length p) (s\<lparr>m_img := img', m_freeblock := of_nat fb'\<rparr>) \<and>
    held img' fb' as' (c @ p) bs' ind' \<and> length bs' = nblk (length c + length p) \<and>
    extends (m_img s) fb (blocks_of bs ind) img' fb' (blocks_of bs' ind')"
  using assms
proof (induction "length p" arbitrary: p d c s fb bs ind rule: less_induct)
  case less
  note h = less.prems(1) and n = less.prems(2) and fb = less.prems(3) and room = less.prems(5)
  show ?case
  proof (cases "p = []")
    case True
    then show ?thesis
      using h n extends_refl [of "m_img s" fb "blocks_of bs ind"]
      by (intro exI [of _ "di_addrs d"] exI [of _ bs] exI [of _ ind] exI [of _ "m_img s"] exI [of _ fb])
        (simp add: fb [symmetric] iappend_loop.simps ret_def)
  next
    case False
    obtain m as' bs' ind' img' fb' where m: "0 < m" "m \<le> length p" and turn: "iappend_loop d (length c) p s =
        iappend_loop (d\<lparr>di_addrs := as'\<rparr>) (length c + m) (drop m p) (s\<lparr>m_img := img', m_freeblock := of_nat fb'\<rparr>)"
      and h': "held img' fb' as' (c @ take m p) bs' ind'" and n': "length bs' = nblk (length c + m)"
      and g': "extends (m_img s) fb (blocks_of bs ind) img' fb' (blocks_of bs' ind')"
      using iappend_turn [OF less.prems False] by blast
    let ?c = "c @ take m p" and ?d = "d\<lparr>di_addrs := as'\<rparr>" and ?s = "s\<lparr>m_img := img', m_freeblock := of_nat fb'\<rparr>"
    have lc: "length ?c = length c + m" using m by simp
    have tot: "length ?c + length (drop m p) = length c + length p" by simp
    have cp: "?c @ drop m p = c @ p" by simp
    have "fb' + need (length c) = fb + need (length c + m)"
      using g' held_blocks [OF h n] held_blocks [OF h' n'] by (simp add: extends_def)
    then have r: "fb' + need (length c + length p) \<le> 2000 + need (length ?c)" using room lc by simp
    have i1: "length (drop m p) < length p" using m False by simp
    have i2: "held (m_img ?s) fb' (di_addrs ?d) ?c bs' ind'" "length bs' = nblk (length ?c)" "m_freeblock ?s = of_nat fb'"
      using h' n' lc by simp_all
    obtain as'' bs'' ind'' img'' fb'' where
      l: "iappend_loop ?d (length ?c) (drop m p) ?s =
        Ok (?d\<lparr>di_addrs := as''\<rparr>, length c + length p) (?s\<lparr>m_img := img'', m_freeblock := of_nat fb''\<rparr>)"
      and h3: "held img'' fb'' as'' (c @ p) bs'' ind''" "length bs'' = nblk (length c + length p)"
      and g3: "extends (m_img ?s) fb' (blocks_of bs' ind') img'' fb'' (blocks_of bs'' ind'')"
      using less.hyps [OF i1 i2, unfolded tot cp, OF less.prems(4) r] by blast
    have g3': "extends img' fb' (blocks_of bs' ind') img'' fb'' (blocks_of bs'' ind'')" using g3 by simp
    show ?thesis
      using l h3 extends_trans [OF g' g3'] unfolding turn lc
      by (intro exI [of _ as''] exI [of _ bs''] exI [of _ ind''] exI [of _ img''] exI [of _ fb'']) simp
  qed
qed

end
