(* ===== verification/Mkfs_Image.thy ===== *)
theory Mkfs_Image
  imports Mkfs_Files
begin

text \<open>
  The image that \<^verbatim>\<open>mkfs\<close> builds as a whole. An invariant describes the image after every call: the files
  made so far, in the order of their inode numbers, with the contents given to them. The program keeps it.
\<close>

section \<open>The inode table\<close>

definition inode_at :: "uchar list list \<Rightarrow> nat \<Rightarrow> dinode" where
  "inode_at img i = slot (img ! (32 + i div IPB)) (of_nat i)"

definition set_inode :: "uchar list list \<Rightarrow> nat \<Rightarrow> dinode \<Rightarrow> uchar list list" where
  "set_inode img i d =
     img[32 + i div IPB := splice (img ! (32 + i div IPB)) (dinode_off (of_nat i)) (enc_dinode d)]"

lemma IPB_eq: "IPB = 16" by (simp add: layout_defs)

lemma IBLOCK_mk: "i < 208 \<Longrightarrow> IBLOCK (of_nat i) mk_superblock = of_nat (32 + i div IPB)"
proof -
  assume "i < 208"
  then have "(of_nat i div of_nat IPB :: uint) = of_nat (i div IPB)"
    by (simp add: IPB_eq word_arith_nat_div unat_small)
  then show ?thesis by (simp add: IBLOCK_def mk_superblock_def nlog_def LOGSIZE_def MAXOPBLOCKS_def)
qed

lemma inode_block: "i < 208 \<Longrightarrow> 32 + i div IPB < 45"
  by (simp add: IPB_eq)

lemma winode_ok:
  assumes "img_ok (m_img s) fb" and "m_sb s = mk_superblock" and "i < 208"
  shows "winode (of_nat i) d s = Ok () (s\<lparr>m_img := set_inode (m_img s) i d\<rparr>)"
  using img_okD(1) [OF assms(1)] assms(2,3) inode_block [of i]
  by (simp add: winode_def bnd_def reads_def IBLOCK_mk rsect_ok wsect_ok set_inode_def del: of_nat_add)

lemma rinode_ok:
  assumes "img_ok (m_img s) fb" and "m_sb s = mk_superblock" and "i < 208"
  shows "rinode (of_nat i) s = Ok (inode_at (m_img s) i) s"
  using img_okD(1) [OF assms(1)] assms(2,3) inode_block [of i]
  by (simp add: rinode_def bnd_def reads_def ret_def IBLOCK_mk rsect_ok inode_at_def slot_def del: of_nat_add)

lemma set_inode:
  assumes "img_ok img fb" and "i < 208" and "length (di_addrs d) = NDIRECT + 1"
  shows "inode_at (set_inode img i d) i = d"
    and "j < 208 \<Longrightarrow> j \<noteq> i \<Longrightarrow> inode_at (set_inode img i d) j = inode_at img j"
    and "b < 32 \<or> 45 \<le> b \<Longrightarrow> set_inode img i d ! b = img ! b"
    and "img_ok (set_inode img i d) fb"
proof -
  let ?k = "32 + i div IPB"
  have k: "?k < 45" "?k < 2000" "?k < fb" using inode_block [OF assms(2)] img_okD(3) [OF assms(1)] by simp_all
  have l: "?k < length img" using k img_okD(1) [OF assms(1)] by simp
  note sp = slot_splice [OF img_okD(2) [OF assms(1) k(2)] assms(3)]
  show "inode_at (set_inode img i d) i = d" using l sp(1) by (simp add: inode_at_def set_inode_def)
  show "b < 32 \<or> 45 \<le> b \<Longrightarrow> set_inode img i d ! b = img ! b" using k(1) by (auto simp: set_inode_def)
  show "img_ok (set_inode img i d) fb" unfolding set_inode_def using assms(1) sp(3) k(3) by (rule img_ok_update)
  show "inode_at (set_inode img i d) j = inode_at img j" if j: "j < 208" "j \<noteq> i"
  proof (cases "j div IPB = i div IPB")
    case True
    then have "j mod IPB \<noteq> i mod IPB" using j(2) by (metis div_mult_mod_eq)
    then show ?thesis using sp(2) l True j assms(2) by (simp add: inode_at_def set_inode_def unat_small)
  next
    case False
    then show ?thesis by (simp add: inode_at_def set_inode_def)
  qed
qed

section \<open>The invariant\<close>

type_synonym mfile = "ushort \<times> uchar list"
type_synonym mblocks = "nat list \<times> nat option"

definition mk_dinode :: "ushort \<Rightarrow> nat \<Rightarrow> uint list \<Rightarrow> dinode" where
  "mk_dinode ty n as = \<lparr>di_type = ty, di_major = 0, di_minor = 0, di_nlink = 1, di_size = of_nat n, di_addrs = as\<rparr>"

definition file_ok :: "uchar list list \<Rightarrow> nat \<Rightarrow> nat \<Rightarrow> mfile \<Rightarrow> mblocks \<Rightarrow> bool" where
  "file_ok img fb i f B \<longleftrightarrow>
     (\<exists>as. inode_at img i = mk_dinode (fst f) (length (snd f)) as \<and> held img fb as (snd f) (fst B) (snd B)) \<and>
     length (fst B) = nblk (length (snd f))"

abbreviation blocks :: "mblocks \<Rightarrow> nat set" where
  "blocks B \<equiv> set (blocks_of (fst B) (snd B))"

definition used_blocks :: "mfile list \<Rightarrow> nat" where
  "used_blocks cs = 46 + (\<Sum>(ty, c)\<leftarrow>cs. need (length c))"

definition meta_ok :: "uchar list list \<Rightarrow> nat \<Rightarrow> bool" where
  "meta_ok img n \<longleftrightarrow> img ! 0 = replicate BSIZE 0 \<and>
     img ! 1 = enc_superblock mk_superblock @ replicate (BSIZE - 32) 0 \<and>
     (\<forall>b. 2 \<le> b \<longrightarrow> b < 32 \<longrightarrow> img ! b = replicate BSIZE 0) \<and>
     (\<forall>i. i = 0 \<or> n < i \<longrightarrow> i < 208 \<longrightarrow> di_type (inode_at img i) = 0)"

definition fs_ok :: "uchar list list \<Rightarrow> mfile list \<Rightarrow> (nat \<Rightarrow> mblocks) \<Rightarrow> bool" where
  "fs_ok img cs B \<longleftrightarrow> img_ok img (used_blocks cs) \<and> length cs < NINODES \<and> meta_ok img (length cs) \<and>
     (\<forall>i<length cs. file_ok img (used_blocks cs) (Suc i) (cs ! i) (B i)) \<and>
     (\<forall>i<length cs. \<forall>j<length cs. i \<noteq> j \<longrightarrow> blocks (B i) \<inter> blocks (B j) = {})"

definition mkfs_ok :: "mkfs \<Rightarrow> mfile list \<Rightarrow> bool" where
  "mkfs_ok s cs \<longleftrightarrow> m_sb s = mk_superblock \<and> m_freeinode s = of_nat (Suc (length cs)) \<and>
     m_freeblock s = of_nat (used_blocks cs) \<and> (\<exists>B. fs_ok (m_img s) cs B)"

lemma held_cong:
  assumes "held img fb as c bs ind" and "img_ok img' fb'" and "fb \<le> fb'"
    and "\<And>b. b \<in> set (blocks_of bs ind) \<Longrightarrow> img' ! b = img ! b"
  shows "held img' fb' as c bs ind"
proof -
  have h: "file_at img as c bs ind" "set (blocks_of bs ind) \<subseteq> {46..<fb}" using assms(1) by (simp_all add: held_def)
  have "file_at img' as c bs ind" using h(1) assms(4) by (rule file_at_cong)
  moreover have "{46..<fb} \<subseteq> {46..<fb'}" using assms(3) by simp
  then have "set (blocks_of bs ind) \<subseteq> {46..<fb'}" using h(2) by (rule subset_trans [rotated])
  ultimately show ?thesis using assms(1,2) by (simp add: held_def)
qed

lemma file_ok_cong:
  assumes "file_ok img fb i f B" and "img_ok img' fb'" and "fb \<le> fb'"
    and "\<And>b. b \<in> blocks B \<Longrightarrow> img' ! b = img ! b" and "inode_at img' i = inode_at img i"
  shows "file_ok img' fb' i f B"
  using assms(1,5) held_cong [OF _ assms(2-4)] unfolding file_ok_def by metis

lemma file_ok_blocks: "file_ok img fb i f B \<Longrightarrow> blocks B \<subseteq> {46..<fb}"
  by (auto simp: file_ok_def held_def)

lemma file_at_length: "file_at img as c bs ind \<Longrightarrow> length as = NDIRECT + 1"
  by (simp add: file_at_def)

lemma inode_at_cong: "(\<And>b. b < 46 \<Longrightarrow> img' ! b = img ! b) \<Longrightarrow> j < 208 \<Longrightarrow> inode_at img' j = inode_at img j"
  using inode_block [of j] by (simp add: inode_at_def)

lemma meta_ok_cong:
  "meta_ok img n \<Longrightarrow> (\<And>b. b < 32 \<Longrightarrow> img' ! b = img ! b) \<Longrightarrow>
    (\<And>j. j < 208 \<Longrightarrow> j = 0 \<or> m < j \<Longrightarrow> di_type (inode_at img' j) = di_type (inode_at img j)) \<Longrightarrow> n \<le> m \<Longrightarrow> meta_ok img' m"
  by (auto simp: meta_ok_def)

lemma used_blocks_update:
  "i < length cs \<Longrightarrow> cs ! i = (ty, c) \<Longrightarrow>
    used_blocks (cs[i := (ty, c')]) + need (length c) = used_blocks cs + need (length c')"
proof (induction cs arbitrary: i)
  case (Cons x xs)
  then show ?case by (cases i) (auto simp: used_blocks_def)
qed simp

lemma fs_ok_extend:
  assumes fs: "fs_ok img cs B" and i: "i < length cs" "cs ! i = (ty, c)" and cs': "cs' = cs[i := (ty, c')]"
    and h: "held img' (used_blocks cs') as' c' bs' ind'" and n: "length bs' = nblk (length c')"
    and ex: "extends img (used_blocks cs) (blocks_of (fst (B i)) (snd (B i))) img' (used_blocks cs') (blocks_of bs' ind')"
  shows "fs_ok (set_inode img' (Suc i) (mk_dinode ty (length c') as')) cs' (B(i := (bs', ind')))"
    (is "fs_ok ?img cs' ?B")
proof -
  let ?d = "mk_dinode ty (length c') as'"
  have fo: "file_ok img (used_blocks cs) (Suc j) (cs ! j) (B j)" if "j < length cs" for j using fs that by (simp add: fs_ok_def)
  have dj: "blocks (B j) \<inter> blocks (B k) = {}" if "j < length cs" "k < length cs" "j \<noteq> k" for j k
    using fs that by (simp add: fs_ok_def)
  have n208: "length cs < 200" using fs by (simp add: fs_ok_def NINODES_def)
  have si: "Suc i < 208" using i n208 by simp
  have ok': "img_ok img' (used_blocks cs')" and la: "length (di_addrs ?d) = NDIRECT + 1"
    using h file_at_length by (auto simp: held_def mk_dinode_def)
  note st = set_inode [OF ok' si la]
  have new: "blocks (bs', ind') \<subseteq> {46..<used_blocks cs'}" using h by (simp add: held_def)
  have sub: "blocks (bs', ind') \<subseteq> blocks (B i) \<union> {used_blocks cs..<used_blocks cs'}" and le: "used_blocks cs \<le> used_blocks cs'"
    and fr: "\<And>b. b \<notin> blocks (bs', ind') \<Longrightarrow> img' ! b = img ! b" using ex by (simp_all add: extends_def)
  have low: "img' ! b = img ! b" if "b < 46" for b using that new by (intro fr) auto
  have ap: "blocks (B j) \<inter> blocks (bs', ind') = {}" if "j < length cs" "j \<noteq> i" for j
    using file_ok_blocks [OF fo [OF that(1)]] dj [OF that(1) i(1) that(2)] sub by fastforce
  have keep: "inode_at ?img j = inode_at img j" if "j < 208" "j \<noteq> Suc i" for j
    using st(2) [OF that] inode_at_cong [OF low that(1)] by simp
  have "meta_ok img (length cs)" using fs by (simp add: fs_ok_def)
  then have "meta_ok ?img (length cs)"
    by (rule meta_ok_cong) (use st(3) low keep i(1) in auto)
  moreover have "file_ok ?img (used_blocks cs') (Suc j) (cs' ! j) (?B j)" if j: "j < length cs" for j
  proof (cases "j = i")
    case True
    have "held ?img (used_blocks cs') as' c' bs' ind'"
      using h st(4) by (rule held_cong) (use new st(3) in auto)
    with True st(1) i n cs' show ?thesis by (auto simp: file_ok_def)
  next
    case False
    have "file_ok ?img (used_blocks cs') (Suc j) (cs ! j) (B j)"
    proof (rule file_ok_cong [OF fo [OF j] st(4) le])
      show "?img ! b = img ! b" if b: "b \<in> blocks (B j)" for b
      proof -
        have "b \<notin> blocks (bs', ind')" using ap [OF j False] b by blast
        moreover have "46 \<le> b" using file_ok_blocks [OF fo [OF j]] b by auto
        ultimately show ?thesis using fr st(3) [of b] by simp
      qed
      show "inode_at ?img (Suc j) = inode_at img (Suc j)" using keep j n208 False by simp
    qed
    with False cs' show ?thesis by simp
  qed
  moreover have "blocks (?B j) \<inter> blocks (?B k) = {}" if "j < length cs" "k < length cs" "j \<noteq> k" for j k
    using ap [of j] ap [of k] dj [OF that] that by (auto simp del: set_append)
  ultimately show ?thesis using st(4) n208 cs' unfolding fs_ok_def NINODES_def by simp
qed

section \<open>The program keeps the invariant\<close>

lemma iappend_ok:
  assumes s: "mkfs_ok s cs" and i: "i < length cs" "cs ! i = (ty, c)"
    and mx: "length c + length p \<le> MAXFILE * BSIZE" and room: "used_blocks (cs[i := (ty, c @ p)]) \<le> 2000"
  shows "\<exists>s'. iappend (of_nat (Suc i)) p s = Ok () s' \<and> mkfs_ok s' (cs[i := (ty, c @ p)])"
proof -
  let ?cs = "cs[i := (ty, c @ p)]"
  obtain B where fs: "fs_ok (m_img s) cs B" using s by (auto simp: mkfs_ok_def)
  have fb: "m_freeblock s = of_nat (used_blocks cs)" and sb: "m_sb s = mk_superblock" using s by (simp_all add: mkfs_ok_def)
  have ok: "img_ok (m_img s) (used_blocks cs)" and si: "Suc i < 208" using fs i by (simp_all add: fs_ok_def NINODES_def)
  have "file_ok (m_img s) (used_blocks cs) (Suc i) (ty, c) (B i)" using fs i by (simp add: fs_ok_def) metis
  then obtain as where a: "inode_at (m_img s) (Suc i) = mk_dinode ty (length c) as"
    and h: "held (m_img s) (used_blocks cs) as c (fst (B i)) (snd (B i))" and n: "length (fst (B i)) = nblk (length c)"
    by (auto simp: file_ok_def)
  let ?d = "mk_dinode ty (length c) as"
  have h': "held (m_img s) (used_blocks cs) (di_addrs ?d) c (fst (B i)) (snd (B i))" using h by (simp add: mk_dinode_def)
  have tot: "used_blocks ?cs + need (length c) = used_blocks cs + need (length c + length p)"
    using used_blocks_update [OF i, of "c @ p"] by simp
  then have r: "used_blocks cs + need (length c + length p) \<le> 2000 + need (length c)" using room by simp
  obtain as' bs' ind' img' fb' where
    l: "iappend_loop ?d (length c) p s =
        Ok (?d\<lparr>di_addrs := as'\<rparr>, length c + length p) (s\<lparr>m_img := img', m_freeblock := of_nat fb'\<rparr>)"
    and h2: "held img' fb' as' (c @ p) bs' ind'" and n2: "length bs' = nblk (length c + length p)"
    and ex: "extends (m_img s) (used_blocks cs) (blocks_of (fst (B i)) (snd (B i))) img' fb' (blocks_of bs' ind')"
    using iappend_loop_ok [OF h' n fb mx r] by blast
  have "fb' + need (length c) = used_blocks cs + need (length c + length p)"
    using ex held_blocks [OF h n] held_blocks [OF h2 n2] by (simp add: extends_def)
  then have e: "fb' = used_blocks ?cs" using tot by simp
  have "length c < 4294967296" using mx by (simp add: layout_defs)
  then have sz: "unat (di_size ?d) = length c" by (simp add: mk_dinode_def unat_small)
  let ?s = "s\<lparr>m_img := img', m_freeblock := of_nat fb'\<rparr>"
  let ?img = "set_inode img' (Suc i) (mk_dinode ty (length (c @ p)) as')"
  have "img_ok (m_img ?s) fb'" using h2 by (simp add: held_def)
  then have w: "winode (of_nat (Suc i)) (mk_dinode ty (length (c @ p)) as') ?s = Ok () (?s\<lparr>m_img := ?img\<rparr>)"
    using winode_ok [of ?s fb' "Suc i"] sb si by simp
  have "(?d\<lparr>di_addrs := as'\<rparr>)\<lparr>di_size := of_nat (length c + length p)\<rparr> = mk_dinode ty (length (c @ p)) as'"
    by (simp add: mk_dinode_def)
  then have "iappend (of_nat (Suc i)) p s = Ok () (?s\<lparr>m_img := ?img\<rparr>)"
    using rinode_ok [OF ok sb si] a sz l w by (simp add: iappend_def bnd_def del: of_nat_Suc of_nat_add)
  moreover have "fs_ok ?img ?cs (B(i := (bs', ind')))"
    using fs_ok_extend [OF fs i refl h2 [unfolded e]] n2 ex [unfolded e] by simp
  then have "mkfs_ok (?s\<lparr>m_img := ?img\<rparr>) ?cs" using s e by (auto simp: mkfs_ok_def)
  ultimately show ?thesis by blast
qed

lemma file_at_empty: "file_at img (replicate (NDIRECT + 1) 0) [] [] None"
  by (simp add: file_at_def nth_append del: replicate_Suc)

lemma mk_ialloc_ok:
  assumes s: "mkfs_ok s cs" and n: "Suc (length cs) < NINODES"
  shows "\<exists>s'. mk_ialloc ty s = Ok (of_nat (Suc (length cs))) s' \<and> mkfs_ok s' (cs @ [(ty, [])])"
proof -
  let ?i = "Suc (length cs)" and ?cs = "cs @ [(ty, [])]"
  let ?d = "mk_dinode ty 0 (replicate (NDIRECT + 1) 0)"
  let ?img = "set_inode (m_img s) ?i ?d" and ?s = "s\<lparr>m_freeinode := of_nat ?i + 1\<rparr>"
  obtain B where fs: "fs_ok (m_img s) cs B" using s by (auto simp: mkfs_ok_def)
  have sb: "m_sb s = mk_superblock" and fi: "m_freeinode s = of_nat ?i" using s by (simp_all add: mkfs_ok_def)
  have tot: "used_blocks ?cs = used_blocks cs" by (simp add: used_blocks_def need_def nblk_def BSIZE_def)
  have ok: "img_ok (m_img s) (used_blocks cs)" using fs by (simp add: fs_ok_def)
  have si: "?i < 208" using n by (simp add: NINODES_def)
  have la: "length (di_addrs ?d) = NDIRECT + 1" by (simp add: mk_dinode_def)
  note st = set_inode [OF ok si la]
  let ?B = "B(length cs := ([], None))"
  have "meta_ok (m_img s) (length cs)" using fs by (simp add: fs_ok_def)
  then have "meta_ok ?img ?i" by (rule meta_ok_cong) (use st(2,3) in auto)
  moreover have "file_ok ?img (used_blocks cs) (Suc j) (?cs ! j) (?B j)" if "j < ?i" for j
  proof (cases "j = length cs")
    case True
    have "held ?img (used_blocks cs) (replicate (NDIRECT + 1) 0) [] [] None"
      using st(4) file_at_empty by (simp add: held_def)
    with True st(1) show ?thesis by (auto simp: file_ok_def nblk_def BSIZE_def)
  next
    case False
    then have j: "j < length cs" using that by simp
    then have f: "file_ok (m_img s) (used_blocks cs) (Suc j) (cs ! j) (B j)" using fs by (simp add: fs_ok_def)
    have "file_ok ?img (used_blocks cs) (Suc j) (cs ! j) (B j)"
      by (rule file_ok_cong [OF f st(4) order_refl]) (use file_ok_blocks [OF f] st(2,3) j si in auto)
    with False j show ?thesis by (simp add: nth_append)
  qed
  moreover have "blocks (?B j) \<inter> blocks (?B k) = {}" if "j < ?i" "k < ?i" "j \<noteq> k" for j k
    using fs that by (auto simp: fs_ok_def less_Suc_eq simp del: set_append)
  ultimately have "fs_ok ?img ?cs ?B" using st(4) n unfolding fs_ok_def tot by simp
  then have "mkfs_ok (?s\<lparr>m_img := ?img\<rparr>) ?cs" using s tot by (auto simp: mkfs_ok_def)
  moreover have "winode (of_nat ?i) ?d ?s = Ok () (?s\<lparr>m_img := ?img\<rparr>)"
    using winode_ok [of ?s "used_blocks cs" ?i ?d] ok sb si by simp
  then have "mk_ialloc ty s = Ok (of_nat ?i) (?s\<lparr>m_img := ?img\<rparr>)"
    using fi by (simp add: mk_ialloc_def bnd_def thn_def reads_def writes_def ret_def mk_dinode_def del: of_nat_Suc)
  ultimately show ?thesis by blast
qed

lemma used_blocks_mono:
  assumes "i < length cs" and "cs ! i = (ty, c)" and "length d \<le> length e"
  shows "used_blocks (cs[i := (ty, d)]) \<le> used_blocks (cs[i := (ty, e)])"
  using used_blocks_update [OF assms(1,2), of d] used_blocks_update [OF assms(1,2), of e] need_mono [OF assms(3)] by simp

lemma append_source_ok:
  assumes "mkfs_ok s cs" and "i < length cs" "cs ! i = (ty, c)" and "delivers src t"
    and "length c + length t \<le> MAXFILE * BSIZE" and "used_blocks (cs[i := (ty, c @ t)]) \<le> 2000"
  shows "\<exists>s'. append_source (of_nat (Suc i)) src s = Ok () s' \<and> mkfs_ok s' (cs[i := (ty, c @ t)])"
  using assms
proof (induction "pending src" arbitrary: src t c cs s rule: less_induct)
  case less
  note ok = less.prems(1) and i = less.prems(2,3) and mx = less.prems(5) and room = less.prems(6)
  have pos: "0 < BSIZE" by (simp add: BSIZE_def)
  obtain d t' src' where r: "uread BSIZE src = (Some d, src')" and d: "length d \<le> BSIZE" "d = [] \<longleftrightarrow> t = []" "t = d @ t'"
    and src': "delivers src' t'"
    by (rule uread_delivers [OF less.prems(4) pos])
  show ?case
  proof (cases d)
    case Nil
    then have "t = []" using d(2) by simp
    then have "cs[i := (ty, c @ t)] = cs" using i(2) by (metis append_Nil2 list_update_id)
    then show ?thesis using Nil r ok by (simp add: append_source.simps [of _ src] ret_def)
  next
    case (Cons x xs)
    have mx': "length c + length d \<le> MAXFILE * BSIZE" using mx d(3) by simp
    have room': "used_blocks (cs[i := (ty, c @ d)]) \<le> 2000"
      using used_blocks_mono [OF i, of "c @ d" "c @ t"] d(3) room by simp
    obtain u where u: "iappend (of_nat (Suc i)) d s = Ok () u" "mkfs_ok u (cs[i := (ty, c @ d)])"
      using iappend_ok [OF ok i mx' room'] by blast
    have "pending src' < pending src" using uread_pending [OF r [unfolded Cons]] by simp
    then obtain w where "append_source (of_nat (Suc i)) src' u = Ok () w" "mkfs_ok w (cs[i := (ty, (c @ d) @ t')])"
      using less.hyps [of src' u "cs[i := (ty, c @ d)]" "c @ d" t'] u(2) i src' mx room d(3) by simp metis
    then show ?thesis using u(1) r Cons d(3) by (simp add: append_source.simps [of _ src] thn_def bnd_def)
  qed
qed

text \<open>The directory entries, and the files that the arguments of the program stand for.\<close>

definition dir_entry :: "nat \<Rightarrow> uchar list \<Rightarrow> uchar list" where
  "dir_entry i name = enc_dirent \<lparr>de_inum = of_nat i, de_name = dirent_name name\<rparr>"

definition root_dir :: "uchar list list \<Rightarrow> uchar list" where
  "root_dir names = dir_entry 1 [46] @ dir_entry 1 [46, 46] @
     concat (map (\<lambda>k. dir_entry (k + 2) (names ! k)) [0..<length names])"

definition file_name :: "uchar list \<Rightarrow> uchar list" where
  "file_name path = (let n = shortname path in if take 1 n = [95] then drop 1 n else n)"

definition fs_files :: "(uchar list \<times> source) list \<Rightarrow> mfile list" where
  "fs_files args = (T_DIR, root_dir (map (file_name \<circ> fst) args)) #
     map (\<lambda>(path, src). (T_FILE, concat (map the src))) args"

definition arg_ok :: "uchar list \<times> source \<Rightarrow> bool" where
  "arg_ok f \<longleftrightarrow> 47 \<notin> set (shortname (fst f)) \<and> length (file_name (fst f)) \<le> DIRSIZ \<and>
     None \<notin> set (snd f) \<and> Some [] \<notin> set (snd f) \<and> length (concat (map the (snd f))) \<le> MAXFILE * BSIZE"

lemma length_dir_entry: "length (dir_entry i name) = 16"
  by (simp add: dir_entry_def enc_dirent_def length_dirent_name DIRSIZ_def)

lemma length_root_dir: "length (root_dir names) = 16 * (2 + length names)"
  by (simp add: root_dir_def length_dir_entry length_concat comp_def sum_list_triv)

lemma root_dir_snoc: "root_dir (names @ [n]) = root_dir names @ dir_entry (length names + 2) n"
proof -
  have "map (\<lambda>k. dir_entry (k + 2) ((names @ [n]) ! k)) [0..<length names] =
      map (\<lambda>k. dir_entry (k + 2) (names ! k)) [0..<length names]" by (simp add: nth_append)
  then show ?thesis by (simp add: root_dir_def del: map_eq_conv)
qed

lemma add_dirent_ok:
  assumes s: "mkfs_ok s ((ty, c) # cs)" and mx: "length c + 16 \<le> MAXFILE * BSIZE"
    and room: "used_blocks ((ty, c @ dir_entry i name) # cs) \<le> 2000" and i: "i < 65536"
  shows "\<exists>s'. add_dirent 1 (of_nat i) name s = Ok () s' \<and> mkfs_ok s' ((ty, c @ dir_entry i name) # cs)"
proof -
  have "(ucast (of_nat i :: uint) :: ushort) = of_nat i" using i by (simp add: unsigned_of_nat take_bit_nat_eq_self)
  then have "add_dirent 1 (of_nat i) name = iappend (of_nat (Suc 0)) (dir_entry i name)"
    by (simp add: add_dirent_def dir_entry_def)
  then show ?thesis using iappend_ok [OF s, of 0 ty c "dir_entry i name"] mx room by (simp add: length_dir_entry)
qed

lemma add_file_ok:
  assumes s: "mkfs_ok s (fs_files pre)" and arg: "arg_ok (path, src)" and n: "length pre + 2 < NINODES"
    and room: "used_blocks (fs_files (pre @ [(path, src)])) \<le> 2000"
  shows "\<exists>s'. add_file 1 (path, Some src) s = Ok () s' \<and> mkfs_ok s' (fs_files (pre @ [(path, src)]))"
proof -
  let ?xs = "map (\<lambda>(path, src). (T_FILE, concat (map the src))) pre" and ?i = "length pre + 2"
  let ?r = "root_dir (map (file_name \<circ> fst) pre)" and ?e = "dir_entry ?i (file_name path)" and ?t = "concat (map the src)"
  have fin: "fs_files (pre @ [(path, src)]) = (T_DIR, ?r @ ?e) # ?xs @ [(T_FILE, ?t)]"
    by (simp add: fs_files_def root_dir_snoc)
  have cs: "fs_files pre = (T_DIR, ?r) # ?xs" by (simp add: fs_files_def)
  have n': "Suc (length ((T_DIR, ?r) # ?xs)) < NINODES" using n by simp
  obtain u where u: "mk_ialloc T_FILE s = Ok (of_nat ?i) u" "mkfs_ok u ((T_DIR, ?r) # ?xs @ [(T_FILE, [])])"
    using mk_ialloc_ok [OF s [unfolded cs] n', of T_FILE] by auto
  have mx: "length ?r + 16 \<le> MAXFILE * BSIZE" using n by (simp add: length_root_dir layout_defs)
  have "need 0 \<le> need (length ?t)" by (rule need_mono) simp
  then have r1: "used_blocks ((T_DIR, ?r @ ?e) # ?xs @ [(T_FILE, [])]) \<le> 2000"
    using room unfolding fin by (simp add: used_blocks_def)
  have "?i < 65536" using n by (simp add: NINODES_def)
  then obtain v where v: "add_dirent 1 (of_nat ?i) (file_name path) u = Ok () v"
      "mkfs_ok v ((T_DIR, ?r @ ?e) # ?xs @ [(T_FILE, [])])"
    using add_dirent_ok [OF u(2) mx r1] by blast
  have d: "delivers src ?t" "length ?t \<le> MAXFILE * BSIZE" using arg by (simp_all add: arg_ok_def)
  obtain w where w: "append_source (of_nat ?i) src v = Ok () w" "mkfs_ok w ((T_DIR, ?r @ ?e) # ?xs @ [(T_FILE, ?t)])"
    using append_source_ok [OF v(2), of "Suc (length pre)" T_FILE "[]" src ?t] d room fin
    by (auto simp: nth_append list_update_append simp del: set_map set_concat)
  have nm: "47 \<notin> set (shortname path)" "\<not> DIRSIZ < length (file_name path)" using arg by (simp_all add: arg_ok_def)
  have "add_file 1 (path, Some src) s = bnd (mk_ialloc T_FILE) (\<lambda>inum. thn (add_dirent 1 inum (file_name path)) (append_source inum src)) s"
    unfolding add_file_def Let_def prod.case option.case file_name_def [unfolded Let_def, symmetric] using nm by simp
  also have "\<dots> = Ok () w" using u(1) v(1) w(1) by (simp add: bnd_def thn_def del: of_nat_add)
  finally show ?thesis using w(2) fin by simp
qed

lemma add_files_ok:
  "mkfs_ok s (fs_files pre) \<Longrightarrow> \<forall>f\<in>set args. arg_ok f \<Longrightarrow> length pre + length args + 1 < NINODES \<Longrightarrow>
    used_blocks (fs_files (pre @ args)) \<le> 2000 \<Longrightarrow>
    \<exists>s'. foreach (map (\<lambda>(path, src). (path, Some src)) args) (add_file 1) s = Ok () s' \<and> mkfs_ok s' (fs_files (pre @ args))"
proof (induction args arbitrary: pre s)
  case Nil
  then show ?case by (simp add: ret_def)
next
  case (Cons f args)
  obtain path src where f: "f = (path, src)" by (cases f)
  have "need (length (root_dir (map (file_name \<circ> fst) (pre @ [f])))) \<le>
      need (length (root_dir (map (file_name \<circ> fst) (pre @ f # args))))"
    by (rule need_mono) (simp add: length_root_dir)
  then have room: "used_blocks (fs_files (pre @ [f])) \<le> 2000"
    using Cons.prems(4) by (simp add: used_blocks_def fs_files_def)
  obtain u where u: "add_file 1 (path, Some src) s = Ok () u" "mkfs_ok u (fs_files (pre @ [f]))"
    using add_file_ok [OF Cons.prems(1), of path src] Cons.prems(2,3) room f by auto
  then obtain w where "foreach (map (\<lambda>(path, src). (path, Some src)) args) (add_file 1) u = Ok () w"
      "mkfs_ok w (fs_files ((pre @ [f]) @ args))"
    using Cons.IH [OF u(2)] Cons.prems by auto
  then show ?case using u(1) f by (simp add: thn_def bnd_def)
qed

section \<open>The start and the end of the program\<close>

lemma clear_image:
  "m_img s = replicate n (replicate BSIZE 0) \<Longrightarrow> n + k \<le> 2000 \<Longrightarrow>
    foreach [n..<n + k] (\<lambda>i. wsect (of_nat i) (replicate BSIZE 0)) s =
      Ok () (s\<lparr>m_img := replicate (n + k) (replicate BSIZE 0)\<rparr>)"
proof (induction k arbitrary: n s)
  case 0
  then show ?case by (simp add: ret_def)
next
  case (Suc k)
  let ?s = "s\<lparr>m_img := replicate (Suc n) (replicate BSIZE 0)\<rparr>"
  have w: "wsect (of_nat n) (replicate BSIZE 0) s = Ok () ?s"
    using Suc.prems by (simp add: wsect_def writes_def img_write_def sect_of_nat replicate_append_same)
  have "foreach [Suc n..<Suc n + k] (\<lambda>i. wsect (of_nat i) (replicate BSIZE 0)) ?s =
      Ok () (?s\<lparr>m_img := replicate (Suc n + k) (replicate BSIZE 0)\<rparr>)" using Suc.prems by (intro Suc.IH) simp_all
  moreover have "[n..<n + Suc k] = n # [Suc n..<Suc n + k]" by (simp add: upt_conv_Cons)
  ultimately show ?case using w by (simp add: thn_def bnd_def del: replicate_Suc upt_Suc)
qed

definition blank_image :: "uchar list list" where
  "blank_image = (replicate 2000 (replicate BSIZE 0))[1 := enc_superblock mk_superblock @ replicate (BSIZE - 32) 0]"

lemma blank_image_nth: "b < 2000 \<Longrightarrow> b \<noteq> 1 \<Longrightarrow> blank_image ! b = replicate BSIZE 0"
  by (simp add: blank_image_def)

lemma inode_at_blank_image: "i < 208 \<Longrightarrow> di_type (inode_at blank_image i) = 0"
proof -
  assume i: "i < 208"
  have "DINODE_SIZE \<le> BSIZE - dinode_off (of_nat i)" using dinode_off_bound [of "of_nat i"] by simp
  then have "take DINODE_SIZE (drop (dinode_off (of_nat i)) (replicate BSIZE 0)) = replicate DINODE_SIZE (0 :: uchar)" by simp
  then show ?thesis
    using inode_block [OF i] by (simp add: inode_at_def slot_def blank_image_nth dec_dinode_def le16_def DINODE_SIZE_def)
qed

lemma length_enc_superblock: "length (enc_superblock b) = 32"
  by (simp add: enc_superblock_def)

lemma blank_image_ok: "fs_ok blank_image [] B"
proof -
  have "length (enc_superblock mk_superblock @ replicate (BSIZE - 32) 0) = BSIZE"
    by (simp add: length_enc_superblock BSIZE_def)
  then have "\<forall>b\<in>set blank_image. length b = BSIZE"
    unfolding blank_image_def by (metis set_update_subset_insert [THEN subsetD] insert_iff in_set_replicate length_replicate)
  moreover have "length blank_image = 2000" by (simp add: blank_image_def)
  ultimately have "img_ok blank_image 46" by (auto simp: img_ok_def nmeta_eq FSSIZE_def intro: blank_image_nth)
  moreover have "meta_ok blank_image 0"
    using inode_at_blank_image blank_image_nth by (simp add: meta_ok_def) (simp add: blank_image_def)
  ultimately show ?thesis by (simp add: fs_ok_def used_blocks_def NINODES_def)
qed

lemma length_mk_bits: "length (mk_bits n buf) = length buf"
  by (induction n) (simp_all add: Let_def)

lemma bit_mk_bits:
  assumes "n \<le> 8 * k" and "b < 8 * k"
  shows "bit (mk_bits n (replicate k 0) ! (b div 8)) (b mod 8) \<longleftrightarrow> b < n"
  using assms
proof (induction n)
  case (Suc n)
  have k: "b div 8 < k" using Suc.prems by (simp add: less_mult_imp_div_less mult.commute)
  have e: "b div 8 = n div 8 \<and> b mod 8 = n mod 8 \<longleftrightarrow> b = n" by (metis div_mult_mod_eq)
  have m: "b mod 8 < 8" by simp
  show ?case
    using Suc k e m by (auto simp: Let_def nth_list_update length_mk_bits bit_simps)
qed simp

lemma mk_balloc_ok:
  assumes "m_sb s = mk_superblock" and "img_ok (m_img s) fb"
  shows "mk_balloc (of_nat fb) s = Ok () (s\<lparr>m_img := (m_img s)[45 := mk_bits fb (replicate BSIZE 0)]\<rparr>)"
proof -
  have l: "length (m_img s) = 2000" "fb \<le> 2000" using img_okD(1,4) [OF assms(2)] by simp_all
  have sf: "sint (of_nat fb :: uint) = int fb"
    using l(2) by (simp add: sint_uint uint_nat unat_small signed_take_bit_int_eq_self)
  have "sb_bmapstart mk_superblock = of_nat 45" by (simp add: mk_superblock_def layout_defs)
  then show ?thesis
    using l sf assms(1) by (simp add: mk_balloc_def bnd_def reads_def wsect_ok [where b = 45, simplified] BPB_def BSIZE_def)
qed

text \<open>The size of the root directory is rounded up to the next block; the other sizes are those of the files.\<close>

definition final_size :: "nat \<Rightarrow> nat \<Rightarrow> nat" where
  "final_size i n = (if i = 0 then (n div BSIZE + 1) * BSIZE else n)"

definition finished :: "uchar list list \<Rightarrow> mfile list \<Rightarrow> (nat \<Rightarrow> mblocks) \<Rightarrow> bool" where
  "finished img cs B \<longleftrightarrow> img_ok img (used_blocks cs) \<and> meta_ok img (length cs) \<and>
     img ! 45 = mk_bits (used_blocks cs) (replicate BSIZE 0) \<and>
     (\<forall>i<length cs. length (fst (B i)) = nblk (length (snd (cs ! i))) \<and>
        (\<exists>as. inode_at img (Suc i) = mk_dinode (fst (cs ! i)) (final_size i (length (snd (cs ! i)))) as \<and>
           held img (used_blocks cs) as (snd (cs ! i)) (fst (B i)) (snd (B i)))) \<and>
     (\<forall>i<length cs. \<forall>j<length cs. i \<noteq> j \<longrightarrow> blocks (B i) \<inter> blocks (B j) = {})"

lemma finish:
  assumes fs: "fs_ok img ((ty, c) # cs) B" and a: "inode_at img 1 = mk_dinode ty (length c) as"
  shows "finished ((set_inode img 1 (mk_dinode ty (final_size 0 (length c)) as))
    [45 := mk_bits (used_blocks ((ty, c) # cs)) (replicate BSIZE 0)]) ((ty, c) # cs) B"
    (is "finished (?img1[45 := ?v]) ?cs B")
proof -
  let ?d = "mk_dinode ty (final_size 0 (length c)) as" and ?img = "?img1[45 := ?v]"
  have ok: "img_ok img (used_blocks ?cs)" using fs by (simp add: fs_ok_def)
  have fo: "\<exists>as. inode_at img (Suc i) = mk_dinode (fst (?cs ! i)) (length (snd (?cs ! i))) as \<and>
      held img (used_blocks ?cs) as (snd (?cs ! i)) (fst (B i)) (snd (B i))"
    and nb: "length (fst (B i)) = nblk (length (snd (?cs ! i)))" if "i < length ?cs" for i
    using fs that unfolding fs_ok_def file_ok_def by blast+
  obtain as' where "inode_at img 1 = mk_dinode ty (length c) as'" "held img (used_blocks ?cs) as' c (fst (B 0)) (snd (B 0))"
    using fo [of 0] by auto
  then have h0: "held img (used_blocks ?cs) as c (fst (B 0)) (snd (B 0))" using a by (simp add: mk_dinode_def)
  have la: "length (di_addrs ?d) = NDIRECT + 1" using h0 file_at_length by (auto simp: held_def mk_dinode_def)
  have one: "1 < (208 :: nat)" by simp
  note st = set_inode [OF ok one la]
  have ok': "img_ok ?img (used_blocks ?cs)"
    using img_ok_update [OF st(4), of ?v 45] img_okD(3) [OF ok] by (simp add: length_mk_bits)
  have in': "inode_at ?img j = inode_at ?img1 j" if "j < 208" for j using inode_block [OF that] by (simp add: inode_at_def)
  have hi: "?img ! b = img ! b" if "46 \<le> b \<or> b < 32" for b using that st(3) [of b] by auto
  have "meta_ok img (length ?cs)" using fs by (simp add: fs_ok_def)
  then have "meta_ok ?img (length ?cs)" by (rule meta_ok_cong) (use hi in' st(2,3) in auto)
  moreover have "\<exists>as. inode_at ?img (Suc i) = mk_dinode (fst (?cs ! i)) (final_size i (length (snd (?cs ! i)))) as \<and>
      held ?img (used_blocks ?cs) as (snd (?cs ! i)) (fst (B i)) (snd (B i))" if i: "i < length ?cs" for i
  proof -
    have i208: "Suc i < 208" using fs i by (simp add: fs_ok_def NINODES_def)
    have keep: "held ?img (used_blocks ?cs) x (snd (?cs ! i)) (fst (B i)) (snd (B i))"
      if "held img (used_blocks ?cs) x (snd (?cs ! i)) (fst (B i)) (snd (B i))" for x
      using that ok' order_refl
    proof (rule held_cong)
      fix b assume "b \<in> blocks (B i)"
      then have "46 \<le> b" by (rule held_addr(3) [OF that])
      then show "?img ! b = img ! b" by (intro hi disjI1)
    qed
    show ?thesis
    proof (cases i)
      case 0
      then show ?thesis using keep h0 in' [OF i208] st(1) by (intro exI [of _ as]) simp
    next
      case (Suc k)
      then show ?thesis using fo [OF i] keep in' [OF i208] st(2) [OF i208] by (auto simp: final_size_def)
    qed
  qed
  moreover have "?img ! 45 = ?v" using img_okD(1) [OF st(4)] by simp
  ultimately show ?thesis using ok' nb fs unfolding finished_def fs_ok_def by blast
qed

lemma fix_root_ok:
  assumes "img_ok (m_img s) fb" and "m_sb s = mk_superblock" and "n < 4294967296"
    and "inode_at (m_img s) 1 = mk_dinode ty n as"
  shows "fix_root 1 s = Ok () (s\<lparr>m_img := set_inode (m_img s) 1 (mk_dinode ty (final_size 0 n) as)\<rparr>)"
proof -
  have "(mk_dinode ty n as)\<lparr>di_size := of_nat ((n div BSIZE + 1) * BSIZE)\<rparr> = mk_dinode ty (final_size 0 n) as"
    by (simp add: mk_dinode_def final_size_def)
  then show ?thesis
    using rinode_ok [OF assms(1,2), of 1] winode_ok [OF assms(1,2), of 1] assms(3,4)
    by (simp add: fix_root_def bnd_def Let_def mk_dinode_def unat_small del: of_nat_mult of_nat_add)
qed

lemma mkfs_start:
  assumes "m_img s = []"
  shows "\<exists>s1 s2 u v w.
    foreach [0..<FSSIZE] (\<lambda>i. wsect (of_nat i) (replicate BSIZE 0))
      (s\<lparr>m_sb := mk_superblock, m_freeinode := 1, m_freeblock := of_nat nmeta\<rparr>) = Ok () s1 \<and>
    wsect 1 (enc_superblock mk_superblock @ replicate (BSIZE - 32) 0) s1 = Ok () s2 \<and>
    mk_ialloc T_DIR s2 = Ok 1 u \<and> add_dirent 1 1 [46] u = Ok () v \<and> add_dirent 1 1 [46, 46] v = Ok () w \<and>
    mkfs_ok w (fs_files [])"
proof -
  let ?s0 = "s\<lparr>m_sb := mk_superblock, m_freeinode := 1, m_freeblock := of_nat nmeta\<rparr>"
  let ?z = "replicate BSIZE (0 :: uchar)" and ?sup = "enc_superblock mk_superblock @ replicate (BSIZE - 32) 0"
  let ?s1 = "?s0\<lparr>m_img := replicate 2000 ?z\<rparr>" and ?s2 = "?s0\<lparr>m_img := blank_image\<rparr>"
  have "m_img ?s0 = replicate 0 ?z" using assms by simp
  from clear_image [OF this, of 2000] have
    1: "foreach [0..<FSSIZE] (\<lambda>i. wsect (of_nat i) ?z) ?s0 = Ok () ?s1" unfolding FSSIZE_def add_0 by simp
  have 2: "wsect 1 ?sup ?s1 = Ok () ?s2"
    using wsect_ok [of ?s1 1 ?sup] by (simp add: blank_image_def)
  have ok2: "mkfs_ok ?s2 []" using blank_image_ok by (auto simp: mkfs_ok_def used_blocks_def nmeta_eq)
  obtain u where u: "mk_ialloc T_DIR ?s2 = Ok 1 u" "mkfs_ok u [(T_DIR, [])]"
    using mk_ialloc_ok [OF ok2, of T_DIR] by (auto simp: NINODES_def)
  have nd: "need 32 = 1" "need 16 = 1" by (simp_all add: need_def nblk_def BSIZE_def NDIRECT_def)
  have r: "used_blocks [(T_DIR, dir_entry 1 [46])] \<le> 2000" "used_blocks [(T_DIR, dir_entry 1 [46] @ dir_entry 1 [46, 46])] \<le> 2000"
    by (simp_all add: used_blocks_def length_dir_entry nd)
  obtain v where v: "add_dirent 1 1 [46] u = Ok () v" "mkfs_ok v [(T_DIR, dir_entry 1 [46])]"
    using add_dirent_ok [OF u(2), of 1 "[46]"] r by (auto simp: layout_defs)
  obtain w where w: "add_dirent 1 1 [46, 46] v = Ok () w" "mkfs_ok w (fs_files [])"
    using add_dirent_ok [OF v(2), of 1 "[46, 46]"] r by (auto simp: layout_defs length_dir_entry fs_files_def root_dir_def)
  from 1 2 u(1) v(1) w show ?thesis by blast
qed

lemma mkfs_main_ok:
  assumes img: "m_img s = []" and args: "\<forall>f\<in>set args. arg_ok f" and n: "length args + 1 < NINODES"
    and room: "used_blocks (fs_files args) \<le> 2000"
  shows "\<exists>s' B. mkfs_main (map (\<lambda>(path, src). (path, Some src)) args) s = Ok () s' \<and> finished (m_img s') (fs_files args) B"
proof -
  obtain s1 s2 u v w where st: "foreach [0..<FSSIZE] (\<lambda>i. wsect (of_nat i) (replicate BSIZE 0))
      (s\<lparr>m_sb := mk_superblock, m_freeinode := 1, m_freeblock := of_nat nmeta\<rparr>) = Ok () s1"
    "wsect 1 (enc_superblock mk_superblock @ replicate (BSIZE - 32) 0) s1 = Ok () s2"
    "mk_ialloc T_DIR s2 = Ok 1 u" "add_dirent 1 1 [46] u = Ok () v" "add_dirent 1 1 [46, 46] v = Ok () w"
    and w: "mkfs_ok w (fs_files [])" using mkfs_start [OF img] by blast
  obtain x where x: "foreach (map (\<lambda>(path, src). (path, Some src)) args) (add_file 1) w = Ok () x" "mkfs_ok x (fs_files args)"
    using add_files_ok [OF w args] n room by auto
  let ?c = "root_dir (map (file_name \<circ> fst) args)"
  obtain cs where cs: "fs_files args = (T_DIR, ?c) # cs" by (simp add: fs_files_def)
  obtain B where B: "fs_ok (m_img x) ((T_DIR, ?c) # cs) B" using x(2) cs by (auto simp: mkfs_ok_def)
  then have ok: "img_ok (m_img x) (used_blocks ((T_DIR, ?c) # cs))" by (simp add: fs_ok_def)
  have sb: "m_sb x = mk_superblock" "m_freeblock x = of_nat (used_blocks ((T_DIR, ?c) # cs))" using x(2) cs by (simp_all add: mkfs_ok_def)
  have "file_ok (m_img x) (used_blocks ((T_DIR, ?c) # cs)) 1 (T_DIR, ?c) (B 0)" using B by (auto simp: fs_ok_def)
  then obtain as where a: "inode_at (m_img x) 1 = mk_dinode T_DIR (length ?c) as"
    and h: "held (m_img x) (used_blocks ((T_DIR, ?c) # cs)) as ?c (fst (B 0)) (snd (B 0))" by (auto simp: file_ok_def)
  have sz: "length ?c < 4294967296" using n by (simp add: length_root_dir NINODES_def)
  let ?d = "mk_dinode T_DIR (final_size 0 (length ?c)) as"
  let ?y = "x\<lparr>m_img := set_inode (m_img x) 1 ?d\<rparr>"
  have y: "fix_root 1 x = Ok () ?y" by (rule fix_root_ok [OF ok sb(1) sz a])
  have "length (di_addrs ?d) = NDIRECT + 1" using h file_at_length by (auto simp: held_def mk_dinode_def)
  then have "img_ok (m_img ?y) (used_blocks ((T_DIR, ?c) # cs))" using set_inode(4) [OF ok, of 1 ?d] by simp
  then have z: "mk_balloc (of_nat (used_blocks ((T_DIR, ?c) # cs))) ?y =
      Ok () (?y\<lparr>m_img := (m_img ?y)[45 := mk_bits (used_blocks ((T_DIR, ?c) # cs)) (replicate BSIZE 0)]\<rparr>)"
    by (rule mk_balloc_ok [rotated]) (simp add: sb)
  have "mkfs_main (map (\<lambda>(path, src). (path, Some src)) args) s =
      Ok () (?y\<lparr>m_img := (m_img ?y)[45 := mk_bits (used_blocks ((T_DIR, ?c) # cs)) (replicate BSIZE 0)]\<rparr>)"
    unfolding mkfs_main_def using st x(1) y z sb
    by (simp add: thn_def bnd_def writes_def reads_def ROOTINO_def)
  then show ?thesis using finish [OF B a] unfolding cs by auto
qed

end
