(* ===== verification/Mkfs_Proofs.thy ===== *)
theory Mkfs_Proofs
  imports Mkfs_Image
begin

text \<open>
  What the image of \<^verbatim>\<open>mkfs\<close> holds, read the way the kernel reads a disk: the superblock, an empty log, the
  root directory, the files, and a bitmap in which the blocks in use are marked, each in use once.
\<close>

section \<open>Reading the image back\<close>

text \<open>
  The image is read the way the kernel reads a disk: the superblock is in block 1, and it says where the
  inodes and the bitmap are. An address of zero stands for a block that is not there and reads as zeroes.
\<close>

definition image_sb :: "uchar list list \<Rightarrow> superblock" where
  "image_sb img = dec_superblock (img ! 1)"

definition image_inode :: "uchar list list \<Rightarrow> nat \<Rightarrow> dinode" where
  "image_inode img i = slot (img ! unat (IBLOCK (of_nat i) (image_sb img))) (of_nat i)"

definition image_addr :: "uchar list list \<Rightarrow> dinode \<Rightarrow> nat \<Rightarrow> uint" where
  "image_addr img d k =
     (if k < NDIRECT then di_addrs d ! k
      else if di_addrs d ! NDIRECT = 0 then 0
      else le32 (img ! unat (di_addrs d ! NDIRECT)) (4 * (k - NDIRECT)))"

definition image_block :: "uchar list list \<Rightarrow> uint \<Rightarrow> uchar list" where
  "image_block img a = (if a = 0 then replicate BSIZE 0 else img ! unat a)"

definition image_read :: "uchar list list \<Rightarrow> dinode \<Rightarrow> uchar list" where
  "image_read img d =
     take (unat (di_size d)) (concat (map (\<lambda>k. image_block img (image_addr img d k)) [0..<nblk (unat (di_size d))]))"

definition image_bit :: "uchar list list \<Rightarrow> nat \<Rightarrow> bool" where
  "image_bit img b = bit (img ! unat (BBLOCK (of_nat b) (image_sb img)) ! (b mod BPB div 8)) (b mod 8)"

lemma dec_enc_superblock: "dec_superblock (enc_superblock b @ zs) = b"
proof -
  have a: "le32 (xs @ bytes32 v @ ys) n = v" if "n = length xs" for xs ys v n using le32_at that by simp
  let ?e = "\<lambda>f. bytes32 (f b)"
  note at = a [of 0 "[]" "sb_magic b"] a [of 4 "?e sb_magic" "sb_size b"]
    a [of 8 "?e sb_magic @ ?e sb_size" "sb_nblocks b"]
    a [of 12 "?e sb_magic @ ?e sb_size @ ?e sb_nblocks" "sb_ninodes b"]
    a [of 16 "?e sb_magic @ ?e sb_size @ ?e sb_nblocks @ ?e sb_ninodes" "sb_nlog b"]
    a [of 20 "?e sb_magic @ ?e sb_size @ ?e sb_nblocks @ ?e sb_ninodes @ ?e sb_nlog" "sb_logstart b"]
    a [of 24 "?e sb_magic @ ?e sb_size @ ?e sb_nblocks @ ?e sb_ninodes @ ?e sb_nlog @ ?e sb_logstart" "sb_inodestart b"]
    a [of 28 "?e sb_magic @ ?e sb_size @ ?e sb_nblocks @ ?e sb_ninodes @ ?e sb_nlog @ ?e sb_logstart @ ?e sb_inodestart"
        "sb_bmapstart b"]
  show ?thesis using at by (simp add: dec_superblock_def enc_superblock_def)
qed

lemma image_addr_held:
  assumes h: "held img fb (di_addrs d) c bs ind" and k: "k < MAXFILE"
  shows "image_addr img d k = (if k < length bs then of_nat (bs ! k) else 0)"
proof -
  have f: "file_at img (di_addrs d) c bs ind" using h by (simp add: held_def)
  show ?thesis
  proof (cases "k < NDIRECT")
    case True
    with f show ?thesis by (simp add: image_addr_def file_at_def)
  next
    case False
    have n: "k - NDIRECT < NINDIRECT" using k False unfolding MAXFILE_def by linarith
    show ?thesis
    proof (cases ind)
      case None
      with f False show ?thesis by (simp add: image_addr_def file_at_def)
    next
      case (Some b)
      then have "di_addrs d ! NDIRECT = of_nat b" using f by (simp add: file_at_def)
      moreover have "(of_nat b :: uint) \<noteq> 0" "b < 2000" using held_addr [OF h, of b] Some by simp_all
      moreover have "unat (of_nat b :: uint) = b" using \<open>b < 2000\<close> by (simp add: unat_small)
      ultimately show ?thesis using f n False Some by (simp add: image_addr_def file_at_def)
    qed
  qed
qed

lemma nblk_bounds: "n \<le> nblk n * BSIZE" "n \<le> m * BSIZE \<Longrightarrow> nblk n \<le> m"
proof -
  have e: "n div BSIZE * BSIZE + n mod BSIZE = n" "n mod BSIZE < BSIZE" by (simp_all add: BSIZE_def)
  show "n \<le> nblk n * BSIZE"
    using nblk_cases [of n] e unfolding nblk_def BSIZE_def by simp
  show "nblk n \<le> m" if "n \<le> m * BSIZE"
    using that unfolding nblk_def BSIZE_def by simp
qed

lemma image_read_held:
  assumes h: "held img fb (di_addrs d) c bs ind" and n: "length bs = nblk (length c)"
    and sz: "di_size d = of_nat m" and m: "length c \<le> m" "m \<le> MAXFILE * BSIZE"
  shows "image_read img d = c @ replicate (m - length c) 0"
proof -
  have um: "unat (di_size d) = m" using sz m(2) by (simp add: unat_small layout_defs)
  have nm: "nblk m \<le> MAXFILE" using nblk_bounds(2) m(2) .
  have le: "length bs \<le> nblk m" unfolding n by (rule nblk_mono [OF m(1)])
  have bl: "image_block img (image_addr img d k) = (if k < length bs then img ! (bs ! k) else replicate BSIZE 0)"
    if "k < nblk m" for k
  proof (cases "k < length bs")
    case True
    then have "(of_nat (bs ! k) :: uint) \<noteq> 0" "bs ! k < 2000" using held_addr [OF h, of "bs ! k"] by simp_all
    then have "image_block img (of_nat (bs ! k)) = img ! (bs ! k)" by (simp add: image_block_def unat_small)
    with True show ?thesis using image_addr_held [OF h, of k] that nm by simp
  qed (use image_addr_held [OF h, of k] that nm in \<open>simp add: image_block_def\<close>)
  have "map (\<lambda>k. image_block img (image_addr img d k)) [0..<nblk m] =
      map ((!) img) bs @ replicate (nblk m - length bs) (replicate BSIZE 0)"
    using le by (intro nth_equalityI) (auto simp: bl nth_append)
  then have "concat (map (\<lambda>k. image_block img (image_addr img d k)) [0..<nblk m]) =
      c @ replicate (BSIZE * length bs - length c) 0 @ concat (replicate (nblk m - length bs) (replicate BSIZE 0))"
    using h by (simp add: held_def file_at_def)
  also have "\<dots> = c @ replicate (BSIZE * nblk m - length c) 0"
  proof -
    have c: "concat (replicate j (replicate BSIZE (0 :: uchar))) = replicate (j * BSIZE) 0" for j
      by (induction j) (simp_all add: replicate_add [symmetric])
    have "length c \<le> BSIZE * length bs" using h by (simp add: held_def file_at_def)
    then have "BSIZE * length bs - length c + (nblk m - length bs) * BSIZE = BSIZE * nblk m - length c"
      using le mult_le_mono2 [OF le, of BSIZE] by (simp add: algebra_simps diff_mult_distrib2)
    then show ?thesis unfolding c replicate_add [symmetric] by simp
  qed
  finally show ?thesis using nblk_bounds(1) [of m] m(1) by (simp add: image_read_def um mult.commute min_def)
qed

section \<open>The finished image\<close>

lemma finished_layout:
  assumes f: "finished img cs B"
  shows "image_sb img = mk_superblock" and "i < 208 \<Longrightarrow> image_inode img i = inode_at img i"
    and "b < BPB \<Longrightarrow> image_bit img b \<longleftrightarrow> b < used_blocks cs"
proof -
  show sb: "image_sb img = mk_superblock"
    using f dec_enc_superblock by (simp add: image_sb_def finished_def meta_ok_def)
  show "image_inode img i = inode_at img i" if "i < 208"
  proof -
    have "unat (IBLOCK (of_nat i) mk_superblock) = 32 + i div IPB"
      unfolding IBLOCK_mk [OF that] using inode_block [OF that] by (intro unat_small) simp
    then show ?thesis by (simp add: image_inode_def inode_at_def sb)
  qed
  show "image_bit img b \<longleftrightarrow> b < used_blocks cs" if b: "b < BPB"
  proof -
    have "(of_nat b div of_nat BPB :: uint) = 0"
      using b by (simp add: BPB_def BSIZE_def word_arith_nat_div unat_small)
    then have "unat (BBLOCK (of_nat b) mk_superblock) = 45" by (simp add: BBLOCK_def mk_superblock_def layout_defs)
    moreover have "used_blocks cs \<le> 8 * BSIZE" using f img_okD(4) by (fastforce simp: finished_def BSIZE_def)
    moreover have "b < 8 * BSIZE" using b by (simp add: BPB_def mult.commute)
    ultimately show ?thesis using f b bit_mk_bits [of "used_blocks cs" BSIZE b] by (simp add: image_bit_def sb finished_def)
  qed
qed

lemma final_size_0: "final_size 0 n = n + (BSIZE - n mod BSIZE)"
proof -
  have "n div BSIZE * BSIZE + n mod BSIZE = n" "n mod BSIZE < BSIZE" by (simp_all add: BSIZE_def)
  then have "n div BSIZE * BSIZE + BSIZE = n + (BSIZE - n mod BSIZE)" by linarith
  then show ?thesis by (simp add: final_size_def)
qed

lemma finished_file:
  assumes f: "finished img cs B" and i: "i < length cs" "cs ! i = (ty, c)" "length cs < NINODES"
    and m: "final_size i (length c) \<le> MAXFILE * BSIZE"
  shows "di_type (image_inode img (Suc i)) = ty" and "di_nlink (image_inode img (Suc i)) = 1"
    and "image_read img (image_inode img (Suc i)) = c @ replicate (final_size i (length c) - length c) 0"
    and "k < nblk (length c) \<Longrightarrow> image_addr img (image_inode img (Suc i)) k = of_nat (fst (B i) ! k) \<and>
      k < length (fst (B i)) \<and> fst (B i) ! k \<in> {46..<used_blocks cs}"
    and "distinct (fst (B i))"
proof -
  have n: "length (fst (B i)) = nblk (length c)"
    and ex: "\<exists>as. inode_at img (Suc i) = mk_dinode ty (final_size i (length c)) as \<and>
      held img (used_blocks cs) as c (fst (B i)) (snd (B i))" using f i unfolding finished_def by (metis fst_conv snd_conv)+
  obtain as where a: "inode_at img (Suc i) = mk_dinode ty (final_size i (length c)) as"
    and h: "held img (used_blocks cs) as c (fst (B i)) (snd (B i))" using ex by blast
  have im: "image_inode img (Suc i) = mk_dinode ty (final_size i (length c)) as"
    using finished_layout(2) [OF f, of "Suc i"] a i by (simp add: NINODES_def)
  show "di_type (image_inode img (Suc i)) = ty" "di_nlink (image_inode img (Suc i)) = 1" by (simp_all add: im mk_dinode_def)
  have h': "held img (used_blocks cs) (di_addrs (image_inode img (Suc i))) c (fst (B i)) (snd (B i))"
    using h by (simp add: im mk_dinode_def)
  have s: "di_size (image_inode img (Suc i)) = of_nat (final_size i (length c))" by (simp add: im mk_dinode_def)
  have le: "length c \<le> final_size i (length c)"
    by (simp add: final_size_def BSIZE_def less_imp_le dividend_less_div_times)
  show "image_read img (image_inode img (Suc i)) = c @ replicate (final_size i (length c) - length c) 0"
    by (rule image_read_held [OF h' n s le m])
  show "distinct (fst (B i))" using h by (simp add: held_def)
  show "image_addr img (image_inode img (Suc i)) k = of_nat (fst (B i) ! k) \<and>
      k < length (fst (B i)) \<and> fst (B i) ! k \<in> {46..<used_blocks cs}" if k: "k < nblk (length c)"
  proof -
    have "nblk (length c) \<le> MAXFILE" using le m by (intro nblk_bounds(2)) simp
    then have "k < MAXFILE" using k by simp
    then show ?thesis using image_addr_held [OF h'] held_addr(3,4) [OF h, of "fst (B i) ! k"] k n by simp
  qed
qed

lemma fs_files_fit:
  assumes "\<forall>f\<in>set args. arg_ok f" and "length args + 1 < NINODES" and "i < length (fs_files args)"
  shows "final_size i (length (snd (fs_files args ! i))) \<le> MAXFILE * BSIZE"
proof (cases i)
  case 0
  let ?r = "root_dir (map (file_name \<circ> fst) args)"
  have "length ?r < MAXFILE * BSIZE - BSIZE" using assms(2) by (simp add: length_root_dir layout_defs)
  then show ?thesis using 0 final_size_0 [of "length ?r"] by (simp add: fs_files_def)
next
  case (Suc j)
  then have "arg_ok (args ! j)" using assms(1,3) by (simp add: fs_files_def)
  then show ?thesis using Suc assms(3) by (simp add: fs_files_def final_size_def arg_ok_def split_beta)
qed

text \<open>
  C2: The image of \<^verbatim>\<open>mkfs\<close>. For arguments that can be read, have names that fit a directory entry and contents
  that fit a file, and that together fit the disk and the inode table, the program ends, and the kernel finds
  in the image the superblock, a log of zero blocks, the root directory with its two links and one entry for every
  argument, each argument's contents in the file of its inode, also across the indirect block, and every other inode
  free. The bitmap marks the blocks in use and no others.
\<close>

theorem mkfs_image:
  assumes "m_img s = []" and "\<forall>f\<in>set args. arg_ok f" and "length args + 1 < NINODES"
    and "used_blocks (fs_files args) \<le> FSSIZE"
  shows "\<exists>s'. mkfs_main (map (\<lambda>(path, src). (path, Some src)) args) s = Ok () s' \<and>
    (let img = m_img s'; root = root_dir (map (file_name \<circ> fst) args) in
     length img = FSSIZE \<and> image_sb img = mk_superblock \<and>
     (\<forall>b. 2 \<le> b \<longrightarrow> b < 2 + nlog \<longrightarrow> img ! b = replicate BSIZE 0) \<and>
     di_type (image_inode img 1) = T_DIR \<and>
     image_read img (image_inode img 1) = root @ replicate (BSIZE - length root mod BSIZE) 0 \<and>
     (\<forall>i<length args. di_type (image_inode img (i + 2)) = T_FILE \<and> di_nlink (image_inode img (i + 2)) = 1 \<and>
        image_read img (image_inode img (i + 2)) = concat (map the (snd (args ! i)))) \<and>
     (\<forall>i. length args + 2 \<le> i \<longrightarrow> i < NINODES \<longrightarrow> di_type (image_inode img i) = 0) \<and>
     (\<forall>b<BPB. image_bit img b \<longleftrightarrow> b < used_blocks (fs_files args)))"
proof -
  let ?cs = "fs_files args" and ?r = "root_dir (map (file_name \<circ> fst) args)"
  obtain s' B where m: "mkfs_main (map (\<lambda>(path, src). (path, Some src)) args) s = Ok () s'"
    and f: "finished (m_img s') ?cs B"
    using mkfs_main_ok [OF assms(1-3)] assms(4) by (auto simp: FSSIZE_def)
  have n: "length ?cs < NINODES" "length ?cs = length args + 1" using assms(3) by (simp_all add: fs_files_def)
  have fs: "final_size 0 (length ?r) = length ?r + (BSIZE - length ?r mod BSIZE)"
    by (rule final_size_0)
  have root: "0 < length ?cs" "?cs ! 0 = (T_DIR, ?r)" "final_size 0 (length ?r) \<le> MAXFILE * BSIZE"
    using fs_files_fit [OF assms(2,3), of 0] by (simp_all add: fs_files_def)
  have files: "Suc i < length ?cs" "?cs ! Suc i = (T_FILE, concat (map the (snd (args ! i))))"
    "final_size (Suc i) (length (concat (map the (snd (args ! i))))) \<le> MAXFILE * BSIZE" if "i < length args" for i
    using that fs_files_fit [OF assms(2,3), of "Suc i"] by (simp_all add: fs_files_def split_beta)
  note rt = finished_file [OF f root(1,2) n(1) root(3)]
  have "di_type (image_inode (m_img s') (i + 2)) = T_FILE \<and> di_nlink (image_inode (m_img s') (i + 2)) = 1 \<and>
      image_read (m_img s') (image_inode (m_img s') (i + 2)) = concat (map the (snd (args ! i)))" if i: "i < length args" for i
    using finished_file(1-3) [OF f files(1,2) [OF i] n(1) files(3) [OF i]] by (simp add: final_size_def)
  moreover have "di_type (image_inode (m_img s') i) = 0" if "length args + 2 \<le> i" "i < NINODES" for i
    using f n(2) that finished_layout(2) [OF f, of i] by (simp add: finished_def meta_ok_def NINODES_def)
  moreover have "\<forall>b. 2 \<le> b \<longrightarrow> b < 2 + nlog \<longrightarrow> m_img s' ! b = replicate BSIZE 0" "length (m_img s') = FSSIZE"
    using f by (simp_all add: finished_def meta_ok_def img_ok_def layout_defs)
  ultimately show ?thesis
    using m rt(1,3) fs finished_layout(1,3) [OF f] by (intro exI [of _ s']) (simp add: Let_def)
qed

text \<open>The files of the witness: a small one, and one that needs the indirect block.\<close>

definition sample_args :: "(uchar list \<times> source) list" where
  "sample_args = [(map of_char ''user/_cat'', [Some [1, 2, 3], Some [4]]), (map of_char ''README'', [Some (replicate 14000 7)])]"

definition mkfs_init :: mkfs where
  "mkfs_init = \<lparr>m_img = [], m_sb = mk_superblock, m_freeinode = 1, m_freeblock = 0\<rparr>"

lemma sample_ok: "\<forall>f\<in>set sample_args. arg_ok f" "used_blocks (fs_files sample_args) = 63"
proof -
  show "\<forall>f\<in>set sample_args. arg_ok f"
    by (simp add: sample_args_def arg_ok_def file_name_def shortname_def of_char_def DIRSIZ_def layout_defs)
  show "used_blocks (fs_files sample_args) = 63"
    by (simp add: sample_args_def fs_files_def used_blocks_def length_root_dir need_def nblk_def layout_defs)
qed

theorem mkfs_image_witness:
  "\<exists>s'. mkfs_main (map (\<lambda>(path, src). (path, Some src)) sample_args) mkfs_init = Ok () s' \<and>
     image_read (m_img s') (image_inode (m_img s') 2) = [1, 2, 3, 4] \<and>
     image_read (m_img s') (image_inode (m_img s') 3) = replicate 14000 7 \<and>
     image_bit (m_img s') 62 \<and> \<not> image_bit (m_img s') 63"
proof -
  have "length sample_args = 2" "concat (map the (snd (sample_args ! 0))) = [1, 2, 3, 4]"
    "concat (map the (snd (sample_args ! 1))) = replicate 14000 7" by (simp_all add: sample_args_def)
  note s = this
  have lt: "0 < length sample_args" "1 < length sample_args" "(1 :: nat) + 2 = 3" using s(1) by simp_all
  have "m_img mkfs_init = []" "length sample_args + 1 < NINODES" "used_blocks (fs_files sample_args) \<le> FSSIZE"
    using sample_ok s by (simp_all add: mkfs_init_def layout_defs)
  then obtain s' where "mkfs_main (map (\<lambda>(path, src). (path, Some src)) sample_args) mkfs_init = Ok () s'"
    and r: "\<forall>i<length sample_args. image_read (m_img s') (image_inode (m_img s') (i + 2)) = concat (map the (snd (sample_args ! i)))"
    and b: "\<forall>b<BPB. image_bit (m_img s') b \<longleftrightarrow> b < used_blocks (fs_files sample_args)"
    using mkfs_image [of mkfs_init sample_args] sample_ok(1) unfolding Let_def by blast
  moreover have "image_read (m_img s') (image_inode (m_img s') 2) = [1, 2, 3, 4]"
    using r [rule_format, OF lt(1)] by (simp only: s(2) add_0)
  moreover have "image_read (m_img s') (image_inode (m_img s') 3) = replicate 14000 7"
    using r [rule_format, OF lt(2)] by (simp only: s(3) lt(3))
  moreover have "image_bit (m_img s') 62 \<and> \<not> image_bit (m_img s') 63"
    using b sample_ok(2) by (simp add: layout_defs)
  ultimately show ?thesis by blast
qed

text \<open>
  C13: No block has two uses in the image of \<^verbatim>\<open>mkfs\<close>: every data block of the root directory and of a file lies in
  the data area and is marked in the bitmap, and two different places in files never share a block.
\<close>

theorem mkfs_no_sharing:
  assumes "m_img s = []" and "\<forall>f\<in>set args. arg_ok f" and "length args + 1 < NINODES"
    and "used_blocks (fs_files args) \<le> FSSIZE"
  shows "\<exists>s'. mkfs_main (map (\<lambda>(path, src). (path, Some src)) args) s = Ok () s' \<and>
    (let addr = \<lambda>i k. image_addr (m_img s') (image_inode (m_img s') (i + 1)) k;
         place = \<lambda>i k. i < length (fs_files args) \<and> k < nblk (length (snd (fs_files args ! i))) in
     (\<forall>i k. place i k \<longrightarrow> nmeta \<le> unat (addr i k) \<and> image_bit (m_img s') (unat (addr i k))) \<and>
     (\<forall>i k j l. place i k \<longrightarrow> place j l \<longrightarrow> addr i k = addr j l \<longrightarrow> i = j \<and> k = l))"
proof -
  let ?cs = "fs_files args"
  obtain s' B where m: "mkfs_main (map (\<lambda>(path, src). (path, Some src)) args) s = Ok () s'"
    and f: "finished (m_img s') ?cs B"
    using mkfs_main_ok [OF assms(1-3)] assms(4) by (auto simp: FSSIZE_def)
  let ?a = "\<lambda>i k. image_addr (m_img s') (image_inode (m_img s') (i + 1)) k"
  have n: "length ?cs < NINODES" using assms(3) by (simp add: fs_files_def)
  have u: "used_blocks ?cs \<le> 2000" using assms(4) by (simp add: FSSIZE_def)
  have at: "unat (?a i k) = fst (B i) ! k" "k < length (fst (B i))" "fst (B i) ! k \<in> {46..<used_blocks ?cs}"
    "distinct (fst (B i))" if "i < length ?cs" "k < nblk (length (snd (?cs ! i)))" for i k
  proof -
    note ff = finished_file(4,5) [OF f that(1) prod.collapse [symmetric] n fs_files_fit [OF assms(2,3) that(1)]]
    show "k < length (fst (B i))" "fst (B i) ! k \<in> {46..<used_blocks ?cs}" "distinct (fst (B i))"
      using ff that(2) by simp_all
    then have "unat (of_nat (fst (B i) ! k) :: uint) = fst (B i) ! k" using u by (intro unat_small) simp
    then show "unat (?a i k) = fst (B i) ! k" using ff(1) that(2) by simp
  qed
  have bit: "image_bit (m_img s') b" if "b < used_blocks ?cs" for b
    using finished_layout(3) [OF f, of b] that u by (simp add: BPB_def BSIZE_def)
  have "i = j \<and> k = l" if i: "i < length ?cs" "k < nblk (length (snd (?cs ! i)))"
    and j: "j < length ?cs" "l < nblk (length (snd (?cs ! j)))" and e: "?a i k = ?a j l" for i k j l
  proof -
    have same: "fst (B i) ! k = fst (B j) ! l" using at(1) [OF i] at(1) [OF j] e by simp
    then have "\<not> blocks (B i) \<inter> blocks (B j) = {}" using nth_mem [OF at(2) [OF i]] nth_mem [OF at(2) [OF j]] by auto
    then have "i = j" using f i(1) j(1) unfolding finished_def by blast
    then show ?thesis using same at(2,4) [OF i] at(2) [OF j] by (simp add: nth_eq_iff_index_eq)
  qed
  moreover have "nmeta \<le> unat (?a i k) \<and> image_bit (m_img s') (unat (?a i k))"
    if "i < length ?cs" "k < nblk (length (snd (?cs ! i)))" for i k
    using at(1,3) [OF that] bit by (simp add: nmeta_eq)
  ultimately show ?thesis using m unfolding Let_def by blast
qed

theorem mkfs_no_sharing_witness:
  "\<exists>s'. mkfs_main (map (\<lambda>(path, src). (path, Some src)) sample_args) mkfs_init = Ok () s' \<and>
     image_addr (m_img s') (image_inode (m_img s') 2) 0 \<noteq> image_addr (m_img s') (image_inode (m_img s') 3) 13"
proof -
  let ?cs = "fs_files sample_args"
  have p: "1 < length ?cs" "2 < length ?cs" "0 < nblk (length (snd (?cs ! 1)))" "13 < nblk (length (snd (?cs ! 2)))"
    by (simp_all add: sample_args_def fs_files_def nblk_def BSIZE_def)
  have "m_img mkfs_init = []" "length sample_args + 1 < NINODES" "used_blocks ?cs \<le> FSSIZE"
    using sample_ok by (simp_all add: mkfs_init_def layout_defs sample_args_def)
  then obtain s' where "mkfs_main (map (\<lambda>(path, src). (path, Some src)) sample_args) mkfs_init = Ok () s'"
    and r: "\<forall>i k j l. i < length ?cs \<and> k < nblk (length (snd (?cs ! i))) \<longrightarrow> j < length ?cs \<and> l < nblk (length (snd (?cs ! j))) \<longrightarrow>
      image_addr (m_img s') (image_inode (m_img s') (i + 1)) k = image_addr (m_img s') (image_inode (m_img s') (j + 1)) l \<longrightarrow>
      i = j \<and> k = l"
    using mkfs_no_sharing [of mkfs_init sample_args] sample_ok(1) unfolding Let_def by blast
  moreover have "image_addr (m_img s') (image_inode (m_img s') (1 + 1)) 0 \<noteq>
      image_addr (m_img s') (image_inode (m_img s') (2 + 1)) 13"
    using r p by (metis zero_neq_numeral)
  moreover have "(1 :: nat) + 1 = 2" "(2 :: nat) + 1 = 3" by simp_all
  ultimately show ?thesis by metis
qed

end
