(* ===== verification/Sh.thy ===== *)
theory Sh
  imports UPrintf Kernel
begin

text \<open>
  \<^verbatim>\<open>user/sh.c\<close>: the command parser, \<^verbatim>\<open>nulterminate\<close> and \<^verbatim>\<open>runcmd\<close>. The line is the list of its bytes, whose
  terminating NUL is behind the last; a pointer into it is an offset. A \<^verbatim>\<open>struct cmd\<close> is a datatype whose
  parameter is the type of the strings in it: the pair of offsets \<^verbatim>\<open>(q, eq)\<close> while the line is being
  parsed. Memory for the commands is taken to be available.
\<close>

section \<open>Commands\<close>

datatype 't cmd =
    EXEC "'t list"
  | REDIR "'t cmd" 't uint int
  | PIPE "'t cmd" "'t cmd"
  | LIST "'t cmd" "'t cmd"
  | BACK "'t cmd"

definition MAXARGS :: nat where "MAXARGS = 10"

text \<open>
  The parser returns, calls \<^verbatim>\<open>panic\<close>, which exits, does so after printing the leftovers of the line, or
  needs more nested calls than allowed.
\<close>

datatype 'a parsed = Parsed 'a | Failed string | Leftovers "uchar list" | Deeper

fun pbind :: "'a parsed \<Rightarrow> ('a \<Rightarrow> 'b parsed) \<Rightarrow> 'b parsed" where
  "pbind (Parsed x) f = f x"
| "pbind (Failed m) f = Failed m"
| "pbind (Leftovers r) f = Leftovers r"
| "pbind Deeper f = Deeper"

section \<open>Tokens\<close>

definition whitespace :: "uchar list" where
  "whitespace = [32, 9, 13, 10, 11]"

definition symbols :: "uchar list" where
  "symbols = map of_char ''<|>&;()''"

function skip :: "(uchar \<Rightarrow> bool) \<Rightarrow> uchar list \<Rightarrow> nat \<Rightarrow> nat" where
  "skip P buf s = (if s < length buf \<and> P (buf ! s) then skip P buf (s + 1) else s)"
  by pat_completeness auto
termination
  by (relation "measure (\<lambda>(P, buf, s). length buf - s)") auto

declare skip.simps [simp del]

abbreviation skip_white :: "uchar list \<Rightarrow> nat \<Rightarrow> nat" where
  "skip_white \<equiv> skip (\<lambda>c. c \<in> set whitespace)"

text \<open>
  \<open>gettoken buf s\<close>: the token (its character, \<^verbatim>\<open>+\<close> for \<open>>>\<close>, \<^verbatim>\<open>a\<close> for a word, 0 at the end), where it
  begins and ends, and the offset behind the white space that follows it.
\<close>

definition gettoken :: "uchar list \<Rightarrow> nat \<Rightarrow> uchar \<times> (nat \<times> nat) \<times> nat" where
  "gettoken buf s =
     (let q = skip_white buf s; c = byte_at buf q;
          (tok, eq) =
            (if c = 0 then (c, q)
             else if c \<in> set (map of_char ''|();&<'') then (c, q + 1)
             else if c = of_char CHR ''>'' then
               (if byte_at buf (q + 1) = of_char CHR ''>'' then (of_char CHR ''+'', q + 2) else (c, q + 1))
             else (of_char CHR ''a'', skip (\<lambda>c. c \<notin> set whitespace \<and> c \<notin> set symbols) buf q))
      in (tok, (q, eq), skip_white buf eq))"

definition peek :: "uchar list \<Rightarrow> nat \<Rightarrow> string \<Rightarrow> bool \<times> nat" where
  "peek buf s toks =
     (let s = skip_white buf s in
      (byte_at buf s \<noteq> 0 \<and> byte_at buf s \<in> set (map of_char toks), s))"

lemma skip_ge: "s \<le> skip P buf s"
proof (induction P buf s rule: skip.induct)
  case (1 P buf s)
  then show ?case by (auto simp: skip.simps [of P buf s])
qed

lemma skip_le: "s \<le> length buf \<Longrightarrow> skip P buf s \<le> length buf"
proof (induction P buf s rule: skip.induct)
  case (1 P buf s)
  then show ?case by (simp add: skip.simps [of P buf s])
qed

lemma byte_at_length: "byte_at buf s \<noteq> 0 \<Longrightarrow> s < length buf"
  by (auto simp: byte_at_def split: if_splits)

lemma gettoken_ge: "gettoken buf s = (tok, (q, eq), s') \<Longrightarrow> s \<le> q \<and> q \<le> eq \<and> eq \<le> s'"
  by (auto simp: gettoken_def Let_def skip_ge split: if_splits)

lemma skip_stop: "\<not> (s < length buf \<and> P (buf ! s)) \<Longrightarrow> skip P buf s = s"
  by (auto simp: skip.simps [of P buf s])

lemma skip_stops: "skip P buf s < length buf \<Longrightarrow> \<not> P (buf ! skip P buf s)"
proof (induction P buf s rule: skip.induct)
  case (1 P buf s)
  show ?case
  proof (cases "s < length buf \<and> P (buf ! s)")
    case True
    with 1 show ?thesis by (simp add: skip.simps [of P buf s])
  next
    case False
    with 1 show ?thesis by (simp add: skip_stop)
  qed
qed

lemma peek_True:
  assumes "peek buf s toks = (True, s')"
  shows "s \<le> s'" and "s' < length buf" and "skip_white buf s' = s'" and "byte_at buf s' \<noteq> 0"
    and "byte_at buf s' \<in> set (map of_char toks)"
proof -
  have s': "s' = skip_white buf s" "byte_at buf s' \<noteq> 0" "byte_at buf s' \<in> set (map of_char toks)"
    using assms by (auto simp: peek_def Let_def)
  then show "s \<le> s'" "byte_at buf s' \<noteq> 0" "byte_at buf s' \<in> set (map of_char toks)"
    by (simp_all add: skip_ge)
  from s'(2) show "s' < length buf" by (rule byte_at_length)
  with s'(1) show "skip_white buf s' = s'" using skip_stops [of _ buf s] by (intro skip_stop) auto
qed

text \<open>A token that \<^verbatim>\<open>peek\<close> has announced moves the parser on.\<close>

lemma symbol_cases:
  "c \<in> set symbols \<Longrightarrow> c \<noteq> 0 \<and> (c \<in> set (map of_char ''|();&<'') \<or> c = of_char CHR ''>'')"
  by (auto simp: symbols_def of_char_def)

lemma peek_gettoken:
  assumes "peek buf s toks = (True, s')" and "gettoken buf s' = (tok, te, s'')"
    and "set (map of_char toks) \<subseteq> set symbols"
  shows "s < s''" and "s' < s''"
proof -
  note p = peek_True [OF assms(1)]
  have "byte_at buf s' \<in> set symbols" using p(5) assms(3) by blast
  then have "s'' = skip_white buf (s' + 1) \<or> s'' = skip_white buf (s' + 2)"
    using symbol_cases assms(2) by (auto simp: gettoken_def Let_def p(3) split: if_splits)
  then show "s' < s''" using skip_ge [of "s' + 1" "\<lambda>c. c \<in> set whitespace" buf]
      skip_ge [of "s' + 2" "\<lambda>c. c \<in> set whitespace" buf] by auto
  with p(1) show "s < s''" by simp
qed

lemma peek_measure:
  assumes "(True, s1) = peek buf s toks" and "(tok, te, s2) = gettoken buf s1"
    and "set (map of_char toks) \<subseteq> set symbols" and "s2 \<le> s3"
  shows "Suc (length buf) - s3 < Suc (length buf) - s"
  using peek_gettoken [of buf s toks s1 tok te s2] peek_True(1,2) [of buf s toks s1] assms by simp

lemma gettoken_rest: "(tok, te, s') = gettoken buf s \<Longrightarrow> s \<le> s'"
  using gettoken_ge [of buf s tok "fst te" "snd te" s'] by simp

section \<open>The parser\<close>

text \<open>The redirections wrap the command; \<open>O_WRONLY | O_CREATE\<close> does not move to the end of the file.\<close>

definition redir :: "uchar \<Rightarrow> 't \<Rightarrow> 't cmd \<Rightarrow> 't cmd" where
  "redir tok t c =
     (if tok = of_char CHR ''<'' then REDIR c t O_RDONLY 0
      else if tok = of_char CHR ''>'' then REDIR c t (O_WRONLY OR O_CREATE OR O_TRUNC) 1
      else if tok = of_char CHR ''+'' then REDIR c t (O_WRONLY OR O_CREATE) 1
      else c)"

function parseredirs :: "(nat \<times> nat) cmd \<Rightarrow> uchar list \<Rightarrow> nat \<Rightarrow> ((nat \<times> nat) cmd \<times> nat) parsed" where
  "parseredirs c buf s =
     (case peek buf s ''<>'' of
        (False, s) \<Rightarrow> Parsed (c, s)
      | (True, s) \<Rightarrow>
          (case gettoken buf s of (tok, _, s) \<Rightarrow>
           case gettoken buf s of (w, te, s) \<Rightarrow>
             if w \<noteq> of_char CHR ''a'' then Failed ''missing file for redirection''
             else parseredirs (redir tok te c) buf s))"
  by pat_completeness auto
termination
  by (relation "measure (\<lambda>(c, buf, s). Suc (length buf) - s)")
    (auto simp: symbols_def intro!: peek_measure [where toks = "''<>''"] gettoken_rest)

declare parseredirs.simps [simp del]

text \<open>\<^verbatim>\<open>parseexec\<close> keeps a pointer to the \<^verbatim>\<open>execcmd\<close> inside the redirections and stores the words there.\<close>

fun add_arg :: "'t \<Rightarrow> 't cmd \<Rightarrow> 't cmd" where
  "add_arg t (EXEC as) = EXEC (as @ [t])"
| "add_arg t (REDIR c f m fd) = REDIR (add_arg t c) f m fd"
| "add_arg t c = c"

function parseargs :: "nat \<Rightarrow> (nat \<times> nat) cmd \<Rightarrow> uchar list \<Rightarrow> nat \<Rightarrow> ((nat \<times> nat) cmd \<times> nat) parsed" where
  "parseargs argc c buf s =
     (case peek buf s ''|)&;'' of
        (True, s) \<Rightarrow> Parsed (c, s)
      | (False, s) \<Rightarrow>
          (case gettoken buf s of (tok, te, s) \<Rightarrow>
             if tok = 0 then Parsed (c, s)
             else if tok \<noteq> of_char CHR ''a'' then Failed ''syntax''
             else if MAXARGS \<le> argc + 1 then Failed ''too many args''
             else pbind (parseredirs (add_arg te c) buf s) (\<lambda>(c, s). parseargs (argc + 1) c buf s)))"
  by pat_completeness auto
termination
  by (relation "measure (\<lambda>(argc, c, buf, s). MAXARGS - argc)") auto

declare parseargs.simps [simp del]

function parseback :: "(nat \<times> nat) cmd \<Rightarrow> uchar list \<Rightarrow> nat \<Rightarrow> (nat \<times> nat) cmd \<times> nat" where
  "parseback c buf s =
     (case peek buf s ''&'' of
        (False, s) \<Rightarrow> (c, s)
      | (True, s) \<Rightarrow> (case gettoken buf s of (_, _, s) \<Rightarrow> parseback (BACK c) buf s))"
  by pat_completeness auto
termination
  by (relation "measure (\<lambda>(c, buf, s). Suc (length buf) - s)")
    (auto simp: symbols_def intro!: peek_measure [where toks = "''&''"])

declare parseback.simps [simp del]

text \<open>The first argument bounds the depth of the recursion.\<close>

fun parseline :: "nat \<Rightarrow> uchar list \<Rightarrow> nat \<Rightarrow> ((nat \<times> nat) cmd \<times> nat) parsed"
  and parsepipe :: "nat \<Rightarrow> uchar list \<Rightarrow> nat \<Rightarrow> ((nat \<times> nat) cmd \<times> nat) parsed"
  and parseexec :: "nat \<Rightarrow> uchar list \<Rightarrow> nat \<Rightarrow> ((nat \<times> nat) cmd \<times> nat) parsed"
  and parseblock :: "nat \<Rightarrow> uchar list \<Rightarrow> nat \<Rightarrow> ((nat \<times> nat) cmd \<times> nat) parsed" where
  "parseline 0 buf s = Deeper"
| "parseline (Suc n) buf s =
     pbind (parsepipe n buf s) (\<lambda>(c, s).
     case parseback c buf s of (c, s) \<Rightarrow>
     case peek buf s '';'' of
       (False, s) \<Rightarrow> Parsed (c, s)
     | (True, s) \<Rightarrow>
         (case gettoken buf s of (_, _, s) \<Rightarrow>
          pbind (parseline n buf s) (\<lambda>(c', s). Parsed (LIST c c', s))))"
| "parsepipe 0 buf s = Deeper"
| "parsepipe (Suc n) buf s =
     pbind (parseexec n buf s) (\<lambda>(c, s).
     case peek buf s ''|'' of
       (False, s) \<Rightarrow> Parsed (c, s)
     | (True, s) \<Rightarrow>
         (case gettoken buf s of (_, _, s) \<Rightarrow>
          pbind (parsepipe n buf s) (\<lambda>(c', s). Parsed (PIPE c c', s))))"
| "parseexec 0 buf s = Deeper"
| "parseexec (Suc n) buf s =
     (case peek buf s ''('' of
        (True, s) \<Rightarrow> parseblock n buf s
      | (False, s) \<Rightarrow>
          pbind (parseredirs (EXEC []) buf s) (\<lambda>(c, s). parseargs 0 c buf s))"
| "parseblock 0 buf s = Deeper"
| "parseblock (Suc n) buf s =
     (case peek buf s ''('' of
        (False, s) \<Rightarrow> Failed ''parseblock''
      | (True, s) \<Rightarrow>
          (case gettoken buf s of (_, _, s) \<Rightarrow>
           pbind (parseline n buf s) (\<lambda>(c, s).
           case peek buf s '')'' of
             (False, s) \<Rightarrow> Failed ''syntax - missing )''
           | (True, s) \<Rightarrow> (case gettoken buf s of (_, _, s) \<Rightarrow> parseredirs c buf s))))"

text \<open>\<open>nulterminate\<close> ends every string with a NUL, in the line itself.\<close>

fun nulterminate :: "(nat \<times> nat) cmd \<Rightarrow> uchar list \<Rightarrow> uchar list" where
  "nulterminate (EXEC as) buf = fold (\<lambda>t buf. buf[snd t := 0]) as buf"
| "nulterminate (REDIR c t m fd) buf = (nulterminate c buf)[snd t := 0]"
| "nulterminate (PIPE l r) buf = nulterminate r (nulterminate l buf)"
| "nulterminate (LIST l r) buf = nulterminate r (nulterminate l buf)"
| "nulterminate (BACK c) buf = nulterminate c buf"

text \<open>
  \<^verbatim>\<open>parsecmd\<close> on the line with its NUL. At most four calls are nested before one takes a character,
  so four for each character and four more are enough.
\<close>

definition parse_fuel :: "uchar list \<Rightarrow> nat" where
  "parse_fuel buf = 4 * length buf + 4"

definition parsecmd :: "uchar list \<Rightarrow> ((nat \<times> nat) cmd \<times> uchar list) parsed" where
  "parsecmd buf =
     pbind (parseline (parse_fuel buf) buf 0) (\<lambda>(c, s).
     case peek buf s [] of (_, s) \<Rightarrow>
     if s \<noteq> length buf then Leftovers (drop s buf) else Parsed (c, nulterminate c (cstring buf)))"

section \<open>Running a command\<close>

text \<open>
  A process as the system calls it makes: each constructor is a call, with what follows it as a function
  of the result where the program looks at the result. \<open>UFork\<close> holds the child and the parent.
\<close>

datatype uproc =
    UExit int
  | UClose int uproc
  | UDup int uproc
  | UWait uproc
  | UWrite int "uchar list" uproc
  | UOpen "uchar list" uint "int \<Rightarrow> uproc"
  | UChdir "uchar list" "int \<Rightarrow> uproc"
  | UPipe "int \<Rightarrow> int \<times> int \<Rightarrow> uproc"
  | UExec "uchar list" "uchar list list" uproc
  | UFork uproc "int \<Rightarrow> uproc"

definition UPrint :: "int \<Rightarrow> string \<Rightarrow> varg list \<Rightarrow> uproc \<Rightarrow> uproc" where
  "UPrint fd fmt as k = (case u_fprintf fd fmt as of None \<Rightarrow> k | Some (fd, out) \<Rightarrow> UWrite fd out k)"

definition sh_panic :: "string \<Rightarrow> uproc" where
  "sh_panic m = UPrint 2 (''%s'' @ [CHR 0x0A]) [VStr (Some (cstring (map of_char m)))] (UExit 1)"

definition fork1 :: "uproc \<Rightarrow> uproc \<Rightarrow> uproc" where
  "fork1 child parent = UFork child (\<lambda>pid. if pid = -1 then sh_panic ''fork'' else parent)"

primrec runcmd :: "uchar list cmd \<Rightarrow> uproc" where
  "runcmd (EXEC argv) =
     (case argv of
        [] \<Rightarrow> UExit 1
      | a # _ \<Rightarrow> UExec a argv (UPrint 2 (''exec %s failed'' @ [CHR 0x0A]) [VStr (Some (cstring a))] (UExit 0)))"
| "runcmd (REDIR c file mode fd) =
     UClose fd (UOpen file mode (\<lambda>r.
       if r < 0 then UPrint 2 (''open %s failed'' @ [CHR 0x0A]) [VStr (Some (cstring file))] (UExit 1)
       else runcmd c))"
| "runcmd (LIST l r) = fork1 (runcmd l) (UWait (runcmd r))"
| "runcmd (PIPE l r) =
     UPipe (\<lambda>res p.
       if res < 0 then sh_panic ''pipe''
       else
         fork1 (UClose 1 (UDup (snd p) (UClose (fst p) (UClose (snd p) (runcmd l)))))
           (fork1 (UClose 0 (UDup (fst p) (UClose (fst p) (UClose (snd p) (runcmd r)))))
             (UClose (fst p) (UClose (snd p) (UWait (UWait (UExit 0)))))))"
| "runcmd (BACK c) = fork1 (runcmd c) (UExit 0)"

text \<open>The string that starts at an offset of the line after \<^verbatim>\<open>nulterminate\<close>.\<close>

definition str_at :: "uchar list \<Rightarrow> nat \<times> nat \<Rightarrow> uchar list" where
  "str_at buf t = takeWhile ((\<noteq>) 0) (drop (fst t) buf)"

text \<open>What the child does with the line.\<close>

definition run_line :: "uchar list \<Rightarrow> uproc" where
  "run_line buf =
     (case parsecmd buf of
        Parsed (c, buf') \<Rightarrow> runcmd (map_cmd (str_at buf') c)
      | Failed m \<Rightarrow> sh_panic m
      | Leftovers r \<Rightarrow> UPrint 2 (''leftovers: %s'' @ [CHR 0x0A]) [VStr (Some (cstring r))] (sh_panic ''syntax'')
      | Deeper \<Rightarrow> sh_panic ''recursion'')"

definition getcmd :: "source \<Rightarrow> uchar list option \<times> source" where
  "getcmd cs =
     (case u_gets 100 cs of (buf, cs') \<Rightarrow>
        let line = takeWhile ((\<noteq>) 0) buf in (if line = [] then None else Some line, cs'))"

text \<open>The descriptors 0, 1 and 2 can each be opened once, so the fourth round is the last.\<close>

primrec open_console :: "nat \<Rightarrow> uproc \<Rightarrow> uproc" where
  "open_console 0 k = k"
| "open_console (Suc n) k =
     UOpen (map of_char ''console'') O_RDWR (\<lambda>fd.
       if fd < 0 then k else if 3 \<le> fd then UClose fd k else open_console n k)"

lemma gets_loop_pending:
  "gets_loop lim buf cs = (buf', cs') \<Longrightarrow> pending cs' \<le> pending cs \<and> (buf' \<noteq> buf \<longrightarrow> pending cs' < pending cs)"
proof (induction lim buf cs rule: gets_loop.induct)
  case (1 lim buf cs)
  have le: "pending (snd (uread 1 cs)) \<le> pending cs"
    by (cases "(1 :: nat, cs)" rule: uread.cases) auto
  show ?case
  proof (cases "length buf + 1 < lim \<and> (\<exists>c ds. uread 1 cs = (Some [c], ds))")
    case True
    then obtain c ds where c: "uread 1 cs = (Some [c], ds)" by blast
    then have "pending ds < pending cs" using uread_pending [of 1 cs "[c]" ds] by simp
    moreover have "pending cs' \<le> pending ds" if "gets_loop lim (buf @ [c]) ds = (buf', cs')" "c \<noteq> 10" "c \<noteq> 13"
      using 1 True c that by auto
    ultimately have "pending cs' < pending cs"
      using "1.prems" True c by (auto simp: gets_loop.simps [of lim buf cs] split: if_splits)
    then show ?thesis by simp
  next
    case False
    with "1.prems" le show ?thesis
      by (auto simp: gets_loop.simps [of lim buf cs] split: if_splits prod.splits option.splits list.splits)
  qed
qed

lemma getcmd_pending: "getcmd cs = (Some buf, cs') \<Longrightarrow> pending cs' < pending cs"
  using gets_loop_pending [of 100 "[]" cs]
  by (auto simp: getcmd_def u_gets_def Let_def split: prod.splits if_splits)

function sh_loop :: "source \<Rightarrow> uproc" where
  "sh_loop cs =
     UWrite 2 [36, 32]
       (case getcmd cs of
          (None, _) \<Rightarrow> UExit 0
        | (Some buf, cs') \<Rightarrow>
            if take 3 buf = map of_char ''cd '' then
              let dir = drop 3 (butlast buf) in
              UChdir dir (\<lambda>r. if r < 0
                then UPrint 2 (''cannot cd %s'' @ [CHR 0x0A]) [VStr (Some (cstring dir))] (sh_loop cs')
                else sh_loop cs')
            else fork1 (run_line buf) (UWait (sh_loop cs')))"
  by pat_completeness auto
termination
  by (relation "measure pending") (auto dest!: sym [of _ "getcmd _"] getcmd_pending)

declare sh_loop.simps [simp del]

definition sh_main :: "source \<Rightarrow> uproc" where
  "sh_main cs = open_console 4 (sh_loop cs)"

end
