(* ===== verification/Sh_Round.thy ===== *)
theory Sh_Round
  imports Sh_Proofs
begin

text \<open>
  The shell's parser and the grammar of the shell: what the grammar writes down, the parser reads back.
\<close>

section \<open>The grammar\<close>

text \<open>
  Every token carries the white space that follows it. A redirection is its token (\<^verbatim>\<open>+\<close> for \<open>>>\<close>) and a
  file name. A line is a pipeline, the \<^verbatim>\<open>&\<close> behind it, and the rest of the line after a \<^verbatim>\<open>;\<close>.
\<close>

type_synonym space = "uchar list"

datatype aredir = ARedir uchar space "uchar list" space

datatype aword = AWord "uchar list" space "aredir list"

datatype aline = ALine apipe "space list" "(space \<times> aline) option"
  and apipe = APipe aexec "(space \<times> apipe) option"
  and aexec = ABlock space aline space "aredir list" | AWords "aredir list" "aword list"

primrec show_redir :: "aredir \<Rightarrow> uchar list" where
  "show_redir (ARedir k sp w sp') = (if k = 43 then [62, 62] else [k]) @ sp @ w @ sp'"

abbreviation show_redirs :: "aredir list \<Rightarrow> uchar list" where
  "show_redirs rs \<equiv> concat (map show_redir rs)"

primrec show_word :: "aword \<Rightarrow> uchar list" where
  "show_word (AWord w sp rs) = w @ sp @ show_redirs rs"

abbreviation show_words :: "aword list \<Rightarrow> uchar list" where
  "show_words ws \<equiv> concat (map show_word ws)"

abbreviation show_backs :: "space list \<Rightarrow> uchar list" where
  "show_backs bs \<equiv> concat (map ((#) 38) bs)"

primrec show_line :: "aline \<Rightarrow> uchar list" and show_pipe :: "apipe \<Rightarrow> uchar list"
  and show_exec :: "aexec \<Rightarrow> uchar list" where
  "show_line (ALine p bs l) =
     show_pipe p @ show_backs bs @
     (case map_option (map_prod id show_line) l of None \<Rightarrow> [] | Some s \<Rightarrow> 59 # fst s @ snd s)"
| "show_pipe (APipe e p) =
     show_exec e @
     (case map_option (map_prod id show_pipe) p of None \<Rightarrow> [] | Some s \<Rightarrow> 124 # fst s @ snd s)"
| "show_exec (ABlock sp l sp' rs) = 40 # sp @ show_line l @ 41 # sp' @ show_redirs rs"
| "show_exec (AWords rs ws) = show_redirs rs @ show_words ws"

text \<open>The command that is meant.\<close>

primrec with_redir :: "aredir \<Rightarrow> uchar list cmd \<Rightarrow> uchar list cmd" where
  "with_redir (ARedir k sp w sp') c = redir k w c"

primrec with_word :: "aword \<Rightarrow> uchar list cmd \<Rightarrow> uchar list cmd" where
  "with_word (AWord w sp rs) c = fold with_redir rs (add_arg w c)"

primrec mean_line :: "aline \<Rightarrow> uchar list cmd" and mean_pipe :: "apipe \<Rightarrow> uchar list cmd"
  and mean_exec :: "aexec \<Rightarrow> uchar list cmd" where
  "mean_line (ALine p bs l) =
     (let c = (BACK ^^ length bs) (mean_pipe p)
      in case map_option (map_prod id mean_line) l of None \<Rightarrow> c | Some d \<Rightarrow> LIST c (snd d))"
| "mean_pipe (APipe e p) =
     (case map_option (map_prod id mean_pipe) p of None \<Rightarrow> mean_exec e | Some d \<Rightarrow> PIPE (mean_exec e) (snd d))"
| "mean_exec (ABlock sp l sp' rs) = fold with_redir rs (mean_line l)"
| "mean_exec (AWords rs ws) = fold with_word ws (fold with_redir rs (EXEC []))"

text \<open>
  The lines the grammar allows: words of word characters, white space behind each, and fewer than
  \<^verbatim>\<open>MAXARGS\<close> words in a command.
\<close>

abbreviation white :: "uchar \<Rightarrow> bool" where
  "white c \<equiv> c \<in> set whitespace"

definition space_ok :: "space \<Rightarrow> bool" where
  "space_ok sp \<longleftrightarrow> (\<forall>c\<in>set sp. white c)"

definition wordchar :: "uchar \<Rightarrow> bool" where
  "wordchar c \<longleftrightarrow> c \<noteq> 0 \<and> c \<notin> set whitespace \<and> c \<notin> set symbols"

definition word_ok :: "uchar list \<Rightarrow> bool" where
  "word_ok w \<longleftrightarrow> w \<noteq> [] \<and> (\<forall>c\<in>set w. wordchar c)"

primrec redir_ok :: "aredir \<Rightarrow> bool" where
  "redir_ok (ARedir k sp w sp') \<longleftrightarrow> k \<in> {60, 62, 43} \<and> space_ok sp \<and> word_ok w \<and> space_ok sp' \<and> sp' \<noteq> []"

abbreviation redirs_ok :: "aredir list \<Rightarrow> bool" where
  "redirs_ok rs \<equiv> \<forall>r\<in>set rs. redir_ok r"

primrec aword_ok :: "aword \<Rightarrow> bool" where
  "aword_ok (AWord w sp rs) \<longleftrightarrow> word_ok w \<and> space_ok sp \<and> sp \<noteq> [] \<and> redirs_ok rs"

primrec line_ok :: "aline \<Rightarrow> bool" and pipe_ok :: "apipe \<Rightarrow> bool" and exec_ok :: "aexec \<Rightarrow> bool" where
  "line_ok (ALine p bs l) \<longleftrightarrow> pipe_ok p \<and> (\<forall>b\<in>set bs. space_ok b) \<and>
     (case map_option (map_prod id line_ok) l of None \<Rightarrow> True | Some x \<Rightarrow> space_ok (fst x) \<and> snd x)"
| "pipe_ok (APipe e p) \<longleftrightarrow> exec_ok e \<and>
     (case map_option (map_prod id pipe_ok) p of None \<Rightarrow> True | Some x \<Rightarrow> space_ok (fst x) \<and> snd x)"
| "exec_ok (ABlock sp l sp' rs) \<longleftrightarrow> space_ok sp \<and> line_ok l \<and> space_ok sp' \<and> redirs_ok rs"
| "exec_ok (AWords rs ws) \<longleftrightarrow> redirs_ok rs \<and> length ws < MAXARGS \<and> (\<forall>w\<in>set ws. aword_ok w)"

section \<open>Tokens at a suffix of the line\<close>

lemma skip_takeWhile: "s \<le> length buf \<Longrightarrow> skip P buf s = s + length (takeWhile P (drop s buf))"
proof (induction P buf s rule: skip.induct)
  case (1 P buf s)
  show ?case
  proof (cases "s < length buf \<and> P (buf ! s)")
    case True
    then have "drop s buf = buf ! s # drop (s + 1) buf" by (simp add: Cons_nth_drop_Suc)
    with 1 True show ?thesis by (simp add: skip.simps [of P buf s])
  next
    case False
    with 1 show ?thesis
      by (cases "s = length buf") (auto simp: skip_stop Cons_nth_drop_Suc [symmetric])
  qed
qed

lemma byte_at_drop: "byte_at buf (s + i) = byte_at (drop s buf) i"
  by (auto simp: byte_at_def)

text \<open>\<open>starts P x\<close>: the list has a first byte, and it satisfies \<open>P\<close>.\<close>

definition starts :: "(uchar \<Rightarrow> bool) \<Rightarrow> uchar list \<Rightarrow> bool" where
  "starts P x \<longleftrightarrow> (case x of [] \<Rightarrow> False | c # _ \<Rightarrow> P c)"

lemma starts_simps [simp]: "\<not> starts P []" "starts P (c # x) \<longleftrightarrow> P c"
  "starts P (x @ y) \<longleftrightarrow> (if x = [] then starts P y else starts P x)"
  by (auto simp: starts_def split: list.splits)

lemma starts_mono: "starts P x \<Longrightarrow> (\<And>c. P c \<Longrightarrow> Q c) \<Longrightarrow> starts Q x"
  by (cases x) auto

lemma takeWhile_starts: "\<not> starts P x \<Longrightarrow> takeWhile P x = []"
  by (cases x) auto

lemma skip_white_at: "s \<le> length buf \<Longrightarrow> \<not> starts white (drop s buf) \<Longrightarrow> skip_white buf s = s"
  by (simp add: skip_takeWhile takeWhile_starts)

text \<open>\<open>here buf s x\<close>: from the offset \<open>s\<close> on the line is \<open>x\<close>.\<close>

definition here :: "uchar list \<Rightarrow> nat \<Rightarrow> uchar list \<Rightarrow> bool" where
  "here buf s x \<longleftrightarrow> s \<le> length buf \<and> drop s buf = x"

lemma here_append: "here buf s (x @ y) \<Longrightarrow> here buf (s + length x) y"
proof -
  assume "here buf s (x @ y)"
  then have d: "s \<le> length buf" "drop s buf = x @ y" by (simp_all add: here_def)
  have "length buf - s = length x + length y" using arg_cong [OF d(2), of length] by simp
  moreover have "drop (s + length x) buf = y"
    using arg_cong [OF d(2), of "drop (length x)"] by (simp add: add.commute)
  ultimately show ?thesis using d(1) by (simp add: here_def)
qed

lemma here_Cons: "here buf s (c # x) \<Longrightarrow> here buf (s + 1) x"
  using here_append [of buf s "[c]" x] by simp

lemma here_less: "here buf s (c # x) \<Longrightarrow> s < length buf"
  by (cases "s = length buf") (auto simp: here_def)

lemma here_byte: "here buf s x \<Longrightarrow> byte_at buf s = byte_at x 0"
  using byte_at_drop [of buf s 0] by (simp add: here_def)

lemma here_skip: "here buf s x \<Longrightarrow> \<not> starts white x \<Longrightarrow> skip_white buf s = s"
  by (simp add: here_def skip_white_at)

lemma here_skip_space:
  assumes "here buf s (sp @ x)" and "space_ok sp" and "\<not> starts white x"
  shows "skip_white buf s = s + length sp"
proof -
  have "takeWhile white (sp @ x) = sp"
    using assms(2) takeWhile_starts [OF assms(3)] by (simp add: space_ok_def takeWhile_append2)
  with assms(1) show ?thesis by (simp add: here_def skip_takeWhile)
qed

lemma here_peek:
  assumes "here buf s x" and "\<not> starts white x"
  shows "peek buf s toks = (starts (\<lambda>c. c \<noteq> 0 \<and> c \<in> set (map of_char toks)) x, s)"
  using here_skip [OF assms] here_byte [OF assms(1)] by (cases x) (auto simp: peek_def Let_def)

lemma here_symbol:
  assumes "here buf s (c # sp @ x)" and "c \<in> set (map of_char ''|();&<'')" and "space_ok sp" and "\<not> starts white x"
  shows "gettoken buf s = (c, (s, s + 1), s + 1 + length sp)"
proof -
  have "\<not> starts white (c # sp @ x)" using assms(2) by (auto simp: whitespace_def of_char_def)
  moreover have "byte_at buf s = c" using here_byte [OF assms(1)] by simp
  moreover have "c \<noteq> 0" using assms(2) by (auto simp: of_char_def)
  ultimately show ?thesis
    using assms(2) here_skip [OF assms(1)] here_skip_space [OF here_Cons [OF assms(1)] assms(3,4)]
    by (simp add: gettoken_def Let_def)
qed

lemma here_greater:
  assumes "here buf s (62 # sp @ x)" and "space_ok sp" and "\<not> starts white x" and "\<not> starts ((=) 62) x"
  shows "gettoken buf s = (62, (s, s + 1), s + 1 + length sp)"
proof -
  have "\<not> starts white (62 # sp @ x)" by (simp add: whitespace_def)
  moreover have "byte_at buf (s + 1) \<noteq> 62"
    using here_byte [OF here_Cons [OF assms(1)]] assms(2,4)
    by (cases sp; cases x) (auto simp: space_ok_def whitespace_def)
  ultimately show ?thesis
    using here_skip [OF assms(1)] here_byte [OF assms(1)] here_skip_space [OF here_Cons [OF assms(1)] assms(2,3)]
    by (simp add: gettoken_def Let_def of_char_def)
qed

lemma here_append_mode:
  assumes "here buf s (62 # 62 # sp @ x)" and "space_ok sp" and "\<not> starts white x"
  shows "gettoken buf s = (43, (s, s + 2), s + 2 + length sp)"
proof -
  have "\<not> starts white (62 # 62 # sp @ x)" by (simp add: whitespace_def)
  moreover have "byte_at buf (s + 1) = 62"
    using here_byte [OF here_Cons [OF assms(1)]] by simp
  moreover have "here buf (s + 2) (sp @ x)" using here_append [of buf s "[62, 62]" "sp @ x"] assms(1) by simp
  then have "skip_white buf (s + 2) = s + 2 + length sp" using assms(2,3) by (rule here_skip_space)
  ultimately show ?thesis
    using here_skip [OF assms(1)] here_byte [OF assms(1)]
    by (simp add: gettoken_def Let_def of_char_def)
qed

definition slice :: "uchar list \<Rightarrow> nat \<times> nat \<Rightarrow> uchar list" where
  "slice buf t = take (snd t - fst t) (drop (fst t) buf)"

lemma symbol_chars: "set (map of_char ''|();&<'') \<subseteq> set symbols" "62 \<in> set symbols"
  by (auto simp: symbols_def of_char_def)

lemma here_word:
  assumes "here buf s (w @ sp @ x)" and "word_ok w" and "space_ok sp" and "sp \<noteq> []" and "\<not> starts white x"
  shows "gettoken buf s = (of_char CHR ''a'', (s, s + length w), s + length w + length sp)"
    and "slice buf (s, s + length w) = w"
proof -
  let ?P = "\<lambda>c. c \<notin> set whitespace \<and> c \<notin> set symbols"
  obtain c w' where w: "w = c # w'" "wordchar c" using assms(2) by (cases w) (auto simp: word_ok_def)
  have "takeWhile ?P (sp @ x) = []" using assms(3,4) by (cases sp) (auto simp: space_ok_def)
  then have "takeWhile ?P (w @ sp @ x) = w"
    using assms(2) by (auto simp: word_ok_def wordchar_def takeWhile_append2)
  then have "skip ?P buf s = s + length w"
    using assms(1) by (simp add: here_def skip_takeWhile)
  moreover have "skip_white buf (s + length w) = s + length w + length sp"
    using here_skip_space [OF here_append [OF assms(1)] assms(3,5)] .
  moreover have "\<not> starts white (w @ sp @ x)" using w by (simp add: wordchar_def)
  then have "skip_white buf s = s" using here_skip [OF assms(1)] by simp
  moreover have "byte_at buf s = c" using here_byte [OF assms(1)] w by simp
  moreover have "c \<noteq> 0" "c \<notin> set (map of_char ''|();&<'')" "c \<noteq> of_char CHR ''>''"
    using w(2) symbol_chars by (auto simp: wordchar_def of_char_def)
  ultimately show "gettoken buf s = (of_char CHR ''a'', (s, s + length w), s + length w + length sp)"
    by (simp add: gettoken_def Let_def)
  show "slice buf (s, s + length w) = w"
    using assms(1) by (simp add: here_def slice_def)
qed

section \<open>Redirections and words\<close>

lemma map_cmd_redir: "map_cmd f (redir tok t c) = redir tok (f t) (map_cmd f c)"
  by (simp add: redir_def)

lemma map_cmd_add_arg: "map_cmd f (add_arg t c) = add_arg (f t) (map_cmd f c)"
  by (induction t c rule: add_arg.induct) auto

lemma word_starts: "word_ok w \<Longrightarrow> starts P (w @ x) \<longleftrightarrow> P (hd w)" "word_ok w \<Longrightarrow> wordchar (hd w)"
  by (cases w; simp add: word_ok_def)+

lemma show_redir_parse:
  assumes "here buf s (show_redir (ARedir k sp w sp') @ x)" and "redir_ok (ARedir k sp w sp')"
    and "\<not> starts white x"
  obtains te s1 te1 where "peek buf s ''<>'' = (True, s)" and "gettoken buf s = (k, te1, s1)"
    and "gettoken buf s1 = (of_char CHR ''a'', te, s + length (show_redir (ARedir k sp w sp')))"
    and "slice buf te = w"
proof -
  let ?y = "w @ sp' @ x"
  have ok: "k \<in> {60, 62, 43}" "space_ok sp" "word_ok w" "space_ok sp'" "sp' \<noteq> []" using assms(2) by simp_all
  have w: "\<not> starts white ?y" "\<not> starts ((=) 62) ?y"
    using word_starts [OF ok(3)] symbol_chars by (auto simp: wordchar_def)
  define t :: "uchar list" where "t = (if k = 43 then [62, 62] else [k])"
  have t: "here buf s (t @ sp @ ?y)" "show_redir (ARedir k sp w sp') = t @ sp @ w @ sp'"
    "t = (if k = 43 then [62, 62] else [k])"
    using assms(1) by (simp_all add: t_def split: if_splits)
  have "\<exists>te1. gettoken buf s = (k, te1, s + length t + length sp)"
  proof (cases "k = 60")
    case True
    with t w ok(2) here_symbol [of buf s 60 sp ?y] show ?thesis by (simp add: of_char_def)
  next
    case False
    with t w ok(1,2) here_greater [of buf s sp ?y] here_append_mode [of buf s sp ?y] show ?thesis by auto
  qed
  then obtain te1 where "gettoken buf s = (k, te1, s + length t + length sp)" by auto
  moreover have "peek buf s ''<>'' = (True, s)"
    using here_peek [OF t(1), of "''<>''"] t(3) ok(1) by (auto simp: whitespace_def of_char_def)
  moreover have "here buf (s + length t + length sp) ?y" using here_append [OF here_append [OF t(1)]] .
  note here_word [OF this ok(3-5) assms(3)]
  ultimately show thesis
    using that [of te1 "s + length t + length sp" "(s + length t + length sp, s + length t + length sp + length w)"] t(2)
    by (simp add: add.assoc)
qed

lemma show_redirs_starts: "redirs_ok rs \<Longrightarrow> \<not> starts white x \<Longrightarrow> \<not> starts white (show_redirs rs @ x)"
proof (cases rs)
  case (Cons r rs')
  assume "redirs_ok rs"
  with Cons show ?thesis by (cases r) (auto simp: whitespace_def)
qed simp

lemma parse_redirs:
  assumes "here buf s (show_redirs rs @ x)" and "redirs_ok rs" and "\<not> starts white x"
    and "\<not> starts (\<lambda>c. c = 60 \<or> c = 62) x"
  shows "\<exists>c'. parseredirs c buf s = Parsed (c', s + length (show_redirs rs)) \<and>
    map_cmd (slice buf) c' = fold with_redir rs (map_cmd (slice buf) c)"
  using assms(1,2)
proof (induction rs arbitrary: c s)
  case Nil
  have "peek buf s ''<>'' = (False, s)"
    using here_peek [of buf s x "''<>''"] Nil assms(3,4) by (cases x) (auto simp: of_char_def)
  then show ?case by (simp add: parseredirs.simps [of c buf s])
next
  case (Cons r rs)
  obtain k sp w sp' where r: "r = ARedir k sp w sp'" by (cases r)
  let ?x = "show_redirs rs @ x" and ?n = "length (show_redir r)"
  have h: "here buf s (show_redir r @ ?x)" and ok: "redir_ok r" "redirs_ok rs"
    using Cons.prems by auto
  obtain te s1 te1 where p: "peek buf s ''<>'' = (True, s)" "gettoken buf s = (k, te1, s1)"
      "gettoken buf s1 = (of_char CHR ''a'', te, s + ?n)" "slice buf te = w"
    using show_redir_parse [OF h [unfolded r] ok(1) [unfolded r] show_redirs_starts [OF ok(2) assms(3)]]
    unfolding r by metis
  have step: "parseredirs c buf s = parseredirs (redir k te c) buf (s + ?n)"
    by (simp add: parseredirs.simps [of c buf s] p)
  obtain c' where "parseredirs (redir k te c) buf (s + ?n) = Parsed (c', s + ?n + length (show_redirs rs))"
    "map_cmd (slice buf) c' = fold with_redir rs (map_cmd (slice buf) (redir k te c))"
    using Cons.IH [OF here_append [OF h] ok(2), of "redir k te c"] by auto
  with step p(4) show ?case by (simp add: map_cmd_redir add.assoc r del: show_redir.simps)
qed

text \<open>What may follow the words of a command: nothing, or a symbol that ends it.\<close>

definition closes :: "uchar list \<Rightarrow> bool" where
  "closes x \<longleftrightarrow> x = [] \<or> starts (\<lambda>c. c \<in> {124, 41, 38, 59}) x"

lemma closes_starts: "closes x \<Longrightarrow> \<not> starts white x" "closes x \<Longrightarrow> \<not> starts (\<lambda>c. c = 60 \<or> c = 62) x"
  by (cases x; auto simp: closes_def whitespace_def)+

lemma closes_Cons: "closes (c # x) \<longleftrightarrow> c \<in> {124, 41, 38, 59}"
  by (simp add: closes_def)

lemma words_start:
  assumes "\<forall>w\<in>set ws. aword_ok w" and "closes x"
  shows "\<not> starts white (show_words ws @ x)" and "\<not> starts (\<lambda>c. c = 60 \<or> c = 62) (show_words ws @ x)"
    and "\<not> starts ((=) 40) (show_words ws @ x)"
proof -
  have "\<not> starts white (show_words ws @ x) \<and> \<not> starts (\<lambda>c. c = 60 \<or> c = 62) (show_words ws @ x) \<and>
      \<not> starts ((=) 40) (show_words ws @ x)"
  proof (cases ws)
    case Nil
    with closes_starts [OF assms(2)] assms(2) show ?thesis by (cases x) (auto simp: closes_def)
  next
    case (Cons aw ws')
    obtain w sp rs where aw: "aw = AWord w sp rs" by (cases aw)
    have w: "word_ok w" using assms(1) Cons aw by simp
    from word_starts(2) [OF w] have "wordchar (hd w)" .
    moreover have "starts P (show_words ws @ x) \<longleftrightarrow> P (hd w)" for P
      using word_starts(1) [OF w, of P "sp @ show_redirs rs @ show_words ws' @ x"] Cons aw by simp
    ultimately show ?thesis by (auto simp: wordchar_def symbols_def of_char_def)
  qed
  then show "\<not> starts white (show_words ws @ x)" and "\<not> starts (\<lambda>c. c = 60 \<or> c = 62) (show_words ws @ x)"
    and "\<not> starts ((=) 40) (show_words ws @ x)" by simp_all
qed

lemma parse_words:
  assumes "here buf s (show_words ws @ x)" and "closes x"
    and "\<forall>w\<in>set ws. aword_ok w" and "argc + length ws < MAXARGS"
  shows "\<exists>c'. parseargs argc c buf s = Parsed (c', s + length (show_words ws)) \<and>
    map_cmd (slice buf) c' = fold with_word ws (map_cmd (slice buf) c)"
  using assms(1,3,4)
proof (induction ws arbitrary: argc c s)
  case Nil
  then have h: "here buf s x" by simp
  show ?case
  proof (cases x)
    case Nil
    have "peek buf s ''|)&;'' = (False, s)" using here_peek [OF h] Nil by simp
    moreover have "gettoken buf s = (0, (s, s), s)"
      using here_skip [OF h] here_byte [OF h] Nil by (simp add: gettoken_def Let_def)
    ultimately show ?thesis by (simp add: parseargs.simps [of argc c buf s])
  next
    case (Cons d x')
    have "peek buf s ''|)&;'' = (True, s)"
      using here_peek [OF h closes_starts(1) [OF assms(2)]] Cons assms(2)
      by (auto simp: closes_def of_char_def)
    then show ?thesis by (simp add: parseargs.simps [of argc c buf s])
  qed
next
  case (Cons aw ws)
  obtain w sp rs where aw: "aw = AWord w sp rs" by (cases aw)
  let ?x = "show_words ws @ x" and ?s = "s + length w + length sp"
  let ?y = "show_redirs rs @ ?x"
  have ok: "word_ok w" "space_ok sp" "sp \<noteq> []" "redirs_ok rs" "\<forall>w\<in>set ws. aword_ok w"
    using Cons.prems aw by auto
  note st = words_start [OF ok(5) assms(2)]
  have h: "here buf s (w @ sp @ ?y)" using Cons.prems aw by simp
  note tok = here_word [OF h ok(1-3) show_redirs_starts [OF ok(4) st(1)]]
  have ns: "\<not> starts white (w @ sp @ ?y)"
    and np: "\<not> starts (\<lambda>c. c \<noteq> 0 \<and> c \<in> set (map of_char ''|)&;'')) (w @ sp @ ?y)"
    using word_starts [OF ok(1)] by (auto simp: wordchar_def symbols_def of_char_def)
  have "peek buf s ''|)&;'' = (False, s)" by (simp only: here_peek [OF h ns] np)
  then have step: "parseargs argc c buf s =
      pbind (parseredirs (add_arg (s, s + length w) c) buf ?s) (\<lambda>(c, s). parseargs (argc + 1) c buf s)"
    using Cons.prems(3) by (simp add: parseargs.simps [of argc c buf s] tok of_char_def)
  have h1: "here buf ?s ?y" using here_append [OF here_append [OF h]] .
  obtain c1 where c1: "parseredirs (add_arg (s, s + length w) c) buf ?s = Parsed (c1, ?s + length (show_redirs rs))"
    "map_cmd (slice buf) c1 = fold with_redir rs (add_arg w (map_cmd (slice buf) c))"
    using parse_redirs [OF h1 ok(4) st(1,2), of "add_arg (s, s + length w) c"] tok(2)
    by (auto simp: map_cmd_add_arg)
  have "here buf (?s + length (show_redirs rs)) ?x" using here_append [OF h1] .
  from Cons.IH [OF this ok(5), of "argc + 1" c1] Cons.prems(3) step c1 show ?case
    by (simp add: add.assoc aw)
qed

lemma parse_backs:
  assumes "here buf s (show_backs bs @ x)" and "\<forall>b\<in>set bs. space_ok b" and "\<not> starts white x"
    and "\<not> starts ((=) 38) x"
  shows "\<exists>c'. parseback c buf s = (c', s + length (show_backs bs)) \<and>
    map_cmd f c' = (BACK ^^ length bs) (map_cmd f c)"
  using assms(1,2)
proof (induction bs arbitrary: c s)
  case Nil
  have "peek buf s ''&'' = (False, s)"
    using here_peek [of buf s x "''&''"] Nil assms(3,4) by (cases x) (auto simp: of_char_def)
  then show ?case by (simp add: parseback.simps [of c buf s])
next
  case (Cons b bs)
  let ?y = "show_backs bs @ x"
  have h: "here buf s (38 # b @ ?y)" and b: "space_ok b" using Cons.prems by simp_all
  have y: "\<not> starts white ?y" using assms(3) by (cases bs) (auto simp: whitespace_def)
  have "peek buf s ''&'' = (True, s)" using here_peek [OF h, of "''&''"] by (simp add: whitespace_def of_char_def)
  moreover have "gettoken buf s = (38, (s, s + 1), s + 1 + length b)"
    using here_symbol [OF h _ b y] by (simp add: of_char_def)
  ultimately have "parseback c buf s = parseback (BACK c) buf (s + 1 + length b)"
    by (simp add: parseback.simps [of c buf s])
  with Cons.IH [OF here_append [OF here_Cons [OF h]], of "BACK c"] Cons.prems(2) show ?case
    by (simp add: funpow_swap1 add.assoc)
qed

section \<open>Lines\<close>

abbreviation show_rest :: "uchar \<Rightarrow> (space \<times> uchar list) option \<Rightarrow> uchar list" where
  "show_rest c r \<equiv> case r of None \<Rightarrow> [] | Some s \<Rightarrow> c # fst s @ snd s"

lemma show_exec_starts:
  assumes "exec_ok e" and "closes x"
  shows "\<not> starts white (show_exec e @ x)"
proof (cases e)
  case (ABlock sp l sp' rs)
  then show ?thesis by (simp add: whitespace_def)
next
  case (AWords rs ws)
  then show ?thesis
    using assms words_start(1) [of ws x] show_redirs_starts [of rs "show_words ws @ x"] by simp
qed

lemma show_pipe_starts: "pipe_ok p \<Longrightarrow> closes x \<Longrightarrow> \<not> starts white (show_pipe p @ x)"
  using show_exec_starts by (cases p) (auto split: option.splits simp: closes_Cons)

lemma show_line_starts: "line_ok l \<Longrightarrow> closes x \<Longrightarrow> \<not> starts white (show_line l @ x)"
proof (cases l)
  case (ALine p bs m)
  assume "line_ok l" and x: "closes x"
  let ?y = "show_backs bs @ show_rest 59 (map_option (map_prod id show_line) m) @ x"
  have "closes ?y" using x by (cases bs) (auto simp: closes_Cons split: option.splits)
  with \<open>line_ok l\<close> ALine show ?thesis using show_pipe_starts [of p ?y] by simp
qed

lemma parse_exec_words:
  assumes "here buf s (show_exec (AWords rs ws) @ x)" and "exec_ok (AWords rs ws)" and "closes x"
  shows "\<exists>c. parseexec (Suc n) buf s = Parsed (c, s + length (show_exec (AWords rs ws))) \<and>
    map_cmd (slice buf) c = mean_exec (AWords rs ws)"
proof -
  have ok: "redirs_ok rs" "length ws < MAXARGS" "\<forall>w\<in>set ws. aword_ok w"
    using assms(2) by simp_all
  note st = words_start [OF ok(3) assms(3)]
  have h: "here buf s (show_redirs rs @ show_words ws @ x)" using assms(1) by simp
  have ns: "\<not> starts white (show_redirs rs @ show_words ws @ x)" using show_redirs_starts [OF ok(1) st(1)] .
  have np: "\<not> starts (\<lambda>c. c \<noteq> 0 \<and> c \<in> set (map of_char ''('')) (show_redirs rs @ show_words ws @ x)"
  proof (cases rs)
    case Nil
    have "\<not> starts (\<lambda>c. c \<noteq> 0 \<and> c \<in> set (map of_char ''('')) (show_words ws @ x)"
      using st(3) by (rule contrapos_nn, elim starts_mono) (simp add: of_char_def)
    with Nil show ?thesis by simp
  next
    case (Cons r rs')
    with ok(1) show ?thesis by (cases r) (auto simp: of_char_def)
  qed
  have "peek buf s ''('' = (False, s)" by (simp only: here_peek [OF h ns] np)
  moreover obtain c1 where c1: "parseredirs (EXEC []) buf s = Parsed (c1, s + length (show_redirs rs))"
      "map_cmd (slice buf) c1 = fold with_redir rs (EXEC [])"
    using parse_redirs [OF h ok(1) st(1,2), of "EXEC []"] by auto
  moreover obtain c where "parseargs 0 c1 buf (s + length (show_redirs rs)) =
        Parsed (c, s + length (show_redirs rs) + length (show_words ws))"
      "map_cmd (slice buf) c = mean_exec (AWords rs ws)"
    using parse_words [OF here_append [OF h] assms(3) ok(3), of 0 c1] ok(2) c1(2) by auto
  ultimately show ?thesis by (simp add: add.assoc)
qed

text \<open>What may follow a line and a pipeline inside a longer line.\<close>

definition ends_line :: "uchar list \<Rightarrow> bool" where
  "ends_line x \<longleftrightarrow> x = [] \<or> starts ((=) 41) x"

definition ends_pipe :: "uchar list \<Rightarrow> bool" where
  "ends_pipe x \<longleftrightarrow> x = [] \<or> starts (\<lambda>c. c \<in> {41, 38, 59}) x"

lemma ends_closes: "ends_line x \<Longrightarrow> ends_pipe x" "ends_pipe x \<Longrightarrow> closes x"
  by (cases x; auto simp: ends_line_def ends_pipe_def closes_def)+

lemma parse_shown:
  "\<And>n s x. here buf s (show_line l @ x) \<Longrightarrow> line_ok l \<Longrightarrow> ends_line x \<Longrightarrow> 4 * (length buf - s) + 4 \<le> n \<Longrightarrow>
    \<exists>c. parseline n buf s = Parsed (c, s + length (show_line l)) \<and> map_cmd (slice buf) c = mean_line l"
  "\<And>n s x. here buf s (show_pipe p @ x) \<Longrightarrow> pipe_ok p \<Longrightarrow> ends_pipe x \<Longrightarrow> 4 * (length buf - s) + 3 \<le> n \<Longrightarrow>
    \<exists>c. parsepipe n buf s = Parsed (c, s + length (show_pipe p)) \<and> map_cmd (slice buf) c = mean_pipe p"
  "\<And>n s x. here buf s (show_exec e @ x) \<Longrightarrow> exec_ok e \<Longrightarrow> closes x \<Longrightarrow> 4 * (length buf - s) + 2 \<le> n \<Longrightarrow>
    \<exists>c. parseexec n buf s = Parsed (c, s + length (show_exec e)) \<and> map_cmd (slice buf) c = mean_exec e"
proof (induction l and p and e)
  case (ALine p bs m)
  let ?z = "show_rest 59 (map_option (map_prod id show_line) m) @ x"
  obtain n' where n: "n = Suc n'" "4 * (length buf - s) + 3 \<le> n'" using ALine.prems(4) by (cases n) auto
  have h: "here buf s (show_pipe p @ show_backs bs @ ?z)" using ALine.prems(1) by simp
  have ok: "pipe_ok p" "\<forall>b\<in>set bs. space_ok b" using ALine.prems(2) by simp_all
  have "ends_pipe (show_backs bs @ ?z)"
    using ends_closes(1) [OF ALine.prems(3)] by (cases bs) (auto simp: ends_pipe_def split: option.splits)
  then obtain c1 where c1: "parsepipe n' buf s = Parsed (c1, s + length (show_pipe p))"
      "map_cmd (slice buf) c1 = mean_pipe p"
    using ALine.IH(1) [OF h ok(1) _ n(2)] by auto
  note h1 = here_append [OF h]
  have z: "\<not> starts white ?z" "\<not> starts ((=) 38) ?z"
    using ALine.prems(3) by (cases x; auto simp: ends_line_def whitespace_def split: option.splits)+
  let ?s = "s + length (show_pipe p) + length (show_backs bs)"
  obtain c2 where c2: "parseback c1 buf (s + length (show_pipe p)) = (c2, ?s)"
      "map_cmd (slice buf) c2 = (BACK ^^ length bs) (mean_pipe p)"
    using parse_backs [OF h1 ok(2) z, of c1 "slice buf"] c1(2) by auto
  have h2: "here buf ?s ?z" using here_append [OF h1] by simp
  show ?case
  proof (cases m)
    case None
    have "\<not> starts (\<lambda>c. c \<noteq> 0 \<and> c \<in> set (map of_char '';'')) ?z"
      using None ALine.prems(3) by (cases x) (auto simp: ends_line_def of_char_def)
    then have "peek buf ?s '';'' = (False, ?s)" by (simp only: here_peek [OF h2 z(1)])
    with c1 c2 n None show ?thesis by (simp add: add.assoc)
  next
    case (Some spm)
    obtain sp m' where spm: "spm = (sp, m')" by fastforce
    have h3: "here buf ?s (59 # sp @ show_line m' @ x)" using h2 Some spm by simp
    have m': "line_ok m'" "space_ok sp" using ALine.prems(2) Some spm by simp_all
    have ns: "\<not> starts white (show_line m' @ x)"
      using show_line_starts [OF m'(1)] ends_closes ALine.prems(3) by blast
    have "peek buf ?s '';'' = (True, ?s)"
      using here_peek [OF h3, of "'';''"] by (simp add: whitespace_def of_char_def)
    moreover have "gettoken buf ?s = (59, (?s, ?s + 1), ?s + 1 + length sp)"
      using here_symbol [OF h3 _ m'(2) ns] by (simp add: of_char_def)
    moreover have fuel: "4 * (length buf - (?s + 1 + length sp)) + 4 \<le> n'" using here_less [OF h3] n(2) by arith
    obtain c3 where "parseline n' buf (?s + 1 + length sp) = Parsed (c3, ?s + 1 + length sp + length (show_line m'))"
        "map_cmd (slice buf) c3 = mean_line m'"
      using ALine.IH(2) [of spm m' "?s + 1 + length sp" x n'] here_append [OF here_Cons [OF h3]]
        Some spm m' ALine.prems(3) fuel by (auto simp: snds.simps)
    ultimately show ?thesis using c1 c2 n Some spm by (simp add: add.assoc)
  qed
next
  case (APipe e q)
  let ?z = "show_rest 124 (map_option (map_prod id show_pipe) q) @ x"
  obtain n' where n: "n = Suc n'" "4 * (length buf - s) + 2 \<le> n'" using APipe.prems(4) by (cases n) auto
  have h: "here buf s (show_exec e @ ?z)" using APipe.prems(1) by simp
  have cl: "closes ?z" using ends_closes(2) [OF APipe.prems(3)] by (auto simp: closes_Cons split: option.splits)
  then obtain c1 where c1: "parseexec n' buf s = Parsed (c1, s + length (show_exec e))"
      "map_cmd (slice buf) c1 = mean_exec e"
    using APipe.IH(1) [OF h _ _ n(2)] APipe.prems(2) by auto
  let ?s = "s + length (show_exec e)"
  note h1 = here_append [OF h] and z = closes_starts(1) [OF cl]
  show ?case
  proof (cases q)
    case None
    have "\<not> starts (\<lambda>c. c \<noteq> 0 \<and> c \<in> set (map of_char ''|'')) ?z"
      using None APipe.prems(3) by (cases x) (auto simp: ends_pipe_def of_char_def)
    then have "peek buf ?s ''|'' = (False, ?s)" by (simp only: here_peek [OF h1 z])
    with c1 n None show ?thesis by simp
  next
    case (Some spq)
    obtain sp q' where spq: "spq = (sp, q')" by fastforce
    have h3: "here buf ?s (124 # sp @ show_pipe q' @ x)" using h1 Some spq by simp
    have q': "pipe_ok q'" "space_ok sp" using APipe.prems(2) Some spq by simp_all
    have ns: "\<not> starts white (show_pipe q' @ x)"
      using show_pipe_starts [OF q'(1)] ends_closes APipe.prems(3) by blast
    have "peek buf ?s ''|'' = (True, ?s)"
      using here_peek [OF h3, of "''|''"] by (simp add: whitespace_def of_char_def)
    moreover have "gettoken buf ?s = (124, (?s, ?s + 1), ?s + 1 + length sp)"
      using here_symbol [OF h3 _ q'(2) ns] by (simp add: of_char_def)
    moreover have fuel: "4 * (length buf - (?s + 1 + length sp)) + 3 \<le> n'" using here_less [OF h3] n(2) by arith
    obtain c3 where "parsepipe n' buf (?s + 1 + length sp) = Parsed (c3, ?s + 1 + length sp + length (show_pipe q'))"
        "map_cmd (slice buf) c3 = mean_pipe q'"
      using APipe.IH(2) [of spq q' "?s + 1 + length sp" x n'] here_append [OF here_Cons [OF h3]]
        Some spq q' APipe.prems(3) fuel by (auto simp: snds.simps)
    ultimately show ?thesis using c1 n Some spq by (simp add: add.assoc)
  qed
next
  case (ABlock sp l sp' rs)
  obtain n' where n: "n = Suc (Suc n')" "4 * (length buf - s) \<le> n'"
    using ABlock.prems(4) by (cases n; cases "n - 1") auto
  have ok: "space_ok sp" "line_ok l" "space_ok sp'" "redirs_ok rs" using ABlock.prems(2) by simp_all
  let ?y = "41 # sp' @ show_redirs rs @ x" and ?t = "s + 1 + length sp"
  have h: "here buf s (40 # sp @ show_line l @ ?y)" using ABlock.prems(1) by simp
  have ns: "\<not> starts white (show_line l @ ?y)" using show_line_starts [OF ok(2)] by (simp add: closes_Cons)
  have "peek buf s ''('' = (True, s)" using here_peek [OF h, of "''(''"] by (simp add: whitespace_def of_char_def)
  moreover have "gettoken buf s = (40, (s, s + 1), ?t)"
    using here_symbol [OF h _ ok(1) ns] by (simp add: of_char_def)
  moreover have fuel: "4 * (length buf - ?t) + 4 \<le> n'" using here_less [OF h] n(2) by arith
  note h1 = here_append [OF here_Cons [OF h]]
  obtain c1 where c1: "parseline n' buf ?t = Parsed (c1, ?t + length (show_line l))"
      "map_cmd (slice buf) c1 = mean_line l"
    using ABlock.IH [OF h1 ok(2) _ fuel] by (auto simp: ends_line_def)
  moreover let ?s = "?t + length (show_line l)"
  have h2: "here buf ?s ?y" using here_append [OF h1] .
  have x: "\<not> starts white x" "\<not> starts (\<lambda>c. c = 60 \<or> c = 62) x" using closes_starts [OF ABlock.prems(3)] .
  have "peek buf ?s '')'' = (True, ?s)" using here_peek [OF h2, of "'')''"] by (simp add: whitespace_def of_char_def)
  moreover have "gettoken buf ?s = (41, (?s, ?s + 1), ?s + 1 + length sp')"
    using here_symbol [OF h2 _ ok(3) show_redirs_starts [OF ok(4) x(1)]] by (simp add: of_char_def)
  moreover obtain c2 where "parseredirs c1 buf (?s + 1 + length sp') =
        Parsed (c2, ?s + 1 + length sp' + length (show_redirs rs))"
      "map_cmd (slice buf) c2 = fold with_redir rs (mean_line l)"
    using parse_redirs [OF here_append [OF here_Cons [OF h2]] ok(4) x, of c1] c1(2) by auto
  ultimately show ?case using n by (simp add: add.assoc)
next
  case (AWords rs ws)
  obtain n' where "n = Suc n'" using AWords.prems(4) by (cases n) auto
  with parse_exec_words [OF AWords.prems(1-3)] show ?case by simp
qed

section \<open>Strings\<close>

text \<open>
  A word token: a stretch of the line without white space and symbols that ends where the line or the
  word ends. No such end lies inside another word, so the NULs stored there leave the words intact.
\<close>

definition plain :: "uchar \<Rightarrow> bool" where
  "plain c \<longleftrightarrow> c \<notin> set whitespace \<and> c \<notin> set symbols"

definition tok_ok :: "uchar list \<Rightarrow> nat \<times> nat \<Rightarrow> bool" where
  "tok_ok buf t \<longleftrightarrow> fst t \<le> snd t \<and> snd t \<le> length buf \<and> (\<forall>i. fst t \<le> i \<and> i < snd t \<longrightarrow> plain (buf ! i)) \<and>
     (snd t < length buf \<longrightarrow> \<not> plain (buf ! snd t))"

lemma skip_inside: "s \<le> i \<Longrightarrow> i < skip P buf s \<Longrightarrow> P (buf ! i)"
proof (induction P buf s rule: skip.induct)
  case (1 P buf s)
  show ?case
  proof (cases "s < length buf \<and> P (buf ! s)")
    case True
    with 1 show ?thesis by (cases "i = s") (auto simp: skip.simps [of P buf s])
  next
    case False
    with "1.prems" show ?thesis by (simp add: skip_stop)
  qed
qed

lemma gettoken_tok:
  assumes "gettoken buf s = (of_char CHR ''a'', t, s')"
  shows "tok_ok buf t"
proof -
  let ?q = "skip_white buf s"
  have "byte_at buf ?q \<noteq> 0" "t = (?q, skip (\<lambda>c. c \<notin> set whitespace \<and> c \<notin> set symbols) buf ?q)"
    using assms by (auto simp: gettoken_def Let_def of_char_def split: if_splits)
  moreover from this(1) have "?q \<le> length buf" using byte_at_length [of buf ?q] by simp
  ultimately show ?thesis
    using skip_inside [of ?q _ plain buf] skip_stops [of plain buf ?q]
    by (auto simp: tok_ok_def skip_ge skip_le plain_def [abs_def])
qed

lemma set_cmd_redir: "set_cmd (redir k t c) \<subseteq> insert t (set_cmd c)"
  by (auto simp: redir_def)

lemma set_cmd_add_arg: "set_cmd (add_arg t c) \<subseteq> insert t (set_cmd c)"
  by (induction t c rule: add_arg.induct) auto

lemma parseredirs_tok:
  "parseredirs c buf s = Parsed (c', s') \<Longrightarrow> \<forall>t\<in>set_cmd c. tok_ok buf t \<Longrightarrow> \<forall>t\<in>set_cmd c'. tok_ok buf t"
proof (induction "Suc (length buf) - s" arbitrary: c s rule: less_induct)
  case less
  obtain b s1 where p: "peek buf s ''<>'' = (b, s1)" by fastforce
  obtain tok te s2 where t: "gettoken buf s1 = (tok, te, s2)" by (metis prod.exhaust)
  obtain w te' s3 where w: "gettoken buf s2 = (w, te', s3)" by (metis prod.exhaust)
  show ?case
  proof (cases "b \<and> w = of_char CHR ''a''")
    case True
    then have ok: "\<forall>t\<in>set_cmd (redir tok te' c). tok_ok buf t"
      using set_cmd_redir [of tok te' c] gettoken_tok [of buf s2 te' s3] w less.prems(2) by auto
    have r: "parseredirs (redir tok te' c) buf s3 = Parsed (c', s')"
      using less.prems(1) p t w True by (simp add: parseredirs.simps [of c buf s])
    have "Suc (length buf) - s3 < Suc (length buf) - s"
      using p t True gettoken_later [OF w]
      by (intro peek_measure [of s1 buf s "''<>''" tok te s2]) (auto simp: symbols_def)
    from less.hyps [OF this r ok] show ?thesis .
  next
    case False
    with less.prems p t w show ?thesis
      by (auto simp: parseredirs.simps [of c buf s] split: if_splits bool.splits)
  qed
qed

lemma parseargs_tok:
  "parseargs argc c buf s = Parsed (c', s') \<Longrightarrow> \<forall>t\<in>set_cmd c. tok_ok buf t \<Longrightarrow> \<forall>t\<in>set_cmd c'. tok_ok buf t"
proof (induction "MAXARGS - argc" arbitrary: argc c s rule: less_induct)
  case less
  obtain b s1 where p: "peek buf s ''|)&;'' = (b, s1)" by fastforce
  obtain tok te s2 where t: "gettoken buf s1 = (tok, te, s2)" by (metis prod.exhaust)
  show ?case
  proof (cases "b \<or> tok = 0")
    case True
    with less.prems p t show ?thesis
      by (auto simp: parseargs.simps [of argc c buf s] split: bool.splits)
  next
    case False
    with less.prems p t obtain c2 s3 where a: "argc + 1 < MAXARGS" "tok = of_char CHR ''a''"
        and r: "parseredirs (add_arg te c) buf s2 = Parsed (c2, s3)"
          "parseargs (argc + 1) c2 buf s3 = Parsed (c', s')"
      by (auto simp: parseargs.simps [of argc c buf s] pbind_eq split: if_splits)
    have "\<forall>t\<in>set_cmd (add_arg te c). tok_ok buf t"
      using set_cmd_add_arg [of te c] gettoken_tok [of buf s1 te s2] less.prems(2) t a(2) by auto
    note ok = parseredirs_tok [OF r(1) this]
    have "MAXARGS - (argc + 1) < MAXARGS - argc" using a(1) by simp
    from less.hyps [OF this r(2) ok] show ?thesis .
  qed
qed

lemma parseback_set: "parseback c buf s = (c', s') \<Longrightarrow> set_cmd c' = set_cmd c"
proof (induction c buf s rule: parseback.induct)
  case (1 c buf s)
  obtain b s1 where p: "peek buf s ''&'' = (b, s1)" by fastforce
  obtain tok te s2 where t: "gettoken buf s1 = (tok, te, s2)" by (metis prod.exhaust)
  have IH: "parseback (BACK c) buf s2 = (c', s') \<Longrightarrow> set_cmd c' = set_cmd (BACK c)" if b
    using "1.IH" [OF p [symmetric] _ t [symmetric] refl] that by simp
  from 1(2) p t IH show ?case
    by (cases b) (simp_all add: parseback.simps [of c buf s])
qed

lemma parse_tok:
  "parseline n buf s = Parsed (c, s') \<Longrightarrow> \<forall>t\<in>set_cmd c. tok_ok buf t"
  "parsepipe n buf s = Parsed (c, s') \<Longrightarrow> \<forall>t\<in>set_cmd c. tok_ok buf t"
  "parseexec n buf s = Parsed (c, s') \<Longrightarrow> \<forall>t\<in>set_cmd c. tok_ok buf t"
  "parseblock n buf s = Parsed (c, s') \<Longrightarrow> \<forall>t\<in>set_cmd c. tok_ok buf t"
proof (induction n arbitrary: s s' c)
  case (Suc n)
  {
    case 1
    then show ?case
      by (rule parselineE) (auto simp: pbind_eq dest!: parseback_set Suc.IH(1,2))
  next
    case 2
    then show ?case by (rule parsepipeE) (auto simp: pbind_eq dest!: Suc.IH(2,3))
  next
    case 3
    then show ?case
    proof (rule parseexecE)
      fix s1
      assume "Parsed (c, s') = parseblock n buf s1"
      then show ?thesis using Suc.IH(4) [of s1 c s'] by simp
    next
      fix s1
      assume "Parsed (c, s') = pbind (parseredirs (EXEC []) buf s1) (\<lambda>(c, s). parseargs 0 c buf s)"
      then obtain c1 s2 where r: "parseredirs (EXEC []) buf s1 = Parsed (c1, s2)"
          and a: "parseargs 0 c1 buf s2 = Parsed (c, s')"
        by (auto simp: pbind_eq)
      have "\<forall>t\<in>set_cmd (EXEC []). tok_ok buf t" by simp
      from parseargs_tok [OF a parseredirs_tok [OF r this]] show ?thesis .
    qed
  next
    case 4
    then show ?case
    proof (rule parseblockE)
      fix s1 tok te s2 c1 s3 s4 tok' te' s5
      assume l: "parseline n buf s2 = Parsed (c1, s3)" and r: "Parsed (c, s') = parseredirs c1 buf s5"
      from parseredirs_tok [OF r [symmetric] Suc.IH(1) [OF l]] show ?thesis .
    qed auto
  }
qed simp_all

lemma nth_update: "xs[i := x] ! j = (if i = j \<and> i < length xs then x else xs ! j)"
  by (cases "i < length xs") (auto simp: list_update_beyond)

lemma fold_nul:
  "length (fold (\<lambda>t buf. buf[snd t := 0]) as buf) = length buf"
  "i < length buf \<Longrightarrow> fold (\<lambda>t buf. buf[snd t := 0]) as buf ! i = (if i \<in> snd ` set as then 0 else buf ! i)"
  by (induction as arbitrary: buf) (auto simp: nth_update)

lemma nulterminate_nth:
  "length (nulterminate c buf) = length buf"
  "i < length buf \<Longrightarrow> nulterminate c buf ! i = (if i \<in> snd ` set_cmd c then 0 else buf ! i)"
  by (induction c buf rule: nulterminate.induct) (auto simp: fold_nul nth_update)

lemma str_at_slice:
  assumes "0 \<notin> set buf" and "\<forall>t\<in>set_cmd c. tok_ok buf t" and "t \<in> set_cmd c"
  shows "str_at (nulterminate c (cstring buf)) t = slice buf t"
proof -
  let ?b = "nulterminate c (cstring buf)" and ?q = "fst t" and ?e = "snd t"
  have t: "?q \<le> ?e" "?e \<le> length buf" "\<And>i. ?q \<le> i \<Longrightarrow> i < ?e \<Longrightarrow> plain (buf ! i)"
    using assms(2,3) by (auto simp: tok_ok_def)
  have same: "?b ! i = buf ! i" if "?q \<le> i" "i < ?e" for i
  proof -
    have "i \<noteq> snd u" if u: "u \<in> set_cmd c" for u
    proof
      assume "i = snd u"
      with u assms(2) have "i < length buf \<longrightarrow> \<not> plain (buf ! i)" by (auto simp: tok_ok_def)
      with t \<open>?q \<le> i\<close> \<open>i < ?e\<close> show False by auto
    qed
    then show ?thesis using t(2) that nulterminate_nth(2) [of i "cstring buf" c] by (auto simp: nth_append)
  qed
  have len: "length ?b = length buf + 1" by (simp add: nulterminate_nth)
  have "take (?e - ?q) (drop ?q ?b) = slice buf t"
    using t same len by (intro nth_equalityI) (auto simp: slice_def)
  moreover have "?b ! ?e = 0"
    using assms(3) t(2) nulterminate_nth(2) [of ?e "cstring buf" c] by auto
  then have "drop (?e - ?q) (drop ?q ?b) = 0 # drop (Suc ?e) ?b"
    using t(1,2) len Cons_nth_drop_Suc [of ?e ?b] by simp
  ultimately have "drop ?q ?b = slice buf t @ 0 # drop (Suc ?e) ?b"
    by (metis append_take_drop_id)
  moreover have "0 \<notin> set (slice buf t)"
    using assms(1) by (auto simp: slice_def dest!: in_set_takeD in_set_dropD)
  then have "takeWhile ((\<noteq>) 0) (slice buf t @ 0 # drop (Suc ?e) ?b) = slice buf t"
    by (subst takeWhile_append2) auto
  ultimately show ?thesis by (simp add: str_at_def)
qed

lemma parsecmd_strings:
  assumes "parsecmd buf = Parsed (c, buf')" and "0 \<notin> set buf"
  shows "map_cmd (str_at buf') c = map_cmd (slice buf) c"
proof -
  obtain s where "parseline (parse_fuel buf) buf 0 = Parsed (c, s)" and b: "buf' = nulterminate c (cstring buf)"
    using assms(1) by (auto simp: parsecmd_def pbind_eq split_def split: if_splits)
  then show ?thesis
    using parse_tok(1) str_at_slice [OF assms(2)] by (auto intro!: cmd.map_cong0)
qed

section \<open>Running a line\<close>

lemma show_nul_free:
  "line_ok l \<Longrightarrow> 0 \<notin> set (show_line l)" "pipe_ok p \<Longrightarrow> 0 \<notin> set (show_pipe p)"
  "exec_ok e \<Longrightarrow> 0 \<notin> set (show_exec e)"
proof -
  have sp: "space_ok sp \<Longrightarrow> 0 \<notin> set sp" for sp by (auto simp: space_ok_def whitespace_def)
  have w: "word_ok w \<Longrightarrow> 0 \<notin> set w" for w by (auto simp: word_ok_def wordchar_def)
  have r: "redir_ok r \<Longrightarrow> 0 \<notin> set (show_redir r)" for r by (cases r) (auto dest: sp w)
  then have aw: "aword_ok a \<Longrightarrow> 0 \<notin> set (show_word a)" for a by (cases a) (auto dest: sp w)
  show "line_ok l \<Longrightarrow> 0 \<notin> set (show_line l)" "pipe_ok p \<Longrightarrow> 0 \<notin> set (show_pipe p)"
    "exec_ok e \<Longrightarrow> 0 \<notin> set (show_exec e)"
    by (induction l and p and e) (auto dest: sp r aw split: option.splits, blast+)
qed

lemma skip_white_idem: "skip_white buf (skip_white buf s) = skip_white buf s"
  using skip_stops [of white buf s] by (intro skip_stop) auto

lemma parse_lead: "parseline n buf (skip_white buf s) = parseline n buf s"
proof -
  have peek: "peek buf (skip_white buf s) toks = peek buf s toks" for toks
    by (simp add: peek_def skip_white_idem)
  have "parseexec m buf (skip_white buf s) = parseexec m buf s" for m
    by (cases m) (simp_all add: peek)
  then have "parsepipe m buf (skip_white buf s) = parsepipe m buf s" for m
    by (cases m) simp_all
  then show ?thesis by (cases n) simp_all
qed



end
