(* ===== verification/Spec2Isabelle.thy ===== *)
theory Spec2Isabelle
  imports Trap Pipe_Proofs Bcache_Props Printf_Proofs Filters Primes Xargs Mkfs_Proofs Sh_Round
begin

text \<open>
  A verification development of xv6: the RISC-V kernel under \<^verbatim>\<open>kernel/\<close>, the program \<^verbatim>\<open>mkfs/mkfs.c\<close> that builds its
  file system, and the user library and programs under \<^verbatim>\<open>user/\<close>.

  \<^bold>\<open>The system and its parts.\<close> System calls and interrupts enter through \<^verbatim>\<open>trap.c\<close>; \<^verbatim>\<open>syscall.c\<close>, \<^verbatim>\<open>sysproc.c\<close> and
  \<^verbatim>\<open>sysfile.c\<close> fetch arguments from user memory and call processes (\<^verbatim>\<open>proc.c\<close>, \<^verbatim>\<open>exec.c\<close>), files and pipes
  (\<^verbatim>\<open>file.c\<close>, \<^verbatim>\<open>pipe.c\<close>) and the file system (\<^verbatim>\<open>fs.c\<close>). The file system changes blocks through the redo log
  (\<^verbatim>\<open>log.c\<close>), the log goes through the buffer cache (\<^verbatim>\<open>bio.c\<close>), and that through the disk driver
  (\<^verbatim>\<open>virtio_disk.c\<close>). Page tables (\<^verbatim>\<open>vm.c\<close>) take pages from the page allocator (\<^verbatim>\<open>kalloc.c\<close>). Spin locks, sleep
  locks and \<^verbatim>\<open>sleep\<close>/\<^verbatim>\<open>wakeup\<close> are used everywhere. \<^verbatim>\<open>mkfs\<close> writes the disk that the kernel boots from, and the
  shell starts the other user programs.

  \<^bold>\<open>How kernel code is modelled.\<close> A C function is a HOL function of the same name in the state-passing combinators of
  \<open>Prelude\<close> (\<open>ret\<close>, \<open>bnd\<close>, \<open>thn\<close>, \<open>panic\<close>, \<open>undef\<close>, \<open>spin\<close>, \<open>foreach\<close>). Its outcome is \<open>Ok\<close> with a result and a state,
  \<open>Panic\<close> for a call of \<^verbatim>\<open>panic\<close>, \<open>Sleep\<close> where the thread gives up the processor (the definition with the suffix
  \<open>_resume\<close> is what runs when it is switched back to), \<open>Spin\<close> where it waits for another hart for ever, and \<open>UB\<close> where
  the behaviour of the C code is undefined, such as a store past the end of an array. The globals of a component are a
  record that extends the record of the layer below it, from \<open>kbase\<close> (\<open>Kernel\<close>) to \<open>ktrap\<close> (\<open>Trap\<close>), so that a function runs
  unchanged in every layer above it. Integers are words of their C width. Device registers are fields of the state.

  \<^bold>\<open>Theories of the kernel.\<close>
  \<^item> \<open>Prelude\<close>, \<open>Kernel\<close>: outcomes, combinators and their weakest preconditions; \<^verbatim>\<open>param.h\<close>, \<^verbatim>\<open>types.h\<close>, locks, processors.
  \<^item> \<open>Spinlock\<close>, \<open>Sched\<close>, \<open>Sleeplock\<close>: \<^verbatim>\<open>spinlock.c\<close>, the scheduling half of \<^verbatim>\<open>proc.c\<close>, \<^verbatim>\<open>sleeplock.c\<close>. Shown: mutual
    exclusion, by rule induction over the interleavings of the memory accesses of any number of harts; that a
    \<^verbatim>\<open>wakeup\<close> after a \<^verbatim>\<open>sleep\<close> is not lost; that releasing a sleep lock lets a waiter take it.
  \<^item> \<open>CString\<close>: \<^verbatim>\<open>string.c\<close> on a byte memory, with overlapping moves.
  \<^item> \<open>Memory\<close>, \<open>Kalloc\<close>: byte memory and \<^verbatim>\<open>kalloc.c\<close>, whose free list runs through the free pages. The locale \<open>page_pool\<close> is
    the contract of the allocator; it is interpreted on \<open>kalloc\<close> and \<open>kfree\<close>. Shown: distinct pages, reuse, and that
    \<open>kinit\<close> puts every page on the list.
  \<^item> \<open>VM\<close>, \<open>Pagetable\<close>, \<open>UserMem\<close>, \<open>UserCopy\<close>: \<^verbatim>\<open>vm.c\<close>. \<open>Pagetable\<close> gives tables a meaning (\<open>wlk\<close>, \<open>pte_at\<close>); \<open>UserMem\<close> shows that
    \<open>mappages\<close> implements an update of that meaning; \<open>UserCopy\<close> shows that \<open>copyout\<close> and \<open>copyin\<close> agree.
  \<^item> \<open>Console\<close>, \<open>Printf_Proofs\<close>: \<^verbatim>\<open>uart.c\<close>, \<^verbatim>\<open>console.c\<close>, \<^verbatim>\<open>printf.c\<close>; the bound of the buffer in \<^verbatim>\<open>printint\<close>.
  \<^item> \<open>Bio\<close>, \<open>Bcache\<close>, \<open>Bcache_Props\<close>: \<^verbatim>\<open>bio.c\<close>. The linked list of buffers is related to an abstract cache (\<open>acache\<close>, \<open>cview\<close>);
    one lemma for each operation (\<open>bread_view\<close> to \<open>bunpin_view\<close>) carries the proofs of the layers above.
  \<^item> \<open>Virtio\<close>: \<^verbatim>\<open>virtio_disk.c\<close>, descriptors and rings included. The file system runs on the transfer as one step.
  \<^item> \<open>Log\<close>, \<open>Log_Proofs\<close>, \<open>Crash\<close>: \<^verbatim>\<open>log.c\<close>. Shown: after a crash at any write of \<open>end_op\<close>, recovery leaves the disk
    with all writes of the transaction or with none; what \<open>log_write\<close> does on every branch; and that the reservation in
    \<open>begin_op\<close> admits more blocks than the log has room for.
  \<^item> \<open>FS\<close>, \<open>FS_Codec\<close>: \<^verbatim>\<open>fs.c\<close>; round trips of on-disk inodes and directory entries, and the elements of a path.
  \<^item> \<open>File\<close>, \<open>Ring\<close>, \<open>Pipe_Proofs\<close>: \<^verbatim>\<open>file.c\<close>, \<^verbatim>\<open>pipe.c\<close>. The locale \<open>byte_ring\<close> is the contract of a ring buffer with
    free-running counters, interpreted on the pipe; bytes come out of a pipe in the order they went in.
  \<^item> \<open>Proc\<close>, \<open>Exec\<close>, \<open>Syscall\<close>, \<open>Trap\<close>: the rest of \<^verbatim>\<open>proc.c\<close>, \<^verbatim>\<open>exec.c\<close>, every system call and the dispatcher, \<^verbatim>\<open>trap.c\<close>,
    \<^verbatim>\<open>plic.c\<close> and \<^verbatim>\<open>main.c\<close>. \<open>Boot\<close> has the concrete states on which the other theories are instantiated.

  \<^bold>\<open>User programs.\<close> A program sees the results of its system calls as arguments: \<open>source\<close> (\<open>ULib\<close>) is the list of what reads
  deliver, and a program is a function to the list of its writes and its exit status; the shell is a tree of its
  interactions (\<open>uproc\<close>). The theories are \<open>ULib\<close> and \<open>UPrintf\<close> (\<^verbatim>\<open>ulib.c\<close>, \<^verbatim>\<open>printf.c\<close>), \<open>Grep\<close>, \<open>Filters\<close> (\<^verbatim>\<open>cat.c\<close>,
  \<^verbatim>\<open>wc.c\<close>, \<^verbatim>\<open>echo.c\<close>), \<open>Primes\<close>, \<open>Xargs\<close>, and \<open>Sh\<close>, \<open>Sh_Proofs\<close>, \<open>Sh_Round\<close> for \<^verbatim>\<open>sh.c\<close>. Shown: the matcher of \<^verbatim>\<open>grep\<close>
  decides the language of the pattern; \<^verbatim>\<open>grep\<close> and \<^verbatim>\<open>wc\<close> do not depend on how reads cut up the input; printing and
  reading of numbers are inverse (over \<open>Digits\<close>); the parser of the shell ends on every line and reads back every
  command of its grammar. \<open>Mkfs\<close> is \<^verbatim>\<open>mkfs.c\<close>; \<open>Mkfs_Files\<close>, \<open>Mkfs_Image\<close> and \<open>Mkfs_Proofs\<close> show that the image it
  writes, read with the kernel's own layout, holds the files it was given, each block used once.

  \<^bold>\<open>Bounds and fuel.\<close> Loops are structural or have a termination proof, with three exceptions. The recursive descent of the shell's parser has
  fuel, four for each byte of the line and four more; \<open>parsecmd_terminates\<close> shows that it never runs out. A loop that
  waits for another hart or for an interrupt is \<open>Spin\<close> or \<open>Sleep\<close>. The loop in which the shell opens the
  console runs for at most four rounds, since a fourth file descriptor ends it. Sizes are those of the
  source: 2000 blocks of 1024 bytes, 200 inodes, 30 buffers and log blocks, 512 bytes in a pipe, 64 processes.

  \<^bold>\<open>Not modelled.\<close> \<^verbatim>\<open>start.c\<close> and the assembly files only move control and general registers; the effect of \<^verbatim>\<open>swtch\<close> is part of
  the scheduling component. Code of several harts is interleaved only in \<open>Spinlock\<close> and \<open>Sched\<close>; the other theories follow one
  thread of execution between the points where it sleeps. \<^verbatim>\<open>find\<close>, \<^verbatim>\<open>ls\<close>, \<^verbatim>\<open>init\<close>, \<^verbatim>\<open>kill\<close>, \<^verbatim>\<open>ln\<close>, \<^verbatim>\<open>mkdir\<close>,
  \<^verbatim>\<open>rm\<close>, \<^verbatim>\<open>sleep\<close>, \<^verbatim>\<open>pingpong\<close> and \<^verbatim>\<open>zombie\<close> are sequences of system calls and messages, as are \<^verbatim>\<open>start\<close> and \<^verbatim>\<open>stat\<close> of the user library. The
  test programs (\<^verbatim>\<open>usertests\<close>, \<^verbatim>\<open>grind\<close>, \<^verbatim>\<open>forktest\<close>, \<^verbatim>\<open>stressfs\<close>) define no behaviour of the system. \<^verbatim>\<open>umalloc.c\<close> has no
  model.
\<close>

end
